(* ===== verification/Prelude.thy ===== *)
theory Prelude
  imports Main "HOL-Library.AList" "HOL-Library.Sublist"
begin

text \<open>
  Shared vocabulary of the development: the exceptions the Python code raises, results that
  may be an exception, Python dictionaries as association lists in insertion order, and the
  list slices (\<open>xs[-n:]\<close>, \<open>xs[a:b]\<close>) the stores and the HTTP routes use, with
  the lemmas and the \<open>named_theorems\<close> collections the component theories rely on.
\<close>

named_theorems model_defs "definitions unfolded when a component is proved against its model"
named_theorems dict_simps "rewrite rules for Python dictionaries"

section \<open>Exceptions and results\<close>

text \<open>
  The exceptions of the source. Message texts are kept only where the code inspects or
  returns them; \<open>HTTPException\<close> carries its status code.
\<close>

datatype py_error =
    ValueError
  | TypeError
  | KeyError
  | RuntimeError
  | OverflowError
  | ZeroDivisionError
  | AttributeError
  | OSError
  | ImportError
  | PolicyValidationError
  | InvalidTransitionError
  | OrgPolicyDenied string
  | RedisError
  | DatabaseError
  | HTTPException nat

type_synonym 'a result = "py_error + 'a"

fun is_ok :: "'a result \<Rightarrow> bool" where
  "is_ok (Inr _) = True"
| "is_ok (Inl _) = False"

fun rbind :: "'a result \<Rightarrow> ('a \<Rightarrow> 'b result) \<Rightarrow> 'b result" where
  "rbind (Inl e) f = Inl e"
| "rbind (Inr x) f = f x"

lemma rbind_Inr_iff: "rbind r f = Inr y \<longleftrightarrow> (\<exists>x. r = Inr x \<and> f x = Inr y)"
  by (cases r) auto

lemma rbind_Inl_iff: "rbind r f = Inl e \<longleftrightarrow> r = Inl e \<or> (\<exists>x. r = Inr x \<and> f x = Inl e)"
  by (cases r) auto

lemma rbind_cong [fundef_cong]:
  "r = r' \<Longrightarrow> (\<And>x. r' = Inr x \<Longrightarrow> f x = f' x) \<Longrightarrow> rbind r f = rbind r' f'"
  by (cases r') auto

lemma is_ok_iff: "is_ok r \<longleftrightarrow> (\<exists>x. r = Inr x)"
  by (cases r) auto

text \<open>Run a fallible function over a list, stopping at the first exception.\<close>

fun rmap :: "('a \<Rightarrow> 'b result) \<Rightarrow> 'a list \<Rightarrow> 'b list result" where
  "rmap f [] = Inr []"
| "rmap f (x # xs) = rbind (f x) (\<lambda>y. rbind (rmap f xs) (\<lambda>ys. Inr (y # ys)))"

lemma rmap_length: "rmap f xs = Inr ys \<Longrightarrow> length ys = length xs"
  by (induction xs arbitrary: ys) (auto simp: rbind_Inr_iff)

lemma rmap_nth: "rmap f xs = Inr ys \<Longrightarrow> i < length xs \<Longrightarrow> f (xs ! i) = Inr (ys ! i)"
proof (induction xs arbitrary: ys i)
  case (Cons x xs)
  then show ?case by (cases i) (auto simp: rbind_Inr_iff)
qed simp

section \<open>Dictionaries\<close>

text \<open>
  A Python \<open>dict\<close> keeps insertion order: storing under a present key replaces the value
  in place, storing under a new key appends. That is \<^const>\<open>AList.update\<close>;
  \<^const>\<open>AList.delete\<close> removes a key. A well-formed dictionary has distinct keys.
\<close>

type_synonym ('k, 'v) pydict = "('k \<times> 'v) list"

definition wf_dict :: "('k, 'v) pydict \<Rightarrow> bool" where
  "wf_dict d \<longleftrightarrow> distinct (map fst d)"

abbreviation dget :: "('k, 'v) pydict \<Rightarrow> 'k \<Rightarrow> 'v option" where
  "dget d k \<equiv> map_of d k"

abbreviation dput :: "('k, 'v) pydict \<Rightarrow> 'k \<Rightarrow> 'v \<Rightarrow> ('k, 'v) pydict" where
  "dput d k v \<equiv> AList.update k v d"

abbreviation ddel :: "('k, 'v) pydict \<Rightarrow> 'k \<Rightarrow> ('k, 'v) pydict" where
  "ddel d k \<equiv> AList.delete k d"

definition dvalues :: "('k, 'v) pydict \<Rightarrow> 'v list" where
  "dvalues d = map snd d"

fun dget_default :: "('k, 'v) pydict \<Rightarrow> 'k \<Rightarrow> 'v \<Rightarrow> 'v" where
  "dget_default d k v = (case dget d k of None \<Rightarrow> v | Some x \<Rightarrow> x)"

lemma dget_dput [simp, dict_simps]: "dget (dput d k v) j = (if j = k then Some v else dget d j)"
  by (simp add: update_conv')

lemma dget_ddel [simp, dict_simps]: "dget (ddel d k) j = (if j = k then None else dget d j)"
  by (simp add: delete_conv')

lemma wf_dict_Nil [simp, intro]: "wf_dict []"
  by (simp add: wf_dict_def)

lemma wf_dict_dput [simp, intro]: "wf_dict d \<Longrightarrow> wf_dict (dput d k v)"
  by (simp add: wf_dict_def distinct_update)

lemma wf_dict_ddel [simp, intro]: "wf_dict d \<Longrightarrow> wf_dict (ddel d k)"
  by (simp add: wf_dict_def distinct_delete)

lemma keys_dput: "fst ` set (dput d k v) = insert k (fst ` set d)"
  by (induction d) auto

lemma dget_in_set: "dget d k = Some v \<Longrightarrow> (k, v) \<in> set d"
  by (rule map_of_SomeD)

lemma wf_dict_in_set: "wf_dict d \<Longrightarrow> (k, v) \<in> set d \<longleftrightarrow> dget d k = Some v"
  by (simp add: wf_dict_def)

lemma dvalues_mem:
  assumes "wf_dict d"
  shows "v \<in> set (dvalues d) \<longleftrightarrow> (\<exists>k. dget d k = Some v)"
proof -
  have "v \<in> set (dvalues d) \<longleftrightarrow> (\<exists>k. (k, v) \<in> set d)"
    by (force simp: dvalues_def)
  then show ?thesis by (simp add: wf_dict_in_set [OF assms])
qed

lemma length_dput: "wf_dict d \<Longrightarrow> length (dput d k v) = (if dget d k = None then Suc (length d) else length d)"
proof -
  have "length (dput d k v) = (if k \<in> fst ` set d then length d else Suc (length d))" for d :: "('a \<times> 'b) list"
    by (induction d) auto
  then show ?thesis by (auto simp: map_of_eq_None_iff)
qed

lemma dput_new: "dget d k = None \<Longrightarrow> dput d k v = d @ [(k, v)]"
  by (induction d) (auto split: if_splits)

lemma map_fst_dput: "map fst (dput d k v) = (if dget d k = None then map fst d @ [k] else map fst d)"
  by (induction d) (auto simp: map_of_eq_None_iff image_iff)

section \<open>Slices\<close>

definition take_last :: "nat \<Rightarrow> 'a list \<Rightarrow> 'a list" where
  \<comment> \<open>\<open>xs[-n:]\<close> for \<open>n > 0\<close>\<close>
  "take_last n xs = drop (length xs - n) xs"

definition slice :: "nat \<Rightarrow> nat \<Rightarrow> 'a list \<Rightarrow> 'a list" where
  \<comment> \<open>\<open>xs[a:b]\<close> for non-negative bounds\<close>
  "slice a b xs = take (b - a) (drop a xs)"

lemma length_take_last [simp]: "length (take_last n xs) = min n (length xs)"
  by (simp add: take_last_def)

lemma take_last_all: "length xs \<le> n \<Longrightarrow> take_last n xs = xs"
  by (simp add: take_last_def)

lemma take_last_snoc: "take_last (Suc n) (xs @ [x]) = take_last n xs @ [x]"
  by (simp add: take_last_def)

lemma set_take_last: "set (take_last n xs) \<subseteq> set xs"
  by (simp add: take_last_def set_drop_subset)

lemma suffix_take_last: "suffix (take_last n xs) xs"
  by (simp add: take_last_def suffix_drop)

lemma take_last_take_last: "take_last n (take_last m xs) = take_last (min n m) xs"
  by (cases "n \<le> m"; cases "m \<le> length xs") (auto simp: take_last_def)

lemma take_last_append_take_last: "take_last n (take_last n xs @ ys) = take_last n (xs @ ys)"
proof (cases "length xs \<le> n")
  case False
  then show ?thesis
    by (simp add: take_last_def add.commute)
qed (simp add: take_last_all)

lemma slice_pages: "slice 0 (k * n) xs @ slice (k * n) (Suc k * n) xs = slice 0 (Suc k * n) xs"
proof -
  have "take (k * n + n) xs = take (k * n) xs @ take n (drop (k * n) xs)"
    by (rule take_add)
  then show ?thesis by (simp add: slice_def add.commute)
qed

lemma set_slice: "set (slice a b xs) \<subseteq> set xs"
  unfolding slice_def by (meson order_trans set_drop_subset set_take_subset)

lemma length_slice: "length (slice a b xs) = min (b - a) (length xs - a)"
  by (simp add: slice_def)

text \<open>The number of elements at the end of a list that satisfy a predicate (streaks).\<close>

definition trailing :: "('a \<Rightarrow> bool) \<Rightarrow> 'a list \<Rightarrow> nat" where
  "trailing P xs = length (takeWhile P (rev xs))"

lemma trailing_Nil [simp]: "trailing P [] = 0"
  by (simp add: trailing_def)

lemma trailing_snoc [simp]: "trailing P (xs @ [x]) = (if P x then Suc (trailing P xs) else 0)"
  by (simp add: trailing_def)

lemma trailing_le: "trailing P xs \<le> length xs"
  by (metis length_rev length_takeWhile_le trailing_def)

end
