(* ===== verification/Py_Float.thy ===== *)
theory Py_Float
  imports Prelude Complex_Main
begin

text \<open>
  Python's \<open>float\<close>: IEEE-754 binary64 with rounding to nearest, ties to even. A finite
  value is the rational it denotes; every arithmetic operation computes the exact rational
  result and rounds it with \<open>rnd\<close>, which finds the binary exponent, rounds the significand to
  53 bits (gradual underflow below \<open>2^-1022\<close>) and overflows to an infinity at \<open>2^1024\<close>.
  The two zeros are one value here: nothing the modelled code does tells them apart.
  The facts the components use: \<open>rnd\<close> is monotone, exact on representable values and
  odd, so comparisons survive rounding.
\<close>

named_theorems float_simps "evaluation rules for Python floats"

section \<open>Rounding\<close>

text \<open>Round half to even, the rule of both IEEE-754 and Python's \<open>round\<close>.\<close>

definition rhe :: "rat \<Rightarrow> int" where
  "rhe x = (let f = \<lfloor>x\<rfloor>; r = x - of_int f in
     if r < 1/2 then f else if 1/2 < r then f + 1 else if even f then f else f + 1)"

lemma rhe_cases: "rhe x = \<lfloor>x\<rfloor> \<or> rhe x = \<lfloor>x\<rfloor> + 1"
  by (simp add: rhe_def Let_def)

lemma rhe_of_int [simp]: "rhe (of_int n) = n"
  by (simp add: rhe_def)

lemma rhe_numeral [simp]: "rhe (numeral n) = numeral n"
  using rhe_of_int [of "numeral n"] by simp

lemma rhe_zero [simp]: "rhe 0 = 0"
  using rhe_of_int [of 0] by simp

lemma rhe_mono: "x \<le> y \<Longrightarrow> rhe x \<le> rhe y"
proof -
  assume le: "x \<le> y"
  then have f: "\<lfloor>x\<rfloor> \<le> \<lfloor>y\<rfloor>" by (rule floor_mono)
  show ?thesis
  proof (cases "\<lfloor>x\<rfloor> = \<lfloor>y\<rfloor>")
    case True
    with le show ?thesis by (auto simp: rhe_def Let_def)
  next
    case False
    with f have "\<lfloor>x\<rfloor> + 1 \<le> \<lfloor>y\<rfloor>" by simp
    with rhe_cases [of x] rhe_cases [of y] show ?thesis by linarith
  qed
qed

lemma rhe_le_of_int: "x \<le> of_int n \<Longrightarrow> rhe x \<le> n"
  using rhe_mono [of x "of_int n"] by simp

lemma rhe_ge_of_int: "of_int n \<le> x \<Longrightarrow> n \<le> rhe x"
  using rhe_mono [of "of_int n" x] by simp

lemma rhe_minus: "rhe (- x) = - rhe x"
proof (cases "x = of_int \<lfloor>x\<rfloor>")
  case True
  then show ?thesis by (metis of_int_minus rhe_of_int)
next
  case False
  then have lt: "of_int \<lfloor>x\<rfloor> < x"
    by (metis of_int_floor_le order_le_less)
  have up: "x < of_int \<lfloor>x\<rfloor> + 1"
    using floor_correct [of x] by simp
  from lt up have fl: "\<lfloor>- x\<rfloor> = - \<lfloor>x\<rfloor> - 1"
    by (intro floor_unique) auto
  show ?thesis
    unfolding rhe_def Let_def fl by auto
qed

text \<open>The number of binary digits, and the exponent of a positive rational.\<close>

fun bits :: "nat \<Rightarrow> nat" where
  "bits n = (if n = 0 then 0 else Suc (bits (n div 2)))"

declare bits.simps [simp del]

lemma bits_0 [simp]: "bits 0 = 0"
  by (subst bits.simps) simp

lemma bits_upper: "n < 2 ^ bits n"
proof (induction n rule: bits.induct)
  case (1 n)
  show ?case
  proof (cases "n = 0")
    case False
    with "1.IH" have "n div 2 < 2 ^ bits (n div 2)" by simp
    then have "n < 2 * 2 ^ bits (n div 2)" by linarith
    with False show ?thesis by (subst bits.simps) simp
  qed simp
qed

lemma bits_lower: "0 < n \<Longrightarrow> 2 ^ bits n \<le> 2 * n"
proof (induction n rule: bits.induct)
  case (1 n)
  show ?case
  proof (cases "n = 1")
    case True
    then show ?thesis by (simp add: bits.simps)
  next
    case False
    with "1" have "2 ^ bits (n div 2) \<le> 2 * (n div 2)" by simp
    then have "2 * 2 ^ bits (n div 2) \<le> 2 * n" by linarith
    with "1.prems" show ?thesis by (subst bits.simps) simp
  qed
qed

definition pow2 :: "int \<Rightarrow> rat" where
  "pow2 e = (if 0 \<le> e then 2 ^ nat e else 1 / 2 ^ nat (- e))"

lemma pow2_powi: "pow2 e = 2 powi e"
  by (auto simp: pow2_def power_int_def inverse_eq_divide power_one_over)

lemma pow2_pos [simp, intro]: "0 < pow2 e"
  by (simp add: pow2_def)

lemma pow2_nonzero [simp]: "pow2 e \<noteq> 0"
  using pow2_pos [of e] by linarith

lemma pow2_add: "pow2 (a + b) = pow2 a * pow2 b"
  by (simp add: pow2_powi power_int_add)

lemma pow2_diff: "pow2 (a - b) = pow2 a / pow2 b"
  by (simp add: pow2_powi power_int_diff)

lemma pow2_mono: "a \<le> b \<Longrightarrow> pow2 a \<le> pow2 b"
  by (simp add: pow2_powi power_int_increasing)

lemma pow2_strict_mono: "a < b \<Longrightarrow> pow2 a < pow2 b"
  by (simp add: pow2_powi power_int_strict_increasing)

lemma pow2_less_iff: "pow2 a < pow2 b \<longleftrightarrow> a < b"
  by (metis linorder_not_less pow2_mono pow2_strict_mono)

lemma pow2_nat: "pow2 (int n) = 2 ^ n"
  by (simp add: pow2_def)

lemma pow2_0 [simp]: "pow2 0 = 1"
  by (simp add: pow2_def)

lemma pow2_1 [simp]: "pow2 1 = 2"
  by (simp add: pow2_def)

lemma pow2_nonneg [simp]: "0 \<le> pow2 e" "\<not> pow2 e < 0"
  using pow2_pos [of e] by linarith+

definition expo :: "rat \<Rightarrow> int" where
  "expo q = (let (n, d) = quotient_of q; k = int (bits (nat n)) - int (bits (nat d)) in
     if pow2 k \<le> q then k else k - 1)"

lemma expo_bounds:
  assumes "0 < q"
  shows "pow2 (expo q) \<le> q \<and> q < pow2 (expo q + 1)"
proof -
  obtain n d where nd: "quotient_of q = (n, d)" by fastforce
  then have d: "0 < d" by (rule quotient_of_denom_pos)
  from nd have q: "q = of_int n / of_int d" by (rule quotient_of_div)
  with assms d have n: "0 < n" by (simp add: zero_less_divide_iff)
  define a b where "a = bits (nat n)" and "b = bits (nat d)"
  have "(of_nat (nat n) :: rat) < of_nat (2 ^ a)" "(of_nat (2 ^ a) :: rat) \<le> of_nat (2 * nat n)"
       "(of_nat (nat d) :: rat) < of_nat (2 ^ b)" "(of_nat (2 ^ b) :: rat) \<le> of_nat (2 * nat d)"
    using bits_upper [of "nat n"] bits_lower [of "nat n"] bits_upper [of "nat d"]
      bits_lower [of "nat d"] n d
    by (simp_all only: of_nat_less_iff of_nat_le_iff a_def b_def zero_less_nat_eq)
  then have ub: "(of_int n :: rat) < 2 ^ a" "(2 ^ a :: rat) \<le> 2 * of_int n"
       "(of_int d :: rat) < 2 ^ b" "(2 ^ b :: rat) \<le> 2 * of_int d"
    using n d by simp_all
  let ?k = "int a - int b"
  have k: "pow2 ?k = 2 ^ a / 2 ^ b" by (simp add: pow2_diff pow2_nat)
  have dp: "(0::rat) < of_int d" using d by simp
  have up: "q < pow2 (?k + 1)"
  proof -
    have "(of_int n :: rat) * 2 ^ b < 2 ^ a * 2 ^ b" using ub(1) by simp
    also have "\<dots> \<le> 2 ^ a * (2 * of_int d)" using ub(4) by simp
    finally have "(of_int n :: rat) / of_int d < 2 ^ a / 2 ^ b * 2"
      using dp by (simp add: field_simps)
    then show ?thesis unfolding q pow2_add k by simp
  qed
  have lo: "pow2 (?k - 1) < q"
  proof -
    have "(2 ^ a :: rat) * of_int d \<le> 2 * of_int n * of_int d" using ub(2) dp by simp
    also have "\<dots> < 2 * of_int n * 2 ^ b" using ub(3) n by simp
    finally have "2 ^ a / 2 ^ b / 2 < (of_int n :: rat) / of_int d"
      using dp by (simp add: field_simps)
    then show ?thesis unfolding q pow2_diff [of ?k 1] k by simp
  qed
  show ?thesis
    using up lo by (auto simp: expo_def nd Let_def a_def b_def)
qed

lemma expo_unique: "pow2 e \<le> q \<Longrightarrow> q < pow2 (e + 1) \<Longrightarrow> expo q = e"
proof -
  assume a: "pow2 e \<le> q" "q < pow2 (e + 1)"
  then have "0 < q" using pow2_pos [of e] by linarith
  then have "pow2 (expo q) < pow2 (e + 1)" "pow2 e < pow2 (expo q + 1)"
    using expo_bounds [of q] a by linarith+
  then show ?thesis by (simp add: pow2_less_iff)
qed

lemma expo_mono: "0 < p \<Longrightarrow> p \<le> q \<Longrightarrow> expo p \<le> expo q"
proof -
  assume a: "0 < p" "p \<le> q"
  then have "pow2 (expo p) < pow2 (expo q + 1)"
    using expo_bounds [of p] expo_bounds [of q] by linarith
  then show ?thesis by (simp add: pow2_less_iff)
qed

text \<open>The distance between neighbouring doubles at \<open>q\<close>, and the rounded value.\<close>

definition ulp_exp :: "rat \<Rightarrow> int" where
  "ulp_exp q = max (expo \<bar>q\<bar> - 52) (- 1074)"

definition rndv :: "rat \<Rightarrow> rat" where
  "rndv q = (if q = 0 then 0 else of_int (rhe (q / pow2 (ulp_exp q))) * pow2 (ulp_exp q))"

definition is_rep :: "rat \<Rightarrow> bool" where
  \<comment> \<open>a significand of at most 53 bits and an exponent no smaller than that of a subnormal\<close>
  "is_rep v \<longleftrightarrow> (\<exists>m e. v = of_int m * pow2 e \<and> \<bar>m\<bar> \<le> 2 ^ 53 \<and> - 1074 \<le> e)"

lemma rndv_zero [simp]: "rndv 0 = 0"
  by (simp add: rndv_def)

lemma rndv_minus: "rndv (- q) = - rndv q"
  by (simp add: rndv_def ulp_exp_def rhe_minus)

lemma rndv_nonneg: "0 \<le> q \<Longrightarrow> 0 \<le> rndv q"
proof -
  assume "0 \<le> q"
  then have "0 \<le> rhe (q / pow2 (ulp_exp q))"
    by (intro rhe_ge_of_int) (simp add: divide_nonneg_nonneg)
  then show ?thesis by (simp add: rndv_def)
qed

lemma scaled_bounds:
  assumes "0 < q"
  shows "q / pow2 (ulp_exp q) < 2 ^ 53"
    and "- 1074 < ulp_exp q \<Longrightarrow> 2 ^ 52 \<le> q / pow2 (ulp_exp q)"
proof -
  have "q < pow2 (expo q + 1)" using expo_bounds [OF assms] by simp
  also have "\<dots> \<le> pow2 (53 + ulp_exp q)"
    using assms by (intro pow2_mono) (simp add: ulp_exp_def)
  also have "\<dots> = 2 ^ 53 * pow2 (ulp_exp q)"
    using pow2_nat [of 53] by (simp add: pow2_add)
  finally show "q / pow2 (ulp_exp q) < 2 ^ 53" by (simp add: divide_less_eq)
next
  assume "- 1074 < ulp_exp q"
  with assms have "expo q = 52 + ulp_exp q" by (simp add: ulp_exp_def split: if_splits)
  then have "2 ^ 52 * pow2 (ulp_exp q) \<le> q"
    using expo_bounds [OF assms] pow2_nat [of 52] by (simp add: pow2_add)
  then show "2 ^ 52 \<le> q / pow2 (ulp_exp q)" by (simp add: le_divide_eq)
qed

lemma rndv_mono_pos:
  assumes "0 < p" "p \<le> q"
  shows "rndv p \<le> rndv q"
proof (cases "ulp_exp p = ulp_exp q")
  case True
  have "rhe (p / pow2 (ulp_exp q)) \<le> rhe (q / pow2 (ulp_exp q))"
    using assms by (intro rhe_mono) (simp add: divide_right_mono)
  with True assms show ?thesis by (simp add: rndv_def mult_right_mono)
next
  case False
  let ?u = "ulp_exp p" and ?v = "ulp_exp q"
  have "expo p \<le> expo q" using assms by (rule expo_mono)
  then have "?u \<le> ?v" using assms by (simp add: ulp_exp_def)
  with False have uv: "?u + 1 \<le> ?v" by simp
  then have v: "- 1074 < ?v" by (simp add: ulp_exp_def)
  have "rhe (p / pow2 ?u) \<le> 2 ^ 53"
    using scaled_bounds(1) [OF assms(1)] by (intro rhe_le_of_int) simp
  then have "(of_int (rhe (p / pow2 ?u)) :: rat) \<le> of_int (2 ^ 53)"
    by (simp only: of_int_le_iff)
  then have "rndv p \<le> 2 ^ 53 * pow2 ?u"
    using assms by (simp add: rndv_def mult_right_mono)
  also have "\<dots> = 2 ^ 52 * pow2 (?u + 1)" by (simp add: pow2_add)
  also have "\<dots> \<le> 2 ^ 52 * pow2 ?v" using uv by (simp add: pow2_mono)
  also have "\<dots> \<le> rndv q"
  proof -
    have "2 ^ 52 \<le> rhe (q / pow2 ?v)"
      using scaled_bounds(2) [OF _ v] assms by (intro rhe_ge_of_int) simp
    then have "(of_int (2 ^ 52) :: rat) \<le> of_int (rhe (q / pow2 ?v))"
      by (simp only: of_int_le_iff)
    with assms show ?thesis by (simp add: rndv_def mult_right_mono)
  qed
  finally show ?thesis .
qed

lemma rndv_mono: "p \<le> q \<Longrightarrow> rndv p \<le> rndv q"
proof -
  assume le: "p \<le> q"
  consider "0 < p" | "p \<le> 0" "0 \<le> q" | "q < 0" by linarith
  then show ?thesis
  proof cases
    case 1
    then show ?thesis using le by (rule rndv_mono_pos)
  next
    case 2
    then show ?thesis using rndv_nonneg [of q] rndv_nonneg [of "- p"] by (simp add: rndv_minus)
  next
    case 3
    then have "rndv (- q) \<le> rndv (- p)" using le by (intro rndv_mono_pos) auto
    then show ?thesis by (simp add: rndv_minus)
  qed
qed

lemma is_rep_int: "\<bar>n\<bar> \<le> 2 ^ 53 \<Longrightarrow> is_rep (of_int n)"
  unfolding is_rep_def by (rule exI [of _ n], rule exI [of _ 0]) simp

lemma is_rep_minus: "is_rep (- v) \<longleftrightarrow> is_rep v"
proof -
  have "is_rep (- v)" if "is_rep v" for v
  proof -
    from that obtain m e where "v = of_int m * pow2 e" "\<bar>m\<bar> \<le> 2 ^ 53" "- 1074 \<le> e"
      by (auto simp: is_rep_def)
    then show ?thesis unfolding is_rep_def by (intro exI [of _ "- m"] exI [of _ e]) auto
  qed
  from this [of v] this [of "- v"] show ?thesis by auto
qed

lemma is_rep_strict:
  assumes "is_rep v" "0 < v"
  obtains m e where "v = of_int m * pow2 e" "0 < m" "m < 2 ^ 53" "- 1074 \<le> e"
proof -
  from assms obtain m e where me: "v = of_int m * pow2 e" "\<bar>m\<bar> \<le> 2 ^ 53" "- 1074 \<le> e"
    by (auto simp: is_rep_def)
  with assms have pos: "0 < m" by (simp add: zero_less_mult_iff)
  show thesis
  proof (cases "m = 2 ^ 53")
    case True
    then have "v = of_int (2 ^ 52) * pow2 (e + 1)" by (simp add: me pow2_add)
    then show thesis using me by (intro that [of "2 ^ 52" "e + 1"]) auto
  next
    case False
    then show thesis using me pos by (intro that [of m e]) auto
  qed
qed

lemma rndv_rep_pos:
  assumes "is_rep v" "0 < v"
  shows "rndv v = v"
proof -
  obtain m e where me: "v = of_int m * pow2 e" "0 < m" "m < 2 ^ 53" "- 1074 \<le> e"
    using assms by (rule is_rep_strict)
  have "(of_int m :: rat) < of_int (2 ^ 53)" using me(3) by (simp only: of_int_less_iff)
  then have "v < 2 ^ 53 * pow2 e" by (simp add: me)
  also have "\<dots> = pow2 (53 + e)" using pow2_nat [of 53] by (simp add: pow2_add)
  finally have "pow2 (expo v) < pow2 (53 + e)"
    using expo_bounds [OF assms(2)] by simp
  then have "expo v - 52 \<le> e" by (simp add: pow2_less_iff)
  with me(4) assms have ue: "ulp_exp v \<le> e" by (simp add: ulp_exp_def)
  have "v / pow2 (ulp_exp v) = of_int m * pow2 (e - ulp_exp v)" by (simp add: me pow2_diff)
  also have "\<dots> = of_int (m * 2 ^ nat (e - ulp_exp v))" using ue by (simp add: pow2_def)
  finally have *: "v / pow2 (ulp_exp v) = of_int (m * 2 ^ nat (e - ulp_exp v))" .
  then have "rndv v = (v / pow2 (ulp_exp v)) * pow2 (ulp_exp v)"
    using assms by (simp only: rndv_def rhe_of_int) simp
  then show ?thesis by simp
qed

lemma rndv_rep: "is_rep v \<Longrightarrow> rndv v = v"
proof -
  assume rep: "is_rep v"
  consider "0 < v" | "v = 0" | "0 < - v" by linarith
  then show ?thesis
  proof cases
    case 3
    with rep have "rndv (- v) = - v" by (intro rndv_rep_pos) (simp_all add: is_rep_minus)
    then show ?thesis by (simp add: rndv_minus)
  qed (use rep rndv_rep_pos in auto)
qed

lemma is_rep_rndv: "is_rep (rndv q)"
proof -
  have pos: "is_rep (rndv q)" if q: "0 < q" for q
  proof -
    have "rhe (q / pow2 (ulp_exp q)) \<le> 2 ^ 53"
      using scaled_bounds(1) [OF q] by (intro rhe_le_of_int) simp
    moreover have "0 \<le> rhe (q / pow2 (ulp_exp q))"
      using q by (intro rhe_ge_of_int) (simp add: divide_nonneg_nonneg)
    ultimately have "\<bar>rhe (q / pow2 (ulp_exp q))\<bar> \<le> 2 ^ 53" by simp
    moreover have "- 1074 \<le> ulp_exp q" by (simp add: ulp_exp_def)
    ultimately show ?thesis using q unfolding is_rep_def rndv_def by auto
  qed
  consider "0 < q" | "q = 0" | "0 < - q" by linarith
  then show ?thesis
  proof cases
    case 2
    then show ?thesis using is_rep_int [of 0] by simp
  next
    case 3
    then show ?thesis using pos [of "- q"] by (simp add: rndv_minus is_rep_minus)
  qed (rule pos)
qed

lemma rndv_rndv [simp]: "rndv (rndv q) = rndv q"
  by (simp add: rndv_rep is_rep_rndv)

lemma rndv_of_int: "\<bar>n\<bar> \<le> 2 ^ 53 \<Longrightarrow> rndv (of_int n) = of_int n"
  by (simp add: rndv_rep is_rep_int)

lemma rndv_le_rep: "q \<le> v \<Longrightarrow> is_rep v \<Longrightarrow> rndv q \<le> v"
  using rndv_mono [of q v] by (simp add: rndv_rep)

lemma rndv_ge_rep: "v \<le> q \<Longrightarrow> is_rep v \<Longrightarrow> v \<le> rndv q"
  using rndv_mono [of v q] by (simp add: rndv_rep)

section \<open>Values and arithmetic\<close>

datatype pyfloat = Fin rat | PInf | NInf | NaN

definition rnd :: "rat \<Rightarrow> pyfloat" where
  "rnd q = (let v = rndv q in if pow2 1024 \<le> v then PInf else if v \<le> - pow2 1024 then NInf else Fin v)"

text \<open>A value a double can hold.\<close>

fun is_double :: "pyfloat \<Rightarrow> bool" where
  "is_double (Fin v) \<longleftrightarrow> is_rep v \<and> \<bar>v\<bar> < pow2 1024"
| "is_double _ \<longleftrightarrow> True"

declare is_double.simps(1) [simp del]

lemma is_double_Fin: "is_double (Fin v) \<longleftrightarrow> is_rep v \<and> \<bar>v\<bar> < pow2 1024"
  by (rule is_double.simps(1))

fun isfinite :: "pyfloat \<Rightarrow> bool" where
  "isfinite (Fin v) = True"
| "isfinite _ = False"

text \<open>Comparisons: every comparison with a NaN is false.\<close>

fun flt :: "pyfloat \<Rightarrow> pyfloat \<Rightarrow> bool" where
  "flt NaN _ = False"
| "flt _ NaN = False"
| "flt PInf _ = False"
| "flt _ NInf = False"
| "flt NInf _ = True"
| "flt _ PInf = True"
| "flt (Fin a) (Fin b) = (a < b)"

definition fle :: "pyfloat \<Rightarrow> pyfloat \<Rightarrow> bool" where
  "fle a b \<longleftrightarrow> a \<noteq> NaN \<and> b \<noteq> NaN \<and> \<not> flt b a"

fun fadd :: "pyfloat \<Rightarrow> pyfloat \<Rightarrow> pyfloat" where
  "fadd NaN _ = NaN"
| "fadd _ NaN = NaN"
| "fadd PInf NInf = NaN"
| "fadd NInf PInf = NaN"
| "fadd PInf _ = PInf"
| "fadd _ PInf = PInf"
| "fadd NInf _ = NInf"
| "fadd _ NInf = NInf"
| "fadd (Fin a) (Fin b) = rnd (a + b)"

fun fneg :: "pyfloat \<Rightarrow> pyfloat" where
  "fneg NaN = NaN"
| "fneg PInf = NInf"
| "fneg NInf = PInf"
| "fneg (Fin a) = Fin (- a)"

definition fsub :: "pyfloat \<Rightarrow> pyfloat \<Rightarrow> pyfloat" where
  "fsub a b = fadd a (fneg b)"

definition finf :: "bool \<Rightarrow> pyfloat" where
  "finf pos = (if pos then PInf else NInf)"

fun fmul :: "pyfloat \<Rightarrow> pyfloat \<Rightarrow> pyfloat" where
  "fmul (Fin a) (Fin b) = rnd (a * b)"
| "fmul NaN _ = NaN"
| "fmul _ NaN = NaN"
| "fmul (Fin a) PInf = (if a = 0 then NaN else finf (0 < a))"
| "fmul (Fin a) NInf = (if a = 0 then NaN else finf (a < 0))"
| "fmul PInf (Fin a) = (if a = 0 then NaN else finf (0 < a))"
| "fmul NInf (Fin a) = (if a = 0 then NaN else finf (a < 0))"
| "fmul PInf PInf = PInf"
| "fmul NInf NInf = PInf"
| "fmul PInf NInf = NInf"
| "fmul NInf PInf = NInf"

text \<open>Division of floats raises \<open>ZeroDivisionError\<close> on a zero divisor.\<close>

fun fquot :: "pyfloat \<Rightarrow> pyfloat \<Rightarrow> pyfloat" where
  "fquot NaN _ = NaN"
| "fquot _ NaN = NaN"
| "fquot (Fin a) (Fin b) = rnd (a / b)"
| "fquot (Fin a) _ = Fin 0"
| "fquot PInf (Fin b) = finf (0 < b)"
| "fquot NInf (Fin b) = finf (b < 0)"
| "fquot _ _ = NaN"

definition fdiv :: "pyfloat \<Rightarrow> pyfloat \<Rightarrow> pyfloat result" where
  "fdiv a b = (if b = Fin 0 then Inl ZeroDivisionError else Inr (fquot a b))"

text \<open>Python's binary \<open>max\<close> and \<open>min\<close>: the first argument unless the second compares better.\<close>

definition fmax :: "pyfloat \<Rightarrow> pyfloat \<Rightarrow> pyfloat" where
  "fmax a b = (if flt a b then b else a)"

definition fmin :: "pyfloat \<Rightarrow> pyfloat \<Rightarrow> pyfloat" where
  "fmin a b = (if flt b a then b else a)"

text \<open>\<open>sum\<close> over floats, added from left to right starting at zero.\<close>

definition fsum :: "pyfloat list \<Rightarrow> pyfloat" where
  "fsum xs = foldl fadd (Fin 0) xs"

text \<open>A decimal literal of the source, and the conversion of an integer.\<close>

definition flit :: "rat \<Rightarrow> pyfloat" where
  "flit q = rnd q"

definition float_of_int :: "int \<Rightarrow> pyfloat result" where
  "float_of_int n = (case rnd (of_int n) of Fin v \<Rightarrow> Inr (Fin v) | _ \<Rightarrow> Inl OverflowError)"

text \<open>\<open>round(x)\<close> of a float: half to even; no integer exists for an infinity or a NaN.\<close>

fun fround :: "pyfloat \<Rightarrow> int result" where
  "fround (Fin a) = Inr (rhe a)"
| "fround NaN = Inl ValueError"
| "fround _ = Inl OverflowError"

text \<open>\<open>int(x)\<close> of a float truncates towards zero.\<close>

fun ftrunc :: "pyfloat \<Rightarrow> int result" where
  "ftrunc (Fin a) = Inr (if 0 \<le> a then \<lfloor>a\<rfloor> else \<lceil>a\<rceil>)"
| "ftrunc NaN = Inl ValueError"
| "ftrunc _ = Inl OverflowError"

abbreviation "nonneg_float x \<equiv> fle (Fin 0) x"

section \<open>Order\<close>

lemma fle_refl [simp]: "fle x x \<longleftrightarrow> x \<noteq> NaN"
  by (cases x) (auto simp: fle_def)

lemma fle_Fin [simp, float_simps]: "fle (Fin a) (Fin b) \<longleftrightarrow> a \<le> b"
  by (auto simp: fle_def)

lemma fle_simps [simp]:
  "fle NaN x = False" "fle x NaN = False"
  "fle x PInf \<longleftrightarrow> x \<noteq> NaN" "fle NInf x \<longleftrightarrow> x \<noteq> NaN"
  "fle PInf (Fin a) = False" "fle PInf NInf = False" "fle (Fin a) NInf = False"
  by (cases x; simp add: fle_def)+

lemma flt_simps [simp]:
  "flt x NaN = False" "flt x NInf = False" "flt x x = False" "flt PInf x = False"
  "flt NInf (Fin a) = True" "flt (Fin a) PInf = True" "flt NInf PInf = True"
  by (cases x; simp)+

lemma fle_trans: "fle x y \<Longrightarrow> fle y z \<Longrightarrow> fle x z"
  by (cases x; cases y; cases z) auto

lemma fle_antisym: "fle x y \<Longrightarrow> fle y x \<Longrightarrow> x = y"
  by (cases x; cases y) auto

lemma not_fle: "x \<noteq> NaN \<Longrightarrow> y \<noteq> NaN \<Longrightarrow> \<not> fle x y \<longleftrightarrow> flt y x"
  by (simp add: fle_def)

lemma not_flt: "x \<noteq> NaN \<Longrightarrow> y \<noteq> NaN \<Longrightarrow> \<not> flt x y \<longleftrightarrow> fle y x"
  by (simp add: fle_def)

lemma flt_imp_fle: "flt x y \<Longrightarrow> fle x y"
  by (cases x; cases y) auto

lemma fle_flt_trans: "fle x y \<Longrightarrow> flt y z \<Longrightarrow> flt x z"
  by (cases x; cases y; cases z) auto

lemma flt_fle_trans: "flt x y \<Longrightarrow> fle y z \<Longrightarrow> flt x z"
  by (cases x; cases y; cases z) auto

lemma fle_total: "x \<noteq> NaN \<Longrightarrow> y \<noteq> NaN \<Longrightarrow> fle x y \<or> fle y x"
  by (cases x; cases y) auto

lemma fle_notNaN: "fle x y \<Longrightarrow> x \<noteq> NaN \<and> y \<noteq> NaN"
  by (auto simp: fle_def)

lemma isfinite_iff: "isfinite x \<longleftrightarrow> (\<exists>v. x = Fin v)"
  by (cases x) auto

lemma isfinite_notNaN: "isfinite x \<Longrightarrow> x \<noteq> NaN"
  by auto

lemma fmin_le1: "a \<noteq> NaN \<Longrightarrow> fle (fmin a b) a"
  by (cases a; cases b) (auto simp: fmin_def)

lemma fmin_le2: "a \<noteq> NaN \<Longrightarrow> b \<noteq> NaN \<Longrightarrow> fle (fmin a b) b"
  by (cases a; cases b) (auto simp: fmin_def)

lemma fmin_greatest: "fle c a \<Longrightarrow> fle c b \<Longrightarrow> fle c (fmin a b)"
  by (simp add: fmin_def)

lemma fmax_ge1: "a \<noteq> NaN \<Longrightarrow> fle a (fmax a b)"
  by (cases a; cases b) (auto simp: fmax_def)

lemma fmax_ge2: "a \<noteq> NaN \<Longrightarrow> b \<noteq> NaN \<Longrightarrow> fle b (fmax a b)"
  by (cases a; cases b) (auto simp: fmax_def)

lemma fmax_least: "fle a c \<Longrightarrow> fle b c \<Longrightarrow> fle (fmax a b) c"
  by (simp add: fmax_def)

lemma fmin_in: "fmin a b = a \<or> fmin a b = b"
  by (simp add: fmin_def)

lemma fmax_in: "fmax a b = a \<or> fmax a b = b"
  by (simp add: fmax_def)

lemma fmin_NaN [simp]: "fmin a NaN = a" "fmin NaN b = NaN"
  by (simp_all add: fmin_def)

lemma fmax_NaN [simp]: "fmax a NaN = a" "fmax NaN b = NaN"
  by (simp_all add: fmax_def)

lemma fmax_notNaN: "a \<noteq> NaN \<Longrightarrow> fmax a b \<noteq> NaN"
  by (cases b) (auto simp: fmax_def)

lemma fmin_notNaN: "a \<noteq> NaN \<Longrightarrow> fmin a b \<noteq> NaN"
  by (cases b) (auto simp: fmin_def)

section \<open>Rounded results\<close>

lemma pow2_1024_rep: "is_rep (pow2 1024)"
  unfolding is_rep_def by (rule exI [of _ 1], rule exI [of _ 1024]) simp

lemma rnd_notNaN [simp]: "rnd q \<noteq> NaN"
  by (simp add: rnd_def Let_def)

lemma rnd_mono: "p \<le> q \<Longrightarrow> fle (rnd p) (rnd q)"
  using rndv_mono [of p q] pow2_pos [of 1024] by (auto simp: rnd_def Let_def)

lemma rnd_Fin: "is_double (Fin v) \<Longrightarrow> rnd v = Fin v"
  by (auto simp: rnd_def rndv_rep Let_def is_double_Fin)

lemma is_double_rnd [simp, intro]: "is_double (rnd q)"
  by (auto simp: rnd_def Let_def is_rep_rndv is_double_Fin)

lemma rnd_ge: "fle x (Fin q) \<Longrightarrow> is_double x \<Longrightarrow> fle x (rnd q)"
  by (cases x) (auto simp: rnd_Fin dest: rnd_mono)

lemma rnd_le: "fle (Fin q) x \<Longrightarrow> is_double x \<Longrightarrow> fle (rnd q) x"
  by (cases x) (auto simp: rnd_Fin dest: rnd_mono)

lemma small_int_double: "\<bar>n\<bar> \<le> 2 ^ 53 \<Longrightarrow> is_double (Fin (of_int n))"
proof -
  assume n: "\<bar>n\<bar> \<le> 2 ^ 53"
  then have "(of_int \<bar>n\<bar> :: rat) \<le> of_int (2 ^ 53)" by (simp only: of_int_le_iff)
  also have "\<dots> = pow2 53" using pow2_nat [of 53] by simp
  also have "\<dots> < pow2 1024" by (intro pow2_strict_mono) simp
  finally show ?thesis using is_rep_int [OF n] by (simp add: is_double_Fin)
qed

lemma is_double_0 [simp, intro]: "is_double (Fin 0)"
  using small_int_double [of 0] by simp

lemma is_double_1 [simp, intro]: "is_double (Fin 1)"
  using small_int_double [of 1] by simp

lemma is_double_numeral [intro]: "(numeral n :: int) \<le> 2 ^ 53 \<Longrightarrow> is_double (Fin (numeral n))"
  using small_int_double [of "numeral n"] by simp

lemma rnd_0 [simp]: "rnd 0 = Fin 0"
  by (simp add: rnd_Fin)

lemma rnd_1 [simp]: "rnd 1 = Fin 1"
  by (simp add: rnd_Fin)

lemma rnd_nonneg: "0 \<le> q \<Longrightarrow> nonneg_float (rnd q)"
  using rnd_mono [of 0 q] by simp

lemma is_double_finf [simp]: "is_double (finf b)"
  by (simp add: finf_def)

lemma is_double_fadd [simp, intro]: "is_double x \<Longrightarrow> is_double y \<Longrightarrow> is_double (fadd x y)"
  by (cases x; cases y) auto

lemma is_double_fneg [simp, intro]: "is_double x \<Longrightarrow> is_double (fneg x)"
  by (cases x) (auto simp: is_rep_minus is_double_Fin)

lemma is_double_fsub [simp, intro]: "is_double x \<Longrightarrow> is_double y \<Longrightarrow> is_double (fsub x y)"
  by (simp add: fsub_def)

lemma is_double_fmul [simp, intro]: "is_double (fmul x y)"
  by (cases x; cases y) auto

lemma is_double_fmin [simp, intro]: "is_double x \<Longrightarrow> is_double y \<Longrightarrow> is_double (fmin x y)"
  by (simp add: fmin_def)

lemma is_double_fmax [simp, intro]: "is_double x \<Longrightarrow> is_double y \<Longrightarrow> is_double (fmax x y)"
  by (simp add: fmax_def)

lemma is_double_flit [simp, intro]: "is_double (flit q)"
  by (simp add: flit_def)

section \<open>Arithmetic facts\<close>

lemma fadd_commute: "fadd x y = fadd y x"
  by (cases x; cases y) (auto simp: add.commute)

lemma fmul_commute: "fmul x y = fmul y x"
  by (cases x; cases y) (auto simp: mult.commute)

lemma fadd_0 [simp]: "is_double x \<Longrightarrow> fadd x (Fin 0) = x" "is_double x \<Longrightarrow> fadd (Fin 0) x = x"
  by (cases x; simp add: rnd_Fin)+

lemma fmul_1 [simp]: "is_double x \<Longrightarrow> fmul x (Fin 1) = x" "is_double x \<Longrightarrow> fmul (Fin 1) x = x"
  by (cases x; simp add: rnd_Fin finf_def)+

lemma fadd_nonneg: "nonneg_float x \<Longrightarrow> nonneg_float y \<Longrightarrow> nonneg_float (fadd x y)"
  by (cases x; cases y) (auto intro: rnd_nonneg)

lemma fadd_ge1: "is_double x \<Longrightarrow> x \<noteq> NaN \<Longrightarrow> x \<noteq> NInf \<Longrightarrow> nonneg_float y \<Longrightarrow> fle x (fadd x y)"
  by (cases x; cases y) (auto intro!: rnd_ge)

lemma fadd_mono: "fle x x' \<Longrightarrow> fadd x y \<noteq> NaN \<Longrightarrow> fadd x' y \<noteq> NaN \<Longrightarrow> fle (fadd x y) (fadd x' y)"
  by (cases x; cases x'; cases y) (auto intro!: rnd_mono)

lemma fmul_nonneg: "nonneg_float x \<Longrightarrow> nonneg_float y \<Longrightarrow> fmul x y \<noteq> NaN \<Longrightarrow> nonneg_float (fmul x y)"
  by (cases x; cases y) (auto intro!: rnd_nonneg simp: finf_def)

lemma fmul_nonneg_Fin: "0 \<le> a \<Longrightarrow> 0 \<le> b \<Longrightarrow> nonneg_float (fmul (Fin a) (Fin b))"
  by (auto intro!: rnd_nonneg)

lemma fmul_le_self:
  "is_double (Fin a) \<Longrightarrow> 0 \<le> a \<Longrightarrow> s \<le> 1 \<Longrightarrow> fle (fmul (Fin a) (Fin s)) (Fin a)"
  by (auto intro!: rnd_le simp: mult_left_le)

lemma fmul_le_self_neg:
  "is_double (Fin a) \<Longrightarrow> 0 \<le> a \<Longrightarrow> fle s (Fin 1) \<Longrightarrow> s \<noteq> NInf \<Longrightarrow> fle (fmul (Fin a) s) (Fin a)"
  by (cases s) (auto intro!: rnd_le simp: mult_left_le)

lemma rnd_finite_bound: "\<bar>q\<bar> \<le> b \<Longrightarrow> is_double (Fin b) \<Longrightarrow> isfinite (rnd q)"
proof -
  assume "\<bar>q\<bar> \<le> b" and b: "is_double (Fin b)"
  then have "fle (rnd q) (Fin b)" "fle (Fin (- b)) (rnd q)"
    using is_double_fneg [OF b] by (auto intro: rnd_le rnd_ge)
  then show ?thesis by (cases "rnd q") auto
qed

lemma fsum_Nil [simp]: "fsum [] = Fin 0"
  by (simp add: fsum_def)

lemma fsum_snoc [simp]: "fsum (xs @ [x]) = fadd (fsum xs) x"
  by (simp add: fsum_def)

lemma is_double_fsum: "(\<And>x. x \<in> set xs \<Longrightarrow> is_double x) \<Longrightarrow> is_double (fsum xs)"
  by (induction xs rule: rev_induct) auto

lemma fsum_nonneg: "(\<And>x. x \<in> set xs \<Longrightarrow> nonneg_float x) \<Longrightarrow> nonneg_float (fsum xs)"
  by (induction xs rule: rev_induct) (auto intro: fadd_nonneg)

lemma fsum_member_le:
  assumes "\<And>x. x \<in> set xs \<Longrightarrow> nonneg_float x" "\<And>x. x \<in> set xs \<Longrightarrow> is_double x" "y \<in> set xs"
  shows "fle y (fsum xs)"
  using assms
proof (induction xs rule: rev_induct)
  case (snoc x xs)
  then have nn: "nonneg_float (fsum xs)" "is_double (fsum xs)" "nonneg_float x" "is_double x"
    by (auto intro: fsum_nonneg is_double_fsum)
  then have ge: "fle (fsum xs) (fsum (xs @ [x]))" "fle x (fsum (xs @ [x]))"
    by (auto intro!: fadd_ge1 simp: fadd_commute [of "fsum xs"])
       (use fadd_commute fadd_ge1 in \<open>fastforce\<close>)+
  from snoc.prems(3) show ?case
  proof (cases "y = x")
    case False
    with snoc have "fle y (fsum xs)" by auto
    then show ?thesis using ge(1) by (rule fle_trans)
  qed (use ge in simp)
qed simp

text \<open>Evaluation of small integers, for closed instances.\<close>

lemma rnd_numeral [simp]: "(numeral n :: int) \<le> 2 ^ 53 \<Longrightarrow> rnd (numeral n) = Fin (numeral n)"
  by (auto intro!: rnd_Fin)

lemma rnd_neg_numeral [simp]: "(numeral n :: int) \<le> 2 ^ 53 \<Longrightarrow> rnd (- numeral n) = Fin (- numeral n)"
  using is_double_fneg [OF is_double_numeral, of n] by (auto intro!: rnd_Fin)

lemma rnd_dyadic:
  assumes "q = of_int m * pow2 e" "\<bar>m\<bar> \<le> 2 ^ 53" "- 1074 \<le> e" "e \<le> 900"
  shows "rnd q = Fin q"
proof (rule rnd_Fin)
  have "(of_int \<bar>m\<bar> :: rat) \<le> of_int (2 ^ 53)" using assms(2) by (simp only: of_int_le_iff)
  then have "\<bar>q\<bar> \<le> 2 ^ 53 * pow2 e"
    by (simp add: assms(1) abs_mult mult_right_mono)
  also have "\<dots> = pow2 (53 + e)" using pow2_nat [of 53] by (simp add: pow2_add)
  also have "\<dots> < pow2 1024" using assms(4) by (intro pow2_strict_mono) simp
  finally show "is_double (Fin q)" using assms(1-3) by (auto simp: is_double_Fin is_rep_def)
qed

text \<open>The value of a rounding, given the neighbouring grid of doubles it falls on.\<close>

lemma rnd_eqI:
  assumes q: "0 < q" and e: "pow2 (e + 52) \<le> q" "q < pow2 (e + 53)" "- 1074 \<le> e" "e \<le> 900"
    and m: "rhe (q / pow2 e) = m"
  shows "rnd q = Fin (of_int m * pow2 e)"
proof -
  have "expo q = e + 52" using e by (intro expo_unique) (simp_all add: add.assoc)
  then have u: "ulp_exp q = e" using q e by (simp add: ulp_exp_def)
  then have v: "rndv q = of_int m * pow2 e" using q m by (simp add: rndv_def)
  have "rndv q \<le> pow2 (e + 53)"
  proof (rule rndv_le_rep)
    show "is_rep (pow2 (e + 53))"
      unfolding is_rep_def using e by (intro exI [of _ 1] exI [of _ "e + 53"]) simp
  qed (use e in simp)
  also have "\<dots> < pow2 1024" using e by (intro pow2_strict_mono) simp
  finally show ?thesis
    using v rndv_nonneg [of q] q pow2_pos [of 1024] by (auto simp: rnd_def Let_def)
qed

lemma floor_rat_numeral [float_simps]:
  "\<lfloor>(numeral a :: rat) / numeral b\<rfloor> = numeral a div numeral b"
  "\<lfloor>(1 :: rat) / numeral b\<rfloor> = 1 div numeral b"
  using floor_divide_of_int_eq [of "numeral a" "numeral b", where 'a = rat]
    floor_divide_of_int_eq [of 1 "numeral b", where 'a = rat]
  by simp_all

end
