(* ===== verification/Py_Value.thy ===== *)
theory Py_Value
  imports Py_Float
begin

text \<open>
  Values whose type the source does not fix: fields of \<open>PolicyConfig\<close> filled from a request
  body, \<open>policy_overrides\<close> of a tenant, event metadata. They carry their run-time type, and
  the operations the code applies to them (comparison with a number, \<open>math.isfinite\<close>,
  \<open>float\<close>, \<open>int\<close>, truth value, \<open>isinstance\<close>) raise as Python does. Strings are
  ASCII.
\<close>

datatype pyval =
    VNone
  | VBool bool
  | VInt int
  | VFloat pyfloat
  | VStr string
  | VList "pyval list"
  | VDict "(string \<times> pyval) list"

section \<open>Types and numbers\<close>

text \<open>\<open>bool\<close> is a subclass of \<open>int\<close>, so \<open>isinstance(True, int)\<close> holds.\<close>

fun is_bool :: "pyval \<Rightarrow> bool" where
  "is_bool (VBool _) = True"
| "is_bool _ = False"

fun is_int :: "pyval \<Rightarrow> bool" where
  "is_int (VInt _) = True"
| "is_int (VBool _) = True"
| "is_int _ = False"

fun is_float :: "pyval \<Rightarrow> bool" where
  "is_float (VFloat _) = True"
| "is_float _ = False"

fun is_str :: "pyval \<Rightarrow> bool" where
  "is_str (VStr _) = True"
| "is_str _ = False"

text \<open>
  The exact numeric value: Python compares an \<open>int\<close> with a \<open>float\<close> exactly, without
  converting the integer.
\<close>

fun exact :: "pyval \<Rightarrow> pyfloat option" where
  "exact (VBool b) = Some (Fin (if b then 1 else 0))"
| "exact (VInt n) = Some (Fin (of_int n))"
| "exact (VFloat x) = Some x"
| "exact _ = None"

definition val_lt :: "pyval \<Rightarrow> pyfloat \<Rightarrow> bool result" where
  \<comment> \<open>\<open>v < x\<close> for a number \<open>x\<close>\<close>
  "val_lt v x = (case exact v of None \<Rightarrow> Inl TypeError | Some y \<Rightarrow> Inr (flt y x))"

definition val_gt :: "pyval \<Rightarrow> pyfloat \<Rightarrow> bool result" where
  \<comment> \<open>\<open>v > x\<close> for a number \<open>x\<close>\<close>
  "val_gt v x = (case exact v of None \<Rightarrow> Inl TypeError | Some y \<Rightarrow> Inr (flt x y))"

fun val_isfinite :: "pyval \<Rightarrow> bool result" where
  \<comment> \<open>\<open>math.isfinite(v)\<close> converts an integer to a float first\<close>
  "val_isfinite (VFloat x) = Inr (isfinite x)"
| "val_isfinite (VInt n) = rbind (float_of_int n) (\<lambda>x. Inr (isfinite x))"
| "val_isfinite (VBool b) = Inr True"
| "val_isfinite _ = Inl TypeError"

fun truthy :: "pyval \<Rightarrow> bool" where
  "truthy VNone = False"
| "truthy (VBool b) = b"
| "truthy (VInt n) = (n \<noteq> 0)"
| "truthy (VFloat x) = (x \<noteq> Fin 0)"
| "truthy (VStr s) = (s \<noteq> [])"
| "truthy (VList xs) = (xs \<noteq> [])"
| "truthy (VDict d) = (d \<noteq> [])"

section \<open>Strings\<close>

abbreviation code :: "char \<Rightarrow> nat" where
  "code c \<equiv> of_char c"

definition is_digit :: "char \<Rightarrow> bool" where
  "is_digit c \<longleftrightarrow> 48 \<le> code c \<and> code c \<le> 57"

definition is_upper :: "char \<Rightarrow> bool" where
  "is_upper c \<longleftrightarrow> 65 \<le> code c \<and> code c \<le> 90"

definition is_lower :: "char \<Rightarrow> bool" where
  "is_lower c \<longleftrightarrow> 97 \<le> code c \<and> code c \<le> 122"

definition is_space :: "char \<Rightarrow> bool" where
  "is_space c \<longleftrightarrow> (9 \<le> code c \<and> code c \<le> 13) \<or> (28 \<le> code c \<and> code c \<le> 32)"

text \<open>\<open>str.casefold\<close>, which on ASCII is lower-casing.\<close>

definition casefold_char :: "char \<Rightarrow> char" where
  "casefold_char c = (if is_upper c then char_of (code c + 32) else c)"

definition casefold :: "string \<Rightarrow> string" where
  "casefold s = map casefold_char s"

lemma casefold_char_idem: "casefold_char (casefold_char c) = casefold_char c"
proof (cases "is_upper c")
  case True
  then have "code c + 32 < 256" by (simp add: is_upper_def)
  then have "code (char_of (code c + 32) :: char) = code c + 32" by simp
  then have "\<not> is_upper (char_of (code c + 32))" using True by (simp add: is_upper_def)
  with True show ?thesis by (simp add: casefold_char_def)
qed (simp add: casefold_char_def)

lemma casefold_idem [simp]: "casefold (casefold s) = casefold s"
  by (simp add: casefold_def casefold_char_idem)

lemma casefold_Nil_iff [simp]: "casefold s = [] \<longleftrightarrow> s = []"
  by (simp add: casefold_def)

definition strip :: "string \<Rightarrow> string" where
  "strip s = rev (dropWhile is_space (rev (dropWhile is_space s)))"

text \<open>
  The character class \<open>[a-zA-Z0-9_:@.\-]\<close> of the identifier patterns. Under
  \<open>re.match\<close> a pattern ending in \<open>$\<close> also matches before one final newline
  (\<open>match_dollar\<close>).
\<close>

definition safe_char :: "char \<Rightarrow> bool" where
  "safe_char c \<longleftrightarrow> is_upper c \<or> is_lower c \<or> is_digit c \<or> c \<in> set ''_:@.-''"

definition newline :: char where
  "newline = CHR 0x0A"

definition match_dollar :: "(string \<Rightarrow> bool) \<Rightarrow> string \<Rightarrow> bool" where
  "match_dollar P s \<longleftrightarrow> P s \<or> (s \<noteq> [] \<and> last s = newline \<and> P (butlast s))"

definition is_hex64 :: "string \<Rightarrow> bool" where
  "is_hex64 s \<longleftrightarrow> length s = 64 \<and> (\<forall>c \<in> set s. is_digit c \<or> (97 \<le> code c \<and> code c \<le> 102))"

text \<open>Decimal rendering of integers, as in f-strings and \<open>str\<close>.\<close>

definition show_digit :: "nat \<Rightarrow> char" where
  "show_digit d = char_of (48 + d)"

fun show_nat :: "nat \<Rightarrow> string" where
  "show_nat n = (if n < 10 then [show_digit n] else show_nat (n div 10) @ [show_digit (n mod 10)])"

declare show_nat.simps [simp del]

definition show_int :: "int \<Rightarrow> string" where
  "show_int n = (if n < 0 then CHR ''-'' # show_nat (nat (- n)) else show_nat (nat n))"

section \<open>Parsing numbers\<close>

text \<open>Digits with single underscores between them, as \<open>int\<close> and \<open>float\<close> accept.\<close>

fun take_digits :: "string \<Rightarrow> string \<times> string" where
  "take_digits [] = ([], [])"
| "take_digits [c] = (if is_digit c then ([c], []) else ([], [c]))"
| "take_digits (c # d # cs) =
     (if is_digit c then
        (case d # cs of
           u # e # es \<Rightarrow>
             if u = CHR ''_'' \<and> is_digit e
             then (let (ds, r) = take_digits (e # es) in (c # ds, r))
             else (let (ds, r) = take_digits (d # cs) in (c # ds, r))
         | _ \<Rightarrow> (let (ds, r) = take_digits (d # cs) in (c # ds, r)))
      else ([], c # d # cs))"

definition digits_val :: "string \<Rightarrow> nat" where
  "digits_val ds = foldl (\<lambda>n c. 10 * n + (code c - 48)) 0 ds"

definition take_sign :: "string \<Rightarrow> bool \<times> string" where
  "take_sign s = (case s of
     c # cs \<Rightarrow> if c = CHR ''-'' then (True, cs) else if c = CHR ''+'' then (False, cs) else (False, s)
   | [] \<Rightarrow> (False, s))"

definition parse_int :: "string \<Rightarrow> int result" where
  "parse_int s = (let (neg, t) = take_sign (strip s); (ds, r) = take_digits t in
     if ds \<noteq> [] \<and> r = []
     then Inr (if neg then - int (digits_val ds) else int (digits_val ds))
     else Inl ValueError)"

definition parse_exponent :: "string \<Rightarrow> int option" where
  \<comment> \<open>the rest of a float literal after its digits: empty, or \<open>e\<close> and a signed number\<close>
  "parse_exponent s = (case s of
     [] \<Rightarrow> Some 0
   | c # cs \<Rightarrow> if c = CHR ''e'' \<or> c = CHR ''E'' then
        (let (neg, t) = take_sign cs; (ds, r) = take_digits t in
         if ds \<noteq> [] \<and> r = [] then Some (if neg then - int (digits_val ds) else int (digits_val ds))
         else None)
      else None)"

definition parse_float :: "string \<Rightarrow> pyfloat result" where
  "parse_float s = (let (neg, t) = take_sign (strip s); lt = casefold t in
     if lt = ''inf'' \<or> lt = ''infinity'' then Inr (finf (\<not> neg))
     else if lt = ''nan'' then Inr NaN
     else (let (ds, r) = take_digits t;
               (fs, r') = (case r of c # cs \<Rightarrow> if c = CHR ''.'' then take_digits cs else ([], r)
                                   | [] \<Rightarrow> ([], [])) in
           if ds = [] \<and> fs = [] then Inl ValueError
           else (case parse_exponent r' of
                   None \<Rightarrow> Inl ValueError
                 | Some e \<Rightarrow>
                     (let q = of_nat (digits_val (ds @ fs)) * (10 powi (e - int (length fs))) in
                      Inr (rnd (if neg then - q else q))))))"

fun to_float :: "pyval \<Rightarrow> pyfloat result" where
  \<comment> \<open>\<open>float(v)\<close>\<close>
  "to_float (VFloat x) = Inr x"
| "to_float (VInt n) = float_of_int n"
| "to_float (VBool b) = Inr (Fin (if b then 1 else 0))"
| "to_float (VStr s) = parse_float s"
| "to_float _ = Inl TypeError"

fun to_int :: "pyval \<Rightarrow> int result" where
  \<comment> \<open>\<open>int(v)\<close>\<close>
  "to_int (VInt n) = Inr n"
| "to_int (VBool b) = Inr (if b then 1 else 0)"
| "to_int (VFloat x) = ftrunc x"
| "to_int (VStr s) = parse_int s"
| "to_int _ = Inl TypeError"

lemma exact_Some_iff: "(\<exists>x. exact v = Some x) \<longleftrightarrow> is_int v \<or> is_float v"
  by (cases v) auto

lemma val_lt_ok: "exact v = Some y \<Longrightarrow> val_lt v x = Inr (flt y x)"
  by (simp add: val_lt_def)

lemma val_gt_ok: "exact v = Some y \<Longrightarrow> val_gt v x = Inr (flt x y)"
  by (simp add: val_gt_def)

lemma val_isfinite_exact: "val_isfinite v = Inr b \<Longrightarrow> \<exists>x. exact v = Some x \<and> isfinite x = b"
  by (cases v) (auto simp: rbind_Inr_iff float_of_int_def split: pyfloat.splits)

end
