(* ===== verification/Policy_Types.thy ===== *)
theory Policy_Types
  imports Py_Value
begin

text \<open>
  The data of the control plane (\<open>veronica/types.py\<close>): step intents and outcomes, history
  views, analysis results, cost estimates, desired policies, the \<open>PolicyConfig\<close> contract with
  its conversion to the kernel's \<open>ExecutionConfig\<close>, and \<open>OrgPolicy\<close> with its two hooks,
  \<open>validate\<close> and \<open>clamp\<close>. Also the attributes of the veronica-core types the code
  builds or reads (\<open>SafetyEvent\<close>, \<open>NodeRecord\<close>, \<open>ContextSnapshot\<close>,
  \<open>ExecutionConfig\<close>).
\<close>

section \<open>Kernel data\<close>

record safety_event =
  se_event_type :: string
  se_decision :: string
  se_reason :: "string option"
  se_hook :: string
  se_request_id :: "string option"
  se_ts :: "pyfloat option"
  se_metadata :: "(string, pyval) pydict"

record node_record =
  nr_node_id :: string
  nr_kind :: string
  nr_status :: string
  nr_cost_usd :: pyfloat
  nr_buffer_metadata :: "(string, pyval) pydict option"

record context_snapshot =
  cs_chain_id :: string
  cs_request_id :: string
  cs_step_count :: int
  cs_cost_usd_accumulated :: pyfloat
  cs_retries_used :: int
  cs_aborted :: bool
  cs_abort_reason :: "string option"
  cs_elapsed_ms :: pyfloat
  cs_nodes :: "node_record list"
  cs_events :: "safety_event list"

record exec_config =
  ec_max_cost_usd :: pyval
  ec_max_steps :: pyval
  ec_max_retries_total :: int
  ec_timeout_ms :: pyval

section \<open>Pipeline data\<close>

text \<open>
  The three graded vocabularies of the analyzers. \<open>HistoryAnalyzer\<close> ranks them
  (\<open>_SEVERITY_RANK\<close>, \<open>_RECOMMENDATION_RANK\<close>); here the ranks are linear orders.
\<close>

datatype severity = Info | Warning | CriticalSev

datatype risk_level = Nominal | Elevated | CriticalRisk

datatype recommendation = Continue | Loosen | Tighten | Halt

fun severity_rank :: "severity \<Rightarrow> nat" where
  "severity_rank Info = 0"
| "severity_rank Warning = 1"
| "severity_rank CriticalSev = 2"

fun recommendation_rank :: "recommendation \<Rightarrow> nat" where
  "recommendation_rank Continue = 0"
| "recommendation_rank Loosen = 1"
| "recommendation_rank Tighten = 2"
| "recommendation_rank Halt = 3"

lemma severity_rank_inj: "severity_rank a = severity_rank b \<Longrightarrow> a = b"
  by (cases a; cases b) auto

lemma recommendation_rank_inj: "recommendation_rank a = recommendation_rank b \<Longrightarrow> a = b"
  by (cases a; cases b) auto

instantiation severity :: linorder
begin
definition less_eq_severity :: "severity \<Rightarrow> severity \<Rightarrow> bool" where
  "a \<le> b \<longleftrightarrow> severity_rank a \<le> severity_rank b"
definition less_severity :: "severity \<Rightarrow> severity \<Rightarrow> bool" where
  "a < b \<longleftrightarrow> severity_rank a < severity_rank b"
instance
  by standard (auto simp: less_eq_severity_def less_severity_def intro: severity_rank_inj)
end

instantiation recommendation :: linorder
begin
definition less_eq_recommendation :: "recommendation \<Rightarrow> recommendation \<Rightarrow> bool" where
  "a \<le> b \<longleftrightarrow> recommendation_rank a \<le> recommendation_rank b"
definition less_recommendation :: "recommendation \<Rightarrow> recommendation \<Rightarrow> bool" where
  "a < b \<longleftrightarrow> recommendation_rank a < recommendation_rank b"
instance
  by standard
    (auto simp: less_eq_recommendation_def less_recommendation_def intro: recommendation_rank_inj)
end

record step_intent =
  si_step_id :: string
  si_request_id :: string
  si_chain_id :: string
  si_kind :: string
  si_model :: "string option"
  si_tool_name :: "string option"
  si_timeout_ms :: "int option"
  si_metadata :: "(string, pyval) pydict"

record step_outcome =
  so_step_id :: string
  so_request_id :: string
  so_chain_id :: string
  so_kind :: string
  so_status :: string
  so_cost_usd :: pyfloat
  so_tokens_in :: int
  so_tokens_out :: int
  so_elapsed_ms :: pyfloat
  so_model :: "string option"
  so_events :: "safety_event list"
  so_timestamp_ms :: int

record history_view =
  hv_chain_id :: string
  hv_last_n :: "step_outcome list"
  hv_rolling_cost_usd :: pyfloat
  hv_failure_streak :: nat
  hv_depth :: nat
  hv_loop_score :: pyfloat
  hv_success_streak :: nat
  hv_cost_per_step_ema :: pyfloat
  hv_cost_per_step_ema_by_model :: "(string, pyfloat) pydict"
  hv_latency_ema_ms :: "(string, pyfloat) pydict"
  hv_budget_headroom_ratio :: pyfloat

record signal =
  sg_kind :: string
  sg_severity :: severity
  sg_detail :: string

record analysis_result =
  ar_signals :: "signal list"
  ar_risk_level :: risk_level
  ar_recommendation :: recommendation

record cost_estimate =
  ce_estimated_usd :: pyfloat
  ce_confidence :: pyfloat
  ce_model_used :: string
  ce_basis :: string

record budget_state =
  bs_request_remaining_usd :: pyfloat
  bs_chain_remaining_usd :: pyfloat
  bs_window_remaining_steps :: int

record desired_policy =
  dp_chain_id :: string
  dp_ceiling_usd :: pyfloat
  dp_ceiling_steps :: int
  dp_ceiling_tokens_out :: int
  dp_on_exceed :: string
  dp_fallback_model :: "string option"
  dp_timeout_ms :: "int option"
  dp_priority :: int

record decision_meta =
  dm_risk_level :: risk_level
  dm_recommendation :: recommendation
  dm_degraded :: bool
  dm_stage_time_ms :: "(string, pyfloat) pydict"
  dm_org_denial :: "string option"
  dm_policy_hash :: string
  dm_audit_id :: string

section \<open>PolicyConfig\<close>

record policy_config =
  pc_chain_id :: string
  pc_ceiling_usd :: pyval
  pc_on_exceed :: string
  pc_issued_at :: pyval
  pc_ceiling_tokens_out :: pyval
  pc_ceiling_steps :: pyval
  pc_fallback_model :: pyval
  pc_timeout_ms :: pyval
  pc_rate_window_seconds :: pyval
  pc_rate_ceiling_calls :: pyval
  pc_priority :: pyval
  pc_deadline_ts :: pyval
  pc_expires_at :: pyval
  pc_planner_version :: pyval

text \<open>The dataclass constructor with only the required fields given.\<close>

definition new_policy_config :: "string \<Rightarrow> pyval \<Rightarrow> string \<Rightarrow> pyval \<Rightarrow> policy_config" where
  "new_policy_config chain ceil on_exceed issued =
     \<lparr>pc_chain_id = chain, pc_ceiling_usd = ceil, pc_on_exceed = on_exceed,
      pc_issued_at = issued, pc_ceiling_tokens_out = VNone, pc_ceiling_steps = VNone,
      pc_fallback_model = VNone, pc_timeout_ms = VNone, pc_rate_window_seconds = VNone,
      pc_rate_ceiling_calls = VNone, pc_priority = VInt 50, pc_deadline_ts = VNone,
      pc_expires_at = VNone, pc_planner_version = VNone\<rparr>"

definition DEFAULT_STEPS :: int where "DEFAULT_STEPS = 100"
definition DEFAULT_RETRIES :: int where "DEFAULT_RETRIES = 10"

definition or_default :: "pyval \<Rightarrow> pyval \<Rightarrow> pyval" where
  \<comment> \<open>\<open>v if v is not None else d\<close>\<close>
  "or_default v d = (if v = VNone then d else v)"

definition to_exec_config :: "policy_config \<Rightarrow> exec_config result" where
  "to_exec_config p =
     rbind (val_isfinite (pc_ceiling_usd p)) (\<lambda>fin.
     rbind (if fin then val_lt (pc_ceiling_usd p) (Fin 0) else Inr True) (\<lambda>bad.
     if bad then Inl ValueError
     else Inr \<lparr>ec_max_cost_usd = pc_ceiling_usd p,
               ec_max_steps = or_default (pc_ceiling_steps p) (VInt DEFAULT_STEPS),
               ec_max_retries_total = DEFAULT_RETRIES,
               ec_timeout_ms = or_default (pc_timeout_ms p) (VInt 0)\<rparr>))"

text \<open>A ceiling the kernel accepts: a finite non-negative number.\<close>

definition good_ceiling :: "pyval \<Rightarrow> bool" where
  "good_ceiling v \<longleftrightarrow> (\<exists>q. exact v = Some (Fin q) \<and> 0 \<le> q) \<and> val_isfinite v = Inr True"

lemma good_ceiling_float [simp]: "good_ceiling (VFloat x) \<longleftrightarrow> isfinite x \<and> nonneg_float x"
  by (cases x) (auto simp: good_ceiling_def)

lemma to_exec_config_ok_iff: "is_ok (to_exec_config p) \<longleftrightarrow> good_ceiling (pc_ceiling_usd p)"
proof (cases "val_isfinite (pc_ceiling_usd p)")
  case (Inr b)
  then obtain x where x: "exact (pc_ceiling_usd p) = Some x" "isfinite x = b"
    using val_isfinite_exact by blast
  then show ?thesis using Inr
    by (cases x) (auto simp: to_exec_config_def good_ceiling_def val_lt_def)
qed (simp add: to_exec_config_def good_ceiling_def)

lemma to_exec_config_cost:
  "to_exec_config p = Inr c \<Longrightarrow> ec_max_cost_usd c = pc_ceiling_usd p"
  by (auto simp: to_exec_config_def rbind_Inr_iff split: if_splits)

record step_handle =
  sh_intent :: step_intent
  sh_policy :: policy_config
  sh_desired :: desired_policy
  sh_cost :: cost_estimate
  sh_decision_meta :: decision_meta

section \<open>Organization policy\<close>

record org_policy =
  op_max_ceiling_usd :: "pyfloat option"
  op_max_timeout_ms :: "int option"
  op_blocked_models :: "string list"
  op_blocked_tools :: "string list"
  op_max_priority :: "int option"
  op_blocked_models_cf :: "string set"
  op_blocked_tools_cf :: "string set"

text \<open>The constructor with \<open>__post_init__\<close>: the case-folded sets are derived.\<close>

definition new_org_policy ::
  "pyfloat option \<Rightarrow> int option \<Rightarrow> string list \<Rightarrow> string list \<Rightarrow> int option \<Rightarrow> org_policy" where
  "new_org_policy max_c max_t models tools max_p =
     \<lparr>op_max_ceiling_usd = max_c, op_max_timeout_ms = max_t, op_blocked_models = models,
      op_blocked_tools = tools, op_max_priority = max_p,
      op_blocked_models_cf = casefold ` set models, op_blocked_tools_cf = casefold ` set tools\<rparr>"

definition named_in :: "string option \<Rightarrow> string set \<Rightarrow> bool" where
  \<comment> \<open>\<open>name and name.casefold() in blocked\<close>\<close>
  "named_in name blocked \<longleftrightarrow> (case name of None \<Rightarrow> False | Some s \<Rightarrow> s \<noteq> [] \<and> casefold s \<in> blocked)"

definition model_denial :: "string \<Rightarrow> string" where
  "model_denial m = ''model '' @ [CHR 0x27] @ m @ [CHR 0x27] @ '' is blocked by org policy''"

definition tool_denial :: "string \<Rightarrow> string" where
  "tool_denial t = ''tool '' @ [CHR 0x27] @ t @ [CHR 0x27] @ '' is blocked by org policy''"

definition org_validate :: "org_policy \<Rightarrow> step_intent \<Rightarrow> string option" where
  "org_validate org i =
     (if named_in (si_model i) (op_blocked_models_cf org)
      then Some (model_denial (the (si_model i)))
      else if named_in (si_tool_name i) (op_blocked_tools_cf org)
      then Some (tool_denial (the (si_tool_name i)))
      else None)"

definition clamp_ceiling :: "org_policy \<Rightarrow> pyfloat \<Rightarrow> pyfloat" where
  "clamp_ceiling org c = (case op_max_ceiling_usd org of
     None \<Rightarrow> c
   | Some m \<Rightarrow> if \<not> isfinite c \<or> flt m c then m else c)"

definition clamp_timeout :: "org_policy \<Rightarrow> int option \<Rightarrow> int option result" where
  "clamp_timeout org t = (case op_max_timeout_ms org of
     None \<Rightarrow> Inr t
   | Some m \<Rightarrow> (case t of None \<Rightarrow> Inl TypeError | Some n \<Rightarrow> Inr (if m < n then Some m else Some n)))"

definition clamp_priority :: "org_policy \<Rightarrow> int \<Rightarrow> int" where
  "clamp_priority org p = (case op_max_priority org of
     None \<Rightarrow> p | Some m \<Rightarrow> if m < p then m else p)"

definition clamp_fallback :: "org_policy \<Rightarrow> string option \<Rightarrow> string option" where
  "clamp_fallback org f = (if named_in f (op_blocked_models_cf org) then None else f)"

definition org_clamp :: "org_policy \<Rightarrow> desired_policy \<Rightarrow> desired_policy result" where
  "org_clamp org d =
     rbind (clamp_timeout org (dp_timeout_ms d)) (\<lambda>t.
     Inr (d\<lparr>dp_ceiling_usd := clamp_ceiling org (dp_ceiling_usd d),
            dp_timeout_ms := t,
            dp_priority := clamp_priority org (dp_priority d),
            dp_fallback_model := clamp_fallback org (dp_fallback_model d)\<rparr>))"

text \<open>What \<open>clamp\<close> promises: the policy is within every limit that is set.\<close>

definition within_org :: "org_policy \<Rightarrow> desired_policy \<Rightarrow> bool" where
  "within_org org d \<longleftrightarrow>
     (\<forall>m. op_max_ceiling_usd org = Some m \<longrightarrow> isfinite m \<longrightarrow>
        isfinite (dp_ceiling_usd d) \<and> fle (dp_ceiling_usd d) m) \<and>
     (\<forall>m. op_max_timeout_ms org = Some m \<longrightarrow> (\<exists>t. dp_timeout_ms d = Some t \<and> t \<le> m)) \<and>
     (\<forall>m. op_max_priority org = Some m \<longrightarrow> dp_priority d \<le> m) \<and>
     \<not> named_in (dp_fallback_model d) (op_blocked_models_cf org)"

lemma clamp_ceiling_le:
  "op_max_ceiling_usd org = Some m \<Longrightarrow> isfinite m \<Longrightarrow>
   isfinite (clamp_ceiling org c) \<and> fle (clamp_ceiling org c) m"
  by (cases c; cases m) (auto simp: clamp_ceiling_def)

lemma clamp_ceiling_idem: "clamp_ceiling org (clamp_ceiling org c) = clamp_ceiling org c"
  by (cases c) (auto simp: clamp_ceiling_def split: option.splits)

lemma clamp_ceiling_nonneg:
  "nonneg_float c \<Longrightarrow> (\<And>m. op_max_ceiling_usd org = Some m \<Longrightarrow> nonneg_float m) \<Longrightarrow>
   nonneg_float (clamp_ceiling org c)"
  by (auto simp: clamp_ceiling_def split: option.splits)

lemma clamp_fallback_ok [simp]: "\<not> named_in (clamp_fallback org f) (op_blocked_models_cf org)"
  by (auto simp: clamp_fallback_def named_in_def)

lemma clamp_fallback_idem: "clamp_fallback org (clamp_fallback org f) = clamp_fallback org f"
  by (auto simp: clamp_fallback_def)

lemma clamp_timeout_idem: "clamp_timeout org t = Inr t' \<Longrightarrow> clamp_timeout org t' = Inr t'"
  by (auto simp: clamp_timeout_def split: option.splits if_splits)

lemma clamp_timeout_le:
  "clamp_timeout org t = Inr t' \<Longrightarrow> op_max_timeout_ms org = Some m \<Longrightarrow> \<exists>n. t' = Some n \<and> n \<le> m"
  by (cases t; simp add: clamp_timeout_def split: if_splits; force)

lemma clamp_priority_idem: "clamp_priority org (clamp_priority org p) = clamp_priority org p"
  by (auto simp: clamp_priority_def split: option.splits)

lemma clamp_priority_le: "op_max_priority org = Some m \<Longrightarrow> clamp_priority org p \<le> m"
  by (auto simp: clamp_priority_def)

lemmas clamp_idem = clamp_ceiling_idem clamp_fallback_idem clamp_priority_idem

lemma org_clamp_within: "org_clamp org d = Inr d' \<Longrightarrow> within_org org d'"
  using clamp_ceiling_le [of org]
  by (auto simp: org_clamp_def within_org_def rbind_Inr_iff clamp_priority_le dest: clamp_timeout_le)

lemma org_clamp_idem: "org_clamp org d = Inr d' \<Longrightarrow> org_clamp org d' = Inr d'"
  by (auto simp: org_clamp_def rbind_Inr_iff clamp_idem dest: clamp_timeout_idem)

lemma org_clamp_frame:
  "org_clamp org d = Inr d' \<Longrightarrow>
     dp_chain_id d' = dp_chain_id d \<and> dp_ceiling_steps d' = dp_ceiling_steps d \<and>
     dp_ceiling_tokens_out d' = dp_ceiling_tokens_out d \<and> dp_on_exceed d' = dp_on_exceed d"
  by (auto simp: org_clamp_def rbind_Inr_iff)

lemma org_clamp_ok: "dp_timeout_ms d = Some t \<Longrightarrow> \<exists>d'. org_clamp org d = Inr d'"
  by (auto simp: org_clamp_def clamp_timeout_def split: option.splits)

end
