(* ===== verification/Analyzers.thy ===== *)
theory Analyzers
  imports Policy_Types
begin

text \<open>
  The two analyzers: \<open>RuleAnalyzer\<close> (\<open>veronica/analyzer.py\<close>) and
  \<open>HistoryAnalyzer\<close> (\<open>veronica/history_analyzer.py\<close>). Both are pure functions of an
  intent, an outcome and a history view. The locale \<open>analyzer_contract\<close> states what the
  planners rely on; both analyzers are interpretations of it.
\<close>

section \<open>Contract\<close>

definition status_failed :: "string \<Rightarrow> bool" where
  "status_failed s \<longleftrightarrow> s \<in> {''halted'', ''error'', ''timeout''}"

lemma status_failed_not_ok [simp]: "\<not> status_failed ''ok''"
  by (simp add: status_failed_def)

locale analyzer_contract =
  fixes analyze :: "step_intent \<Rightarrow> step_outcome \<Rightarrow> history_view \<Rightarrow> analysis_result"
  assumes failed_tightens:
    "status_failed (so_status out) \<Longrightarrow> Tighten \<le> ar_recommendation (analyze i out h)"
  and halt_is_critical:
    "ar_recommendation (analyze i out h) = Halt \<Longrightarrow> ar_risk_level (analyze i out h) = CriticalRisk"
  and critical_signal:
    "sg \<in> set (ar_signals (analyze i out h)) \<Longrightarrow> sg_severity sg = CriticalSev \<Longrightarrow>
     ar_risk_level (analyze i out h) = CriticalRisk"
begin

lemma loosen_only_if_not_failed:
  "ar_recommendation (analyze i out h) = Loosen \<Longrightarrow> \<not> status_failed (so_status out)"
  using failed_tightens [of out i h] by (auto simp: less_eq_recommendation_def)

lemma nominal_no_halt:
  "ar_risk_level (analyze i out h) = Nominal \<Longrightarrow> ar_recommendation (analyze i out h) \<noteq> Halt"
  using halt_is_critical [of i out h] by auto

end

section \<open>Details of a signal\<close>

definition pad_zeros :: "nat \<Rightarrow> string \<Rightarrow> string" where
  "pad_zeros d s = replicate (d - length s) CHR ''0'' @ s"

definition fixed_digits :: "nat \<Rightarrow> nat \<Rightarrow> string" where
  \<comment> \<open>the decimal text of \<open>n / 10 ^ d\<close>\<close>
  "fixed_digits d n =
     show_nat (n div 10 ^ d) @ (if d = 0 then [] else CHR ''.'' # pad_zeros d (show_nat (n mod 10 ^ d)))"

fun fmt_fixed :: "nat \<Rightarrow> pyfloat \<Rightarrow> string" where
  \<comment> \<open>\<open>f"{x:.<d>f}"\<close>: the exact value, rounded half to even\<close>
  "fmt_fixed d (Fin q) =
     (if q < 0 then CHR ''-'' # fixed_digits d (nat (rhe (- q * 10 ^ d))) else fixed_digits d (nat (rhe (q * 10 ^ d))))"
| "fmt_fixed d PInf = ''inf''"
| "fmt_fixed d NInf = ''-inf''"
| "fmt_fixed d NaN = ''nan''"

section \<open>RuleAnalyzer\<close>

definition DEPTH_THRESHOLD :: nat where "DEPTH_THRESHOLD = 8"
definition FAILURE_STREAK_ELEVATED :: nat where "FAILURE_STREAK_ELEVATED = 2"
definition FAILURE_STREAK_CRITICAL :: nat where "FAILURE_STREAK_CRITICAL = 5"

definition rule_streak :: "step_outcome \<Rightarrow> history_view \<Rightarrow> nat" where
  "rule_streak out h = hv_failure_streak h + (if so_status out \<noteq> ''ok'' then 1 else 0)"

definition rule_analyze :: "step_intent \<Rightarrow> step_outcome \<Rightarrow> history_view \<Rightarrow> analysis_result" where
  "rule_analyze i out h =
     (let s1 = (if si_kind i \<noteq> so_kind out
                then [\<lparr>sg_kind = ''intent_deviation'', sg_severity = Warning,
                        sg_detail = ''intended '' @ si_kind i @ '', got '' @ so_kind out\<rparr>] else []);
          streak = rule_streak out h;
          streak_detail = show_nat streak @ '' consecutive failures'';
          (s2, risk) =
            (if FAILURE_STREAK_CRITICAL \<le> streak
             then ([\<lparr>sg_kind = ''repeated_failure'', sg_severity = CriticalSev, sg_detail = streak_detail\<rparr>], CriticalRisk)
             else if FAILURE_STREAK_ELEVATED \<le> streak
             then ([\<lparr>sg_kind = ''repeated_failure'', sg_severity = Warning, sg_detail = streak_detail\<rparr>], Elevated)
             else ([], Nominal)) in
      if DEPTH_THRESHOLD \<le> hv_depth h
      then \<lparr>ar_signals = s1 @ s2 @ [\<lparr>sg_kind = ''depth_anomaly'', sg_severity = CriticalSev,
              sg_detail = ''depth '' @ show_nat (hv_depth h) @ '' >= '' @ show_nat DEPTH_THRESHOLD\<rparr>],
            ar_risk_level = CriticalRisk, ar_recommendation = Halt\<rparr>
      else if status_failed (so_status out)
      then \<lparr>ar_signals = s1 @ s2, ar_risk_level = (if risk = Nominal then Elevated else risk),
            ar_recommendation = Tighten\<rparr>
      else \<lparr>ar_signals = s1 @ s2, ar_risk_level = risk,
            ar_recommendation =
              (if so_status out = ''ok'' \<and> hv_failure_streak h = 0 then Loosen else Continue)\<rparr>)"

lemma rule_recommendation:
  "ar_recommendation (rule_analyze i out h) =
     (if 8 \<le> hv_depth h then Halt
      else if status_failed (so_status out) then Tighten
      else if so_status out = ''ok'' \<and> hv_failure_streak h = 0 then Loosen else Continue)"
  by (simp add: rule_analyze_def Let_def DEPTH_THRESHOLD_def)

lemma rule_risk:
  "ar_risk_level (rule_analyze i out h) =
     (if 8 \<le> hv_depth h \<or> 5 \<le> rule_streak out h then CriticalRisk
      else if 2 \<le> rule_streak out h \<or> status_failed (so_status out) then Elevated
      else Nominal)"
  by (simp add: rule_analyze_def Let_def DEPTH_THRESHOLD_def FAILURE_STREAK_CRITICAL_def
      FAILURE_STREAK_ELEVATED_def)

lemma rule_signal_critical:
  "(\<exists>sg \<in> set (ar_signals (rule_analyze i out h)). sg_severity sg = CriticalSev) \<longleftrightarrow>
   8 \<le> hv_depth h \<or> 5 \<le> rule_streak out h"
  by (auto simp: rule_analyze_def Let_def DEPTH_THRESHOLD_def FAILURE_STREAK_CRITICAL_def)

interpretation rule: analyzer_contract rule_analyze
proof
  fix i out h
  show "Tighten \<le> ar_recommendation (rule_analyze i out h)" if "status_failed (so_status out)"
    using that by (simp add: rule_recommendation less_eq_recommendation_def)
  show "ar_risk_level (rule_analyze i out h) = CriticalRisk"
    if "ar_recommendation (rule_analyze i out h) = Halt"
    using that by (simp add: rule_recommendation rule_risk split: if_splits)
  show "ar_risk_level (rule_analyze i out h) = CriticalRisk"
    if "sg \<in> set (ar_signals (rule_analyze i out h))" "sg_severity sg = CriticalSev" for sg
    using that rule_signal_critical [of i out h] by (auto simp: rule_risk)
qed

section \<open>HistoryAnalyzer\<close>

definition DEPTH_SOFT :: nat where "DEPTH_SOFT = 6"
definition DEPTH_HARD :: nat where "DEPTH_HARD = 10"
definition COST_SPIKE_FACTOR :: pyfloat where "COST_SPIKE_FACTOR = Fin 2"
definition COST_MIN_HISTORY :: nat where "COST_MIN_HISTORY = 5"
definition LOOP_THRESHOLD :: pyfloat where "LOOP_THRESHOLD = flit (7 / 10)"
definition LATENCY_SPIKE_FACTOR :: pyfloat where "LATENCY_SPIKE_FACTOR = Fin 3"
definition LOOSEN_MIN_STREAK :: nat where "LOOSEN_MIN_STREAK = 3"
definition LOOSEN_MIN_HEADROOM :: pyfloat where "LOOSEN_MIN_HEADROOM = Fin (1 / 2)"
definition EPS :: pyfloat where "EPS = flit (1 / 1000000000000)"

text \<open>Each of the six patterns contributes signals and recommendations.\<close>

definition halt_tighten :: "step_outcome \<Rightarrow> signal list \<times> recommendation list" where
  "halt_tighten out =
     (if status_failed (so_status out)
      then ([\<lparr>sg_kind = ''halt_tighten'',
             sg_severity = (if so_status out = ''halted'' then CriticalSev else Warning),
             sg_detail = ''outcome status='' @ so_status out\<rparr>],
            [Tighten])
      else ([], []))"

definition clean_loosen :: "step_outcome \<Rightarrow> history_view \<Rightarrow> signal list \<times> recommendation list" where
  "clean_loosen out h =
     (if so_status out = ''ok'' \<and> LOOSEN_MIN_STREAK \<le> hv_success_streak h
         \<and> fle LOOSEN_MIN_HEADROOM (hv_budget_headroom_ratio h)
      then ([\<lparr>sg_kind = ''clean_loosen'', sg_severity = Info,
             sg_detail = ''streak='' @ show_nat (hv_success_streak h) @ '', headroom='' @
               fmt_fixed 2 (hv_budget_headroom_ratio h)\<rparr>], [Loosen])
      else ([], []))"

definition depth_guard :: "history_view \<Rightarrow> signal list \<times> recommendation list" where
  "depth_guard h =
     (if DEPTH_HARD \<le> hv_depth h
      then ([\<lparr>sg_kind = ''depth_guard'', sg_severity = CriticalSev,
             sg_detail = ''depth '' @ show_nat (hv_depth h) @ '' >= hard limit '' @ show_nat DEPTH_HARD\<rparr>], [Halt])
      else if DEPTH_SOFT \<le> hv_depth h
      then ([\<lparr>sg_kind = ''depth_guard'', sg_severity = Warning,
             sg_detail = ''depth '' @ show_nat (hv_depth h) @ '' >= soft limit '' @ show_nat DEPTH_SOFT\<rparr>], [Tighten])
      else ([], []))"

definition cost_acceleration ::
  "step_outcome \<Rightarrow> history_view \<Rightarrow> signal list \<times> recommendation list" where
  "cost_acceleration out h =
     (if COST_MIN_HISTORY \<le> hv_depth h \<and> flt EPS (hv_cost_per_step_ema h)
         \<and> flt (fmul (hv_cost_per_step_ema h) COST_SPIKE_FACTOR) (so_cost_usd out)
      then ([\<lparr>sg_kind = ''cost_acceleration'', sg_severity = Warning,
             sg_detail = ''cost '' @ fmt_fixed 4 (so_cost_usd out) @ '' > 2.0x EMA '' @
               fmt_fixed 4 (hv_cost_per_step_ema h)\<rparr>], [Tighten])
      else ([], []))"

definition loop_detection :: "history_view \<Rightarrow> signal list \<times> recommendation list" where
  "loop_detection h =
     (if fle LOOP_THRESHOLD (hv_loop_score h)
      then ([\<lparr>sg_kind = ''loop_detection'', sg_severity = Warning,
             sg_detail = ''loop_score='' @ fmt_fixed 2 (hv_loop_score h)\<rparr>], [Tighten])
      else ([], []))"

definition model_key :: "string option \<Rightarrow> string" where
  \<comment> \<open>\<open>model or "unknown"\<close>\<close>
  "model_key m = (case m of None \<Rightarrow> ''unknown'' | Some s \<Rightarrow> if s = [] then ''unknown'' else s)"

definition latency_anomaly :: "step_outcome \<Rightarrow> history_view \<Rightarrow> signal list" where
  "latency_anomaly out h =
     (case dget (hv_latency_ema_ms h) (model_key (so_model out)) of
        None \<Rightarrow> []
      | Some ema \<Rightarrow>
          if flt EPS ema \<and> flt (fmul ema LATENCY_SPIKE_FACTOR) (so_elapsed_ms out)
          then [\<lparr>sg_kind = ''latency_anomaly'', sg_severity = Info,
                 sg_detail = ''elapsed '' @ fmt_fixed 0 (so_elapsed_ms out) @ ''ms > 3.0x EMA '' @
                   fmt_fixed 0 ema @ ''ms''\<rparr>] else [])"

fun risk_by_severity :: "severity \<Rightarrow> risk_level" where
  "risk_by_severity Info = Nominal"
| "risk_by_severity Warning = Elevated"
| "risk_by_severity CriticalSev = CriticalRisk"

definition compose_risk :: "signal list \<Rightarrow> risk_level" where
  "compose_risk sgs = (case map sg_severity sgs of
     [] \<Rightarrow> Nominal | s # ss \<Rightarrow> risk_by_severity (foldl max s ss))"

definition compose_recommendation :: "recommendation list \<Rightarrow> recommendation" where
  "compose_recommendation rs = (case rs of [] \<Rightarrow> Continue | r # rs' \<Rightarrow> foldl max r rs')"

definition history_analyze :: "step_intent \<Rightarrow> step_outcome \<Rightarrow> history_view \<Rightarrow> analysis_result" where
  "history_analyze i out h =
     (let (g1, r1) = halt_tighten out;
          (g2, r2) = clean_loosen out h;
          (g3, r3) = depth_guard h;
          (g4, r4) = cost_acceleration out h;
          (g5, r5) = loop_detection h;
          g6 = latency_anomaly out h;
          signals = g1 @ g2 @ g3 @ g4 @ g5 @ g6;
          recs = r1 @ r2 @ r3 @ r4 @ r5 in
      \<lparr>ar_signals = signals, ar_risk_level = compose_risk signals,
       ar_recommendation = compose_recommendation recs\<rparr>)"

lemmas pattern_defs = halt_tighten_def clean_loosen_def depth_guard_def cost_acceleration_def
  loop_detection_def latency_anomaly_def

subsection \<open>Maximum severity and highest-priority recommendation\<close>

lemma foldl_max_ge: "x \<in> set (s # ss) \<Longrightarrow> x \<le> foldl max s ss" for x :: "'a::linorder"
proof (induction ss arbitrary: s x)
  case (Cons a ss)
  have m: "max s a \<le> foldl max (max s a) ss" by (rule Cons.IH) simp
  show ?case using Cons.prems Cons.IH [of x "max s a"] order_trans [OF _ m] by auto
qed simp

lemma foldl_max_in: "foldl max s ss \<in> set (s # ss)" for s :: "'a::linorder"
proof (induction ss arbitrary: s)
  case (Cons a ss)
  then show ?case using Cons.IH [of "max s a"] by (auto simp: max_def split: if_splits)
qed simp

lemma CriticalSev_top: "(s :: severity) \<le> CriticalSev"
  by (cases s) (simp_all add: less_eq_severity_def)

lemma compose_risk_critical:
  "compose_risk sgs = CriticalRisk \<longleftrightarrow> (\<exists>sg \<in> set sgs. sg_severity sg = CriticalSev)"
proof (cases "map sg_severity sgs")
  case (Cons s ss)
  have eq: "sg_severity ` set sgs = set (s # ss)"
    by (metis list.set_map local.Cons)
  have "compose_risk sgs = CriticalRisk \<longleftrightarrow> foldl max s ss = CriticalSev"
    using Cons by (cases "foldl max s ss") (simp_all add: compose_risk_def)
  also have "\<dots> \<longleftrightarrow> CriticalSev \<in> set (s # ss)"
    using foldl_max_in [of s ss] foldl_max_ge [of CriticalSev s ss] CriticalSev_top
    by (metis order_antisym)
  finally show ?thesis unfolding eq [symmetric] by (simp add: image_iff) metis
qed (simp add: compose_risk_def)

lemma compose_risk_nominal:
  "compose_risk sgs = Nominal \<longleftrightarrow> (\<forall>sg \<in> set sgs. sg_severity sg = Info)"
proof (cases "map sg_severity sgs")
  case (Cons s ss)
  have eq: "sg_severity ` set sgs = set (s # ss)"
    by (metis list.set_map local.Cons)
  have low: "x \<le> Info \<longleftrightarrow> x = Info" for x
    by (cases x) (simp_all add: less_eq_severity_def)
  have "compose_risk sgs = Nominal \<longleftrightarrow> foldl max s ss = Info"
    using Cons by (cases "foldl max s ss") (simp_all add: compose_risk_def)
  also have "\<dots> \<longleftrightarrow> (\<forall>x \<in> set (s # ss). x = Info)"
    using foldl_max_in [of s ss] foldl_max_ge [of _ s ss] low by metis
  finally show ?thesis unfolding eq [symmetric] by auto
qed (simp add: compose_risk_def)

lemma compose_recommendation_ge:
  "r \<in> set rs \<Longrightarrow> r \<le> compose_recommendation rs"
  using foldl_max_ge by (cases rs) (auto simp: compose_recommendation_def)

lemma compose_recommendation_in:
  "compose_recommendation rs = Continue \<or> compose_recommendation rs \<in> set rs"
  using foldl_max_in by (cases rs) (auto simp: compose_recommendation_def)

text \<open>The recommendation, case by case: halt dominates tighten, tighten dominates loosen.\<close>

definition history_tightens :: "step_outcome \<Rightarrow> history_view \<Rightarrow> bool" where
  "history_tightens out h \<longleftrightarrow> status_failed (so_status out) \<or> 6 \<le> hv_depth h \<or>
     snd (cost_acceleration out h) \<noteq> [] \<or> fle LOOP_THRESHOLD (hv_loop_score h)"

definition history_clean :: "step_outcome \<Rightarrow> history_view \<Rightarrow> bool" where
  "history_clean out h \<longleftrightarrow> so_status out = ''ok'' \<and> 3 \<le> hv_success_streak h \<and>
     fle (Fin (1 / 2)) (hv_budget_headroom_ratio h)"

lemma history_recommendation:
  "ar_recommendation (history_analyze i out h) =
     (if 10 \<le> hv_depth h then Halt
      else if history_tightens out h then Tighten
      else if history_clean out h then Loosen else Continue)"
  by (simp add: history_analyze_def Let_def compose_recommendation_def history_tightens_def
      history_clean_def pattern_defs DEPTH_HARD_def DEPTH_SOFT_def LOOSEN_MIN_STREAK_def
      LOOSEN_MIN_HEADROOM_def max_def less_eq_recommendation_def)

lemma history_signals_critical:
  "(\<exists>sg \<in> set (ar_signals (history_analyze i out h)). sg_severity sg = CriticalSev) \<longleftrightarrow>
   so_status out = ''halted'' \<or> 10 \<le> hv_depth h"
  by (auto simp: history_analyze_def Let_def pattern_defs DEPTH_HARD_def status_failed_def
      split: option.splits)

lemma history_risk_signals:
  "ar_risk_level (history_analyze i out h) = compose_risk (ar_signals (history_analyze i out h))"
  by (simp add: history_analyze_def Let_def split: prod.splits)

interpretation hist: analyzer_contract history_analyze
proof
  fix i out h
  show "Tighten \<le> ar_recommendation (history_analyze i out h)" if "status_failed (so_status out)"
    using that by (simp add: history_recommendation history_tightens_def less_eq_recommendation_def)
  show crit: "ar_risk_level (history_analyze i out h) = CriticalRisk"
    if "sg \<in> set (ar_signals (history_analyze i out h))" "sg_severity sg = CriticalSev" for sg
    using that by (auto simp: history_risk_signals compose_risk_critical)
  show "ar_risk_level (history_analyze i out h) = CriticalRisk"
    if "ar_recommendation (history_analyze i out h) = Halt"
    using that history_signals_critical [of i out h] crit
    by (auto simp: history_recommendation split: if_splits)
qed

end
