(* ===== verification/Cost_Models.thy ===== *)
theory Cost_Models
  imports Analyzers
begin

text \<open>
  \<open>TableCostModel\<close> (\<open>veronica/cost_model.py\<close>) and \<open>RegressionCostModel\<close>
  (\<open>veronica/regression_cost_model.py\<close>). veronica-core's \<open>PRICING_TABLE\<close> and
  \<open>estimate_cost_usd\<close> are parameters: \<open>known\<close> says which models are priced,
  \<open>price m i o\<close> is the price of \<open>i\<close> input and \<open>o\<close> output tokens.
\<close>

definition or_str :: "string option \<Rightarrow> string \<Rightarrow> string" where
  \<comment> \<open>\<open>s or d\<close> for an optional string\<close>
  "or_str s d = (case s of None \<Rightarrow> d | Some t \<Rightarrow> if t = [] then d else t)"

lemma model_key_or_str: "model_key m = or_str m ''unknown''"
  by (simp add: model_key_def or_str_def)

record table_cost_model =
  tc_default_tokens_in :: int
  tc_default_tokens_out :: int
  tc_fallback_cost_usd :: pyfloat

definition new_table_cost_model :: table_cost_model where
  "new_table_cost_model =
     \<lparr>tc_default_tokens_in = 500, tc_default_tokens_out = 200,
      tc_fallback_cost_usd = flit (1 / 100)\<rparr>"

definition tool_estimate :: "step_intent \<Rightarrow> cost_estimate" where
  "tool_estimate i = \<lparr>ce_estimated_usd = Fin 0, ce_confidence = Fin 1,
     ce_model_used = or_str (si_tool_name i) ''tool'', ce_basis = ''pricing_table''\<rparr>"

definition table_estimate ::
  "(string \<Rightarrow> bool) \<Rightarrow> (string \<Rightarrow> int \<Rightarrow> int \<Rightarrow> pyfloat) \<Rightarrow> table_cost_model \<Rightarrow>
   step_intent \<Rightarrow> history_view \<Rightarrow> analysis_result option \<Rightarrow> cost_estimate" where
  "table_estimate known price m i h last_analysis =
     (if si_kind i = ''tool'' then tool_estimate i
      else case si_model i of
        None \<Rightarrow> \<lparr>ce_estimated_usd = tc_fallback_cost_usd m, ce_confidence = flit (3 / 10),
                 ce_model_used = ''unknown'', ce_basis = ''fallback''\<rparr>
      | Some s \<Rightarrow>
          if \<not> known s
          then \<lparr>ce_estimated_usd = tc_fallback_cost_usd m, ce_confidence = flit (3 / 10),
                ce_model_used = or_str (Some s) ''unknown'', ce_basis = ''fallback''\<rparr>
          else \<lparr>ce_estimated_usd = price s (tc_default_tokens_in m) (tc_default_tokens_out m),
                ce_confidence = flit (7 / 10), ce_model_used = s, ce_basis = ''pricing_table''\<rparr>)"

definition graduated_confidence :: "nat \<Rightarrow> pyfloat" where
  "graduated_confidence depth =
     (if depth < 5 then flit (60 / 100) else if depth < 20 then Fin (3 / 4) else flit (85 / 100))"

definition regression_fallback ::
  "(string \<Rightarrow> bool) \<Rightarrow> (string \<Rightarrow> int \<Rightarrow> int \<Rightarrow> pyfloat) \<Rightarrow> string \<Rightarrow> cost_estimate" where
  "regression_fallback known price key =
     \<lparr>ce_estimated_usd = (if known key then price key 500 200 else flit (1 / 100)),
      ce_confidence = flit (2 / 10), ce_model_used = key, ce_basis = ''pricing_table''\<rparr>"

definition regression_estimate ::
  "(string \<Rightarrow> bool) \<Rightarrow> (string \<Rightarrow> int \<Rightarrow> int \<Rightarrow> pyfloat) \<Rightarrow>
   step_intent \<Rightarrow> history_view \<Rightarrow> analysis_result option \<Rightarrow> cost_estimate" where
  "regression_estimate known price i h last_analysis =
     (if si_kind i = ''tool'' then tool_estimate i
      else (let key = or_str (si_model i) ''unknown'' in
        case dget (hv_cost_per_step_ema_by_model h) key of
          None \<Rightarrow> regression_fallback known price key
        | Some ema \<Rightarrow>
            if flt EPS ema
            then \<lparr>ce_estimated_usd = ema, ce_confidence = graduated_confidence (hv_depth h),
                  ce_model_used = key, ce_basis = ''historical''\<rparr>
            else regression_fallback known price key))"

section \<open>Contract\<close>

lemma flit_le_1: "q \<le> 1 \<Longrightarrow> fle (flit q) (Fin 1)"
  using rnd_mono [of q 1] by (simp add: flit_def)

lemma flit_nonneg: "0 \<le> q \<Longrightarrow> nonneg_float (flit q)"
  by (simp add: flit_def rnd_nonneg)

lemma flit_finite: "0 \<le> q \<Longrightarrow> q \<le> 1 \<Longrightarrow> isfinite (flit q)"
  using rnd_finite_bound [of q 1] by (simp add: flit_def)

lemma EPS_nonneg [simp, intro]: "nonneg_float EPS"
  by (simp add: EPS_def flit_nonneg)

locale cost_model_contract =
  fixes estimate :: "step_intent \<Rightarrow> history_view \<Rightarrow> analysis_result option \<Rightarrow> cost_estimate"
  assumes tool_is_free:
    "si_kind i = ''tool'' \<Longrightarrow> ce_estimated_usd (estimate i h a) = Fin 0"
  and confidence_unit:
    "nonneg_float (ce_confidence (estimate i h a)) \<and> fle (ce_confidence (estimate i h a)) (Fin 1)"
  and ignores_analysis: "estimate i h a = estimate i h a'"

interpretation table: cost_model_contract "table_estimate known price m"
  for known price m
  by unfold_locales
    (auto simp: table_estimate_def tool_estimate_def flit_nonneg flit_le_1 split: option.splits)

interpretation regression: cost_model_contract "regression_estimate known price"
  for known price
  by unfold_locales
    (auto simp: regression_estimate_def tool_estimate_def regression_fallback_def
      graduated_confidence_def flit_nonneg flit_le_1 Let_def split: option.splits)

text \<open>An estimate is never negative when the prices and the fallback are not.\<close>

lemma table_estimate_nonneg:
  assumes "\<And>s i out. known s \<Longrightarrow> nonneg_float (price s i out)" "nonneg_float (tc_fallback_cost_usd m)"
  shows "nonneg_float (ce_estimated_usd (table_estimate known price m i h a))"
  using assms by (auto simp: table_estimate_def tool_estimate_def split: option.splits)

lemma regression_estimate_nonneg:
  assumes "\<And>s i out. known s \<Longrightarrow> nonneg_float (price s i out)"
  shows "nonneg_float (ce_estimated_usd (regression_estimate known price i h a))"
proof -
  have "nonneg_float ema" if "flt EPS ema" for ema
    using fle_trans [OF EPS_nonneg flt_imp_fle [OF that]] .
  then show ?thesis using assms
    by (auto simp: regression_estimate_def tool_estimate_def regression_fallback_def Let_def
        flit_nonneg split: option.splits)
qed

end
