(* ===== verification/Planners.thy ===== *)
theory Planners
  imports Cost_Models
begin

text \<open>
  \<open>SimplePlanner\<close> (\<open>veronica/planner.py\<close>) and \<open>AdaptivePlanner\<close>
  (\<open>veronica/adaptive_planner.py\<close>): the drifting effective ceiling, the clamps to
  \<open>[min, max]\<close> and to the remaining budget, and the cooldown. The locale
  \<open>planner_contract\<close> is what the orchestrator relies on.
\<close>

record planner =
  pl_base :: pyfloat
  pl_max :: pyfloat
  pl_min :: pyfloat
  pl_timeout_ms :: int
  pl_default_on_exceed :: string
  pl_fallback_model :: "string option"
  pl_effective_ceiling :: pyfloat

definition new_planner ::
  "pyfloat \<Rightarrow> pyfloat \<Rightarrow> pyfloat \<Rightarrow> int \<Rightarrow> string \<Rightarrow> string option \<Rightarrow> planner" where
  "new_planner base mx mn timeout on_exceed fallback =
     \<lparr>pl_base = base, pl_max = mx, pl_min = mn, pl_timeout_ms = timeout,
      pl_default_on_exceed = on_exceed, pl_fallback_model = fallback, pl_effective_ceiling = base\<rparr>"

definition default_planner :: planner where
  "default_planner = new_planner (Fin 1) (Fin 10) (flit (1 / 10)) 30000 ''halt'' None"

section \<open>SimplePlanner\<close>

definition TIGHTEN_FACTOR :: pyfloat where "TIGHTEN_FACTOR = flit (9 / 10)"
definition LOOSEN_FACTOR :: pyfloat where "LOOSEN_FACTOR = flit (105 / 100)"
definition PLAN_STEPS :: int where "PLAN_STEPS = 100"
definition PLAN_TOKENS_OUT :: int where "PLAN_TOKENS_OUT = 50000"

definition clamp_plan :: "planner \<Rightarrow> budget_state \<Rightarrow> pyfloat \<Rightarrow> pyfloat" where
  "clamp_plan p b c = fmin (fmax (pl_min p) (fmin (pl_max p) c)) (bs_chain_remaining_usd b)"

definition planned :: "planner \<Rightarrow> budget_state \<Rightarrow> pyfloat \<Rightarrow> string \<Rightarrow> desired_policy" where
  "planned p b c on_exceed =
     \<lparr>dp_chain_id = '''', dp_ceiling_usd = c,
      dp_ceiling_steps = min PLAN_STEPS (bs_window_remaining_steps b),
      dp_ceiling_tokens_out = PLAN_TOKENS_OUT, dp_on_exceed = on_exceed,
      dp_fallback_model = pl_fallback_model p, dp_timeout_ms = Some (pl_timeout_ms p),
      dp_priority = 50\<rparr>"

definition plan_on_exceed :: "planner \<Rightarrow> analysis_result option \<Rightarrow> string" where
  "plan_on_exceed p a = (case a of
     None \<Rightarrow> pl_default_on_exceed p
   | Some r \<Rightarrow> if ar_recommendation r = Halt then ''halt'' else pl_default_on_exceed p)"

definition simple_adjust :: "planner \<Rightarrow> analysis_result option \<Rightarrow> pyfloat" where
  "simple_adjust p a = (case a of
     None \<Rightarrow> pl_effective_ceiling p
   | Some r \<Rightarrow>
       if ar_recommendation r = Tighten then fmul (pl_effective_ceiling p) TIGHTEN_FACTOR
       else if ar_recommendation r = Loosen then fmul (pl_effective_ceiling p) LOOSEN_FACTOR
       else pl_effective_ceiling p)"

definition simple_plan ::
  "planner \<Rightarrow> analysis_result option \<Rightarrow> cost_estimate \<Rightarrow> budget_state \<Rightarrow> desired_policy \<times> planner" where
  "simple_plan p a cost b =
     (let c = clamp_plan p b (simple_adjust p a) in
      (planned p b c (plan_on_exceed p a), p\<lparr>pl_effective_ceiling := c\<rparr>))"

section \<open>AdaptivePlanner\<close>

record adaptive_planner =
  ap_planner :: planner
  ap_cooldowns :: "(string, int) pydict"

definition new_adaptive_planner :: "planner \<Rightarrow> adaptive_planner" where
  "new_adaptive_planner p = \<lparr>ap_planner = p, ap_cooldowns = []\<rparr>"

definition HALTED_FACTOR :: pyfloat where "HALTED_FACTOR = Fin (1 / 2)"
definition ERROR_FACTOR :: pyfloat where "ERROR_FACTOR = flit (85 / 100)"
definition TIMEOUT_FACTOR :: pyfloat where "TIMEOUT_FACTOR = flit (9 / 10)"
definition ADAPTIVE_LOOSEN_FACTOR :: pyfloat where "ADAPTIVE_LOOSEN_FACTOR = flit (103 / 100)"
definition COOLDOWN_STEPS :: int where "COOLDOWN_STEPS = 3"
definition COST_HEADROOM :: pyfloat where "COST_HEADROOM = Fin (3 / 2)"

definition tighten_factor :: "analysis_result \<Rightarrow> pyfloat" where
  "tighten_factor a =
     (case filter (\<lambda>sg. sg_kind sg = ''halt_tighten'') (ar_signals a) of
        sg # _ \<Rightarrow> if sg_severity sg = CriticalSev then HALTED_FACTOR else ERROR_FACTOR
      | [] \<Rightarrow>
          if ar_signals a \<noteq> []
          then (if list_ex (\<lambda>sg. sg_severity sg = CriticalSev) (ar_signals a)
                then HALTED_FACTOR else ERROR_FACTOR)
          else TIMEOUT_FACTOR)"

definition cooldown :: "adaptive_planner \<Rightarrow> int" where
  "cooldown p = dget_default (ap_cooldowns p) '''' 0"

definition adjusts :: "adaptive_planner \<Rightarrow> analysis_result option \<Rightarrow> bool" where
  "adjusts p a \<longleftrightarrow> (case a of
     None \<Rightarrow> False
   | Some r \<Rightarrow> cooldown p \<le> 0 \<and> (ar_recommendation r = Tighten \<or> ar_recommendation r = Loosen))"

definition adaptive_adjust :: "adaptive_planner \<Rightarrow> analysis_result option \<Rightarrow> pyfloat" where
  "adaptive_adjust p a =
     (let c = pl_effective_ceiling (ap_planner p) in
      case a of
        None \<Rightarrow> c
      | Some r \<Rightarrow>
          if cooldown p \<le> 0
          then (if ar_recommendation r = Tighten then fmul c (tighten_factor r)
                else if ar_recommendation r = Loosen then fmul c ADAPTIVE_LOOSEN_FACTOR else c)
          else c)"

definition adaptive_plan ::
  "adaptive_planner \<Rightarrow> analysis_result option \<Rightarrow> cost_estimate \<Rightarrow> budget_state \<Rightarrow>
   desired_policy \<times> adaptive_planner" where
  "adaptive_plan p a cost b =
     (let q = ap_planner p;
          c = clamp_plan q b
                (fmax (adaptive_adjust p a) (fmul (ce_estimated_usd cost) COST_HEADROOM));
          cd = (if adjusts p a then COOLDOWN_STEPS else max 0 (cooldown p - 1)) in
      (planned q b c (plan_on_exceed q a),
       p\<lparr>ap_planner := q\<lparr>pl_effective_ceiling := c\<rparr>,
         ap_cooldowns := dput (ap_cooldowns p) '''' cd\<rparr>))"

section \<open>Contract\<close>

type_synonym plan_input = "analysis_result option \<times> cost_estimate \<times> budget_state"

text \<open>Planning a sequence of steps, the planner's state threaded through.\<close>

fun plan_all ::
  "('p \<Rightarrow> analysis_result option \<Rightarrow> cost_estimate \<Rightarrow> budget_state \<Rightarrow> desired_policy \<times> 'p) \<Rightarrow>
   'p \<Rightarrow> plan_input list \<Rightarrow> desired_policy list" where
  "plan_all plan p [] = []"
| "plan_all plan p ((a, c, b) # xs) = fst (plan p a c b) # plan_all plan (snd (plan p a c b)) xs"

locale planner_contract =
  fixes plan :: "'p \<Rightarrow> analysis_result option \<Rightarrow> cost_estimate \<Rightarrow> budget_state \<Rightarrow> desired_policy \<times> 'p"
    and inv :: "'p \<Rightarrow> bool"
    and cap :: "'p \<Rightarrow> pyfloat"
  assumes plan_inv: "inv p \<Longrightarrow> inv (snd (plan p a c b))"
    and plan_cap_const: "cap (snd (plan p a c b)) = cap p"
    and plan_le_remaining:
      "inv p \<Longrightarrow> bs_chain_remaining_usd b \<noteq> NaN \<Longrightarrow>
       fle (dp_ceiling_usd (fst (plan p a c b))) (bs_chain_remaining_usd b)"
    and plan_le_cap: "inv p \<Longrightarrow> fle (dp_ceiling_usd (fst (plan p a c b))) (cap p)"
    and plan_halts:
      "a = Some r \<Longrightarrow> ar_recommendation r = Halt \<Longrightarrow> dp_on_exceed (fst (plan p a c b)) = ''halt''"
    and plan_timeout: "\<exists>t. dp_timeout_ms (fst (plan p a c b)) = Some t"
begin

lemma plan_all_le_cap:
  "inv p \<Longrightarrow> d \<in> set (plan_all plan p xs) \<Longrightarrow> fle (dp_ceiling_usd d) (cap p)"
proof (induction xs arbitrary: p)
  case (Cons x xs)
  obtain a c b where x: "x = (a, c, b)" by (cases x)
  show ?case
    using Cons.prems Cons.IH [OF plan_inv [of p a c b]] plan_le_cap [of p a c b]
    by (auto simp: x plan_cap_const)
qed simp

lemma plan_all_le_remaining:
  "inv p \<Longrightarrow> i < length xs \<Longrightarrow> bs_chain_remaining_usd (snd (snd (xs ! i))) \<noteq> NaN \<Longrightarrow>
   fle (dp_ceiling_usd (plan_all plan p xs ! i)) (bs_chain_remaining_usd (snd (snd (xs ! i))))"
proof (induction xs arbitrary: p i)
  case (Cons x xs)
  obtain a c b where x: "x = (a, c, b)" by (cases x)
  show ?case
    using Cons.prems Cons.IH [OF plan_inv [of p a c b]] plan_le_remaining [of p b a c]
    by (cases i) (auto simp: x)
qed simp

end

definition planner_ok :: "planner \<Rightarrow> bool" where
  "planner_ok p \<longleftrightarrow> fle (pl_min p) (pl_max p)"

lemma clamp_plan_bounds:
  assumes "planner_ok p"
  shows "fle (clamp_plan p b c) (pl_max p)"
    and "bs_chain_remaining_usd b \<noteq> NaN \<Longrightarrow> fle (clamp_plan p b c) (bs_chain_remaining_usd b)"
    and "fle (pl_min p) (bs_chain_remaining_usd b) \<Longrightarrow> fle (pl_min p) (clamp_plan p b c)"
proof -
  have nn: "pl_min p \<noteq> NaN" "pl_max p \<noteq> NaN"
    using assms fle_notNaN by (auto simp: planner_ok_def)
  let ?m = "fmax (pl_min p) (fmin (pl_max p) c)"
  have m: "?m \<noteq> NaN" "fle ?m (pl_max p)" "fle (pl_min p) ?m"
    using nn assms by (auto simp: planner_ok_def fmax_notNaN intro: fmax_least fmin_le1 fmax_ge1)
  show "fle (clamp_plan p b c) (pl_max p)"
    unfolding clamp_plan_def using fmin_le1 [OF m(1)] m(2) by (rule fle_trans)
  show "fle (clamp_plan p b c) (bs_chain_remaining_usd b)" if "bs_chain_remaining_usd b \<noteq> NaN"
    unfolding clamp_plan_def using m(1) that by (rule fmin_le2)
  show "fle (pl_min p) (clamp_plan p b c)" if "fle (pl_min p) (bs_chain_remaining_usd b)"
    unfolding clamp_plan_def using m(3) that by (rule fmin_greatest)
qed

lemmas plan_defs = simple_plan_def adaptive_plan_def planned_def plan_on_exceed_def Let_def

interpretation simple: planner_contract simple_plan planner_ok pl_max
  by unfold_locales
    (auto simp: plan_defs planner_ok_def [of "_\<lparr>pl_effective_ceiling := _\<rparr>"] clamp_plan_bounds
      simp flip: planner_ok_def)

interpretation adaptive: planner_contract adaptive_plan "\<lambda>p. planner_ok (ap_planner p)"
    "\<lambda>p. pl_max (ap_planner p)"
  by unfold_locales
    (auto simp: plan_defs planner_ok_def [of "_\<lparr>pl_effective_ceiling := _\<rparr>"] clamp_plan_bounds
      simp flip: planner_ok_def)

section \<open>Effect of a recommendation\<close>

lemma TIGHTEN_le_1: "fle TIGHTEN_FACTOR (Fin 1)"
  by (simp add: TIGHTEN_FACTOR_def flit_le_1)

lemma TIGHTEN_finite: "\<exists>f. TIGHTEN_FACTOR = Fin f \<and> 0 \<le> f \<and> f \<le> 1"
  using flit_finite [of "9 / 10"] flit_nonneg [of "9 / 10"] TIGHTEN_le_1
  by (cases "flit (9 / 10)") (auto simp: TIGHTEN_FACTOR_def)

text \<open>
  After a failed step the next plan does not exceed the previous effective ceiling, unless that
  was below the planner's minimum.
\<close>

lemma simple_tighten:
  assumes "planner_ok p" "pl_effective_ceiling p = Fin e" "0 \<le> e" "is_double (Fin e)"
    and "ar_recommendation r = Tighten" "bs_chain_remaining_usd b \<noteq> NaN"
  shows "fle (dp_ceiling_usd (fst (simple_plan p (Some r) c b))) (fmax (pl_min p) (Fin e))"
proof -
  have nn: "pl_min p \<noteq> NaN" "pl_max p \<noteq> NaN"
    using assms(1) fle_notNaN by (auto simp: planner_ok_def)
  let ?t = "fmul (Fin e) TIGHTEN_FACTOR"
  have t: "fle ?t (Fin e)"
    by (metis TIGHTEN_finite fmul_le_self [OF assms(4,3)])
  have "fle (fmin (pl_max p) ?t) (Fin e)"
    using fmin_le2 [OF nn(2)] t fle_notNaN fle_trans by blast
  then have "fle (fmax (pl_min p) (fmin (pl_max p) ?t)) (fmax (pl_min p) (Fin e))"
    using nn fmax_ge1 fmax_ge2 fmax_least fle_trans pyfloat.distinct(5) by meson
  moreover have "fmax (pl_min p) (fmin (pl_max p) ?t) \<noteq> NaN" using nn by (simp add: fmax_notNaN)
  ultimately show ?thesis
    using assms fmin_le1 fle_trans
    by (simp add: simple_plan_def planned_def clamp_plan_def simple_adjust_def Let_def) blast
qed

section \<open>The cooldown\<close>

text \<open>Which calls of a run adjust the ceiling.\<close>

fun adjust_trace :: "adaptive_planner \<Rightarrow> plan_input list \<Rightarrow> bool list" where
  "adjust_trace p [] = []"
| "adjust_trace p ((a, c, b) # xs) = adjusts p a # adjust_trace (snd (adaptive_plan p a c b)) xs"

lemma length_adjust_trace [simp]: "length (adjust_trace p xs) = length xs"
  by (induction xs arbitrary: p) auto

lemma cooldown_next:
  "cooldown (snd (adaptive_plan p a c b)) = (if adjusts p a then 3 else max 0 (cooldown p - 1))"
  by (simp add: adaptive_plan_def cooldown_def COOLDOWN_STEPS_def Let_def)

lemma no_adjust_while_cooling: "0 < cooldown p \<Longrightarrow> \<not> adjusts p a"
  by (auto simp: adjusts_def split: option.splits)

lemma adjust_trace_cooling:
  "i < length xs \<Longrightarrow> adjust_trace p xs ! i \<Longrightarrow> cooldown p \<le> int i"
proof (induction xs arbitrary: p i)
  case (Cons x xs)
  obtain a c b where x: "x = (a, c, b)" by (cases x)
  show ?case
  proof (cases i)
    case 0
    then show ?thesis using Cons.prems no_adjust_while_cooling [of p a] by (force simp: x)
  next
    case (Suc j)
    then have "cooldown (snd (adaptive_plan p a c b)) \<le> int j"
      using Cons.prems by (intro Cons.IH) (auto simp: x)
    then show ?thesis using Suc no_adjust_while_cooling [of p a] by (force simp: cooldown_next split: if_splits)
  qed
qed simp

lemma adjust_trace_gap:
  "i < j \<Longrightarrow> j < length xs \<Longrightarrow> adjust_trace p xs ! i \<Longrightarrow> adjust_trace p xs ! j \<Longrightarrow> i + 4 \<le> j"
proof (induction xs arbitrary: p i j)
  case (Cons x xs)
  obtain a c b where x: "x = (a, c, b)" by (cases x)
  obtain j' where j: "j = Suc j'" using Cons.prems(1) by (cases j) auto
  show ?case
  proof (cases i)
    case 0
    then have "adjusts p a" using Cons.prems by (simp add: x)
    moreover have "cooldown (snd (adaptive_plan p a c b)) \<le> int j'"
      using Cons.prems j by (intro adjust_trace_cooling [of j' xs]) (auto simp: x)
    ultimately show ?thesis using 0 j by (simp add: cooldown_next)
  next
    case (Suc i')
    then have "i' + 4 \<le> j'"
      using Cons.prems j by (intro Cons.IH [of i' j' "snd (adaptive_plan p a c b)"]) (auto simp: x)
    then show ?thesis using Suc j by simp
  qed
qed simp

text \<open>The ceiling covers one and a half times the estimated cost where the limits allow it.\<close>

lemma adaptive_headroom:
  assumes ok: "planner_ok (ap_planner p)" and need: "need = fmul (ce_estimated_usd c) COST_HEADROOM"
    and adj: "adaptive_adjust p a \<noteq> NaN"
    and room: "fle need (pl_max (ap_planner p))" "fle need (bs_chain_remaining_usd b)"
  shows "fle need (dp_ceiling_usd (fst (adaptive_plan p a c b)))"
proof -
  have nn: "pl_min (ap_planner p) \<noteq> NaN" "pl_max (ap_planner p) \<noteq> NaN" "need \<noteq> NaN"
    using ok room fle_notNaN by (auto simp: planner_ok_def)
  have "fle need (fmax (adaptive_adjust p a) need)" using adj nn by (intro fmax_ge2)
  then have "fle need (fmin (pl_max (ap_planner p)) (fmax (adaptive_adjust p a) need))"
    using room by (intro fmin_greatest)
  moreover from this have "fmin (pl_max (ap_planner p)) (fmax (adaptive_adjust p a) need) \<noteq> NaN"
    using fle_notNaN by blast
  ultimately have "fle need (fmax (pl_min (ap_planner p))
      (fmin (pl_max (ap_planner p)) (fmax (adaptive_adjust p a) need)))"
    using nn fmax_ge2 fle_trans by blast
  then show ?thesis
    using room by (simp add: adaptive_plan_def planned_def clamp_plan_def Let_def need fmin_greatest)
qed

end
