(* ===== verification/Stores.thy ===== *)
theory Stores
  imports Policy_Types
begin

text \<open>
  The store interface (\<open>StoreProtocol\<close> of \<open>veronica/protocols.py\<close>) as the locale
  \<open>store_contract\<close>, and \<open>MemoryStore\<close> (\<open>veronica/store.py\<close>): outcomes per chain,
  a cap on chains and on outcomes per chain, and the history view.
\<close>

section \<open>Chain identifiers\<close>

definition safe_chain :: "string \<Rightarrow> bool" where
  \<comment> \<open>the pattern \<open>[a-zA-Z0-9_:@.\-]{1,256}\<close>\<close>
  "safe_chain s \<longleftrightarrow> 1 \<le> length s \<and> length s \<le> 256 \<and> list_all safe_char s"

definition chain_id_ok :: "string \<Rightarrow> bool" where
  \<comment> \<open>\<open>_SAFE_CHAIN_RE.match\<close>: the \<open>$\<close> of the pattern tolerates a final newline\<close>
  "chain_id_ok s = match_dollar safe_chain s"

definition validate_chain_id :: "string \<Rightarrow> unit result" where
  "validate_chain_id s = (if chain_id_ok s then Inr () else Inl ValueError)"

lemma newline_unsafe: "\<not> safe_char newline"
  by (simp add: safe_char_def newline_def is_upper_def is_lower_def is_digit_def)

lemma chain_id_chars:
  "chain_id_ok s \<Longrightarrow> c \<in> set s \<Longrightarrow> safe_char c \<or> c = newline"
proof -
  assume "chain_id_ok s" "c \<in> set s"
  then consider "safe_chain s" | "s \<noteq> []" "last s = newline" "safe_chain (butlast s)"
    by (auto simp: chain_id_ok_def match_dollar_def)
  then show ?thesis
  proof cases
    case 1
    then show ?thesis using \<open>c \<in> set s\<close> by (auto simp: safe_chain_def list_all_iff)
  next
    case 2
    then have "s = butlast s @ [newline]" by (metis append_butlast_last_id)
    with \<open>c \<in> set s\<close> have "c \<in> set (butlast s) \<or> c = newline"
      by (metis Un_iff empty_iff insert_iff list.set set_append)
    then show ?thesis using 2 by (auto simp: safe_chain_def list_all_iff)
  qed
qed

lemma safe_char_no_slash: "safe_char c \<Longrightarrow> c \<noteq> CHR ''/''"
  by (auto simp: safe_char_def is_upper_def is_lower_def is_digit_def)

section \<open>Interface\<close>

definition safe_cost :: "pyfloat \<Rightarrow> pyfloat" where
  \<comment> \<open>\<open>x if math.isfinite(x) else 0.0\<close>\<close>
  "safe_cost x = (if isfinite x then x else Fin 0)"

lemma safe_cost_finite [simp]: "isfinite (safe_cost x)"
  by (simp add: safe_cost_def)

definition clamp_limit :: "int \<Rightarrow> nat \<Rightarrow> nat" where
  \<comment> \<open>\<open>max(1, min(limit, cap))\<close>\<close>
  "clamp_limit limit cap = nat (max 1 (min limit (int cap)))"

lemma clamp_limit_bounds: "1 \<le> cap \<Longrightarrow> 1 \<le> clamp_limit l cap \<and> clamp_limit l cap \<le> cap"
  by (auto simp: clamp_limit_def)

text \<open>
  A run of commits, with the outcomes that were accepted; a rejected commit (an exception) is
  followed by the next one. The third argument of a commit is what else it depends on.
\<close>

fun commit_all ::
  "('s \<Rightarrow> step_outcome \<Rightarrow> 'x \<Rightarrow> unit result \<times> 's) \<Rightarrow> 's \<Rightarrow> (step_outcome \<times> 'x) list \<Rightarrow> step_outcome list \<times> 's" where
  "commit_all commit s [] = ([], s)"
| "commit_all commit s ((out, x) # xs) =
     (let (r, s') = commit s out x; (outs, s'') = commit_all commit s' xs in
      (if is_ok r then out # outs else outs, s''))"

text \<open>
  What a store promises the pipeline. The view of a chain is a list of outcomes as the store reads
  them back (\<open>reads\<close>); an accepted commit appends the outcome to its chain's view, cut to the most
  recent \<open>shown l\<close>, and leaves the views of the other chains alone. \<open>admits\<close>, \<open>names\<close> and \<open>served\<close> are
  the outcomes, chains and limits for which the store keeps the promise.
\<close>

locale store_contract =
  fixes commit :: "'s \<Rightarrow> step_outcome \<Rightarrow> 'x \<Rightarrow> unit result \<times> 's"
    and build :: "'s \<Rightarrow> string \<Rightarrow> int \<Rightarrow> history_view result"
    and inv :: "'s \<Rightarrow> bool"
    and reads :: "step_outcome \<Rightarrow> step_outcome \<Rightarrow> bool"
    and admits :: "step_outcome \<Rightarrow> bool"
    and names :: "string \<Rightarrow> bool"
    and shown :: "int \<Rightarrow> nat"
    and served :: "int \<Rightarrow> bool"
  assumes commit_inv: "inv s \<Longrightarrow> admits out \<Longrightarrow> inv (snd (commit s out x))"
    and commit_fail:
      "inv s \<Longrightarrow> admits out \<Longrightarrow> fst (commit s out x) = Inl e \<Longrightarrow> names c \<Longrightarrow>
       build (snd (commit s out x)) c l = build s c l"
    and commit_view:
      "inv s \<Longrightarrow> admits out \<Longrightarrow> fst (commit s out x) = Inr () \<Longrightarrow> served l \<Longrightarrow>
       build s (so_chain_id out) l = Inr h \<Longrightarrow>
       \<exists>h' out'. build (snd (commit s out x)) (so_chain_id out) l = Inr h' \<and> reads out out' \<and>
         hv_last_n h' = take_last (shown l) (hv_last_n h @ [out'])"
    and commit_other:
      "inv s \<Longrightarrow> admits out \<Longrightarrow> names c \<Longrightarrow> served l \<Longrightarrow> c \<noteq> so_chain_id out \<Longrightarrow>
       build (snd (commit s out x)) c l = build s c l"
    and build_view:
      "inv s \<Longrightarrow> names c \<Longrightarrow> served l \<Longrightarrow>
       \<exists>h. build s c l = Inr h \<and> hv_chain_id h = c \<and> hv_depth h = length (hv_last_n h) \<and>
         hv_depth h \<le> shown l"
    and admits_names: "admits out \<Longrightarrow> names (so_chain_id out)"
begin

lemma commit_visible:
  assumes "inv s" "admits out" "fst (commit s out x) = Inr ()" "served l" "0 < shown l"
  shows "\<exists>h out'. build (snd (commit s out x)) (so_chain_id out) l = Inr h \<and> reads out out' \<and>
    hv_last_n h \<noteq> [] \<and> last (hv_last_n h) = out'"
proof -
  obtain h where "build s (so_chain_id out) l = Inr h"
    using build_view [OF assms(1) admits_names [OF assms(2)] assms(4)] by blast
  from commit_view [OF assms(1,2,3,4) this] obtain h' out' where
    h': "build (snd (commit s out x)) (so_chain_id out) l = Inr h'" "reads out out'"
      "hv_last_n h' = take_last (shown l) (hv_last_n h @ [out'])"
    by blast
  obtain k where "shown l = Suc k"
    using assms(5) by (cases "shown l") auto
  with h'(3) have "hv_last_n h' = take_last k (hv_last_n h) @ [out']"
    by (simp add: take_last_snoc)
  with h'(1,2) show ?thesis by auto
qed

text \<open>The views of a run, from any state: the abstract store is a list of outcomes per chain.\<close>

lemma history_of_run:
  assumes "inv s" "\<forall>y \<in> set xs. admits (fst y)" "names c" "served l" "build s c l = Inr h"
    and "list_all2 reads before olds" "hv_last_n h = take_last (shown l) olds"
  shows "inv (snd (commit_all commit s xs)) \<and>
    (\<exists>h' outs. build (snd (commit_all commit s xs)) c l = Inr h' \<and>
       list_all2 reads (before @ filter (\<lambda>out. so_chain_id out = c) (fst (commit_all commit s xs))) outs \<and>
       hv_last_n h' = take_last (shown l) outs)"
  using assms
proof (induction xs arbitrary: s h before olds)
  case Nil
  then show ?case by auto
next
  case (Cons y xs)
  obtain out x where y: "y = (out, x)" by (cases y)
  let ?s = "snd (commit s out x)"
  have adm: "admits out" "\<forall>y \<in> set xs. admits (fst y)" using Cons.prems(2) y by auto
  have inv: "inv ?s" using Cons.prems(1) adm(1) by (rule commit_inv)
  note IH = Cons.IH [OF inv adm(2) Cons.prems(3,4)]
  have run: "commit_all commit s (y # xs) =
      (if is_ok (fst (commit s out x)) then out # fst (commit_all commit ?s xs)
       else fst (commit_all commit ?s xs), snd (commit_all commit ?s xs))"
    by (simp add: y case_prod_beta Let_def)
  show ?case
  proof (cases "is_ok (fst (commit s out x)) \<and> so_chain_id out = c")
    case True
    then have ok: "fst (commit s out x) = Inr ()" and c: "so_chain_id out = c"
      by (auto simp: is_ok_iff)
    obtain h' out' where h': "build ?s c l = Inr h'" "reads out out'"
        "hv_last_n h' = take_last (shown l) (hv_last_n h @ [out'])"
      using commit_view [OF Cons.prems(1) adm(1) ok Cons.prems(4)] Cons.prems(5) c by blast
    have both: "list_all2 reads (before @ [out]) (olds @ [out'])"
      using Cons.prems(6) h'(2) by (simp add: list_all2_appendI)
    have view: "hv_last_n h' = take_last (shown l) (olds @ [out'])"
      using h'(3) Cons.prems(7) by (simp add: take_last_append_take_last)
    from IH [OF h'(1) both view] True show ?thesis
      unfolding run by auto
  next
    case False
    then have "build ?s c l = Inr h"
      using commit_fail [OF Cons.prems(1) adm(1) _ Cons.prems(3)]
        commit_other [OF Cons.prems(1) adm(1) Cons.prems(3,4)] Cons.prems(5)
      by (cases "fst (commit s out x)") auto
    from IH [OF this Cons.prems(6,7)] False show ?thesis
      unfolding run by auto
  qed
qed

lemma history_from_empty:
  assumes "inv s" "\<forall>y \<in> set xs. admits (fst y)" "names c" "served l"
    and "\<And>h. build s c l = Inr h \<Longrightarrow> hv_last_n h = []"
  shows "\<exists>h outs. build (snd (commit_all commit s xs)) c l = Inr h \<and>
    list_all2 reads (filter (\<lambda>out. so_chain_id out = c) (fst (commit_all commit s xs))) outs \<and>
    hv_last_n h = take_last (shown l) outs"
proof -
  obtain h where h: "build s c l = Inr h"
    using build_view [OF assms(1,3,4)] by blast
  with assms(5) have "hv_last_n h = take_last (shown l) []" by (simp add: take_last_def)
  from history_of_run [OF assms(1-4) h list_all2_Nil [THEN iffD2] this]
  show ?thesis by simp
qed

lemma depth_of_run:
  assumes "inv s" "\<forall>y \<in> set xs. admits (fst y)" "names c" "served l"
    and "\<And>h. build s c l = Inr h \<Longrightarrow> hv_last_n h = []"
  shows "\<exists>h. build (snd (commit_all commit s xs)) c l = Inr h \<and>
    hv_depth h = min (shown l) (length (filter (\<lambda>out. so_chain_id out = c) (fst (commit_all commit s xs))))"
proof -
  obtain h outs where h: "build (snd (commit_all commit s xs)) c l = Inr h"
      "list_all2 reads (filter (\<lambda>out. so_chain_id out = c) (fst (commit_all commit s xs))) outs"
      "hv_last_n h = take_last (shown l) outs"
    using history_from_empty [OF assms] by blast
  obtain h0 where "build s c l = Inr h0" using build_view [OF assms(1,3,4)] by blast
  with assms(5) have "hv_last_n h0 = take_last (shown l) []" by (simp add: take_last_def)
  with history_of_run [OF assms(1-4) \<open>build s c l = Inr h0\<close> list_all2_Nil [THEN iffD2]]
  have "inv (snd (commit_all commit s xs))" by blast
  from build_view [OF this assms(3,4)] h(1) have "hv_depth h = length (hv_last_n h)" by auto
  with h list_all2_lengthD [OF h(2)] show ?thesis by auto
qed

end

section \<open>MemoryStore\<close>

record memory_store =
  ms_chains :: "(string, step_outcome list) pydict"

definition MAX_OUTCOMES_PER_CHAIN :: nat where "MAX_OUTCOMES_PER_CHAIN = 50000"
definition MAX_CHAINS :: nat where "MAX_CHAINS = 10000"

definition new_memory_store :: memory_store where
  "new_memory_store = \<lparr>ms_chains = []\<rparr>"

definition memory_commit ::
  "memory_store \<Rightarrow> step_outcome \<Rightarrow> analysis_result \<Rightarrow> unit result \<times> memory_store" where
  "memory_commit s out a =
     (case validate_chain_id (so_chain_id out) of
        Inl e \<Rightarrow> (Inl e, s)
      | Inr _ \<Rightarrow>
          if dget (ms_chains s) (so_chain_id out) = None \<and> MAX_CHAINS \<le> length (ms_chains s)
          then (Inl ValueError, s)
          else
            (let chain = dget_default (ms_chains s) (so_chain_id out) [] @ [out];
                 kept = (if MAX_OUTCOMES_PER_CHAIN < length chain
                         then take_last MAX_OUTCOMES_PER_CHAIN chain else chain) in
             (Inr (), s\<lparr>ms_chains := dput (ms_chains s) (so_chain_id out) kept\<rparr>)))"

definition failed_outcome :: "step_outcome \<Rightarrow> bool" where
  "failed_outcome out \<longleftrightarrow> so_status out \<noteq> ''ok''"

definition history_of :: "string \<Rightarrow> step_outcome list \<Rightarrow> history_view" where
  "history_of c last_n =
     \<lparr>hv_chain_id = c, hv_last_n = last_n,
      hv_rolling_cost_usd = fsum (map (safe_cost \<circ> so_cost_usd) last_n),
      hv_failure_streak = trailing failed_outcome last_n, hv_depth = length last_n,
      hv_loop_score = Fin 0, hv_success_streak = 0, hv_cost_per_step_ema = Fin 0,
      hv_cost_per_step_ema_by_model = [], hv_latency_ema_ms = [],
      hv_budget_headroom_ratio = Fin 1\<rparr>"

definition memory_build_history :: "memory_store \<Rightarrow> string \<Rightarrow> int \<Rightarrow> history_view result" where
  "memory_build_history s c limit =
     rbind (validate_chain_id c) (\<lambda>_.
       Inr (history_of c
         (take_last (clamp_limit limit MAX_OUTCOMES_PER_CHAIN) (dget_default (ms_chains s) c []))))"

subsection \<open>Capacity\<close>

definition memory_inv :: "memory_store \<Rightarrow> bool" where
  "memory_inv s \<longleftrightarrow> wf_dict (ms_chains s) \<and> length (ms_chains s) \<le> MAX_CHAINS \<and>
     (\<forall>c outs. dget (ms_chains s) c = Some outs \<longrightarrow>
        chain_id_ok c \<and> outs \<noteq> [] \<and> length outs \<le> MAX_OUTCOMES_PER_CHAIN \<and>
        (\<forall>out \<in> set outs. so_chain_id out = c))"

definition chain_outcomes :: "memory_store \<Rightarrow> string \<Rightarrow> step_outcome list" where
  "chain_outcomes s c = dget_default (ms_chains s) c []"

lemma memory_commit_chain:
  "fst (memory_commit s out a) = Inr () \<Longrightarrow>
   chain_outcomes (snd (memory_commit s out a)) c =
     (if c = so_chain_id out
      then take_last MAX_OUTCOMES_PER_CHAIN (chain_outcomes s c @ [out]) else chain_outcomes s c)"
  by (auto simp: memory_commit_def chain_outcomes_def take_last_all Let_def
      split: sum.splits if_splits option.splits)

lemma memory_inv_init: "memory_inv new_memory_store"
  by (simp add: memory_inv_def new_memory_store_def)

lemma take_last_nonempty: "0 < n \<Longrightarrow> xs \<noteq> [] \<Longrightarrow> take_last n xs \<noteq> []"
  by (cases xs) (auto simp: take_last_def)

lemma memory_commit_inv:
  assumes "memory_inv s"
  shows "memory_inv (snd (memory_commit s out a))"
proof (cases "fst (memory_commit s out a)")
  case (Inl e)
  then have "snd (memory_commit s out a) = s"
    by (auto simp: memory_commit_def Let_def split: sum.splits if_splits)
  with assms show ?thesis by simp
next
  case (Inr u)
  then have ok: "chain_id_ok (so_chain_id out)"
    and room: "dget (ms_chains s) (so_chain_id out) = None \<Longrightarrow> length (ms_chains s) < MAX_CHAINS"
    by (auto simp: memory_commit_def validate_chain_id_def split: if_splits)
  define kept where "kept = take_last MAX_OUTCOMES_PER_CHAIN (chain_outcomes s (so_chain_id out) @ [out])"
  have kept: "snd (memory_commit s out a) =
      s\<lparr>ms_chains := dput (ms_chains s) (so_chain_id out) kept\<rparr>"
    using Inr by (auto simp: memory_commit_def chain_outcomes_def kept_def Let_def take_last_all
        split: sum.splits if_splits)
  have kept_set: "set kept \<subseteq> set (chain_outcomes s (so_chain_id out)) \<union> {out}"
    using set_take_last [of MAX_OUTCOMES_PER_CHAIN "chain_outcomes s (so_chain_id out) @ [out]"]
    by (simp add: kept_def)
  have kept_len: "kept \<noteq> []" "length kept \<le> MAX_OUTCOMES_PER_CHAIN"
    by (simp_all add: kept_def take_last_nonempty MAX_OUTCOMES_PER_CHAIN_def length_take_last)
  have own: "\<forall>o' \<in> set (chain_outcomes s (so_chain_id out)). so_chain_id o' = so_chain_id out"
    using assms by (cases "dget (ms_chains s) (so_chain_id out)")
      (auto simp: memory_inv_def chain_outcomes_def)
  have len: "length (dput (ms_chains s) (so_chain_id out) kept) \<le> MAX_CHAINS"
    using assms room by (auto simp: length_dput memory_inv_def)
  show ?thesis
    using assms ok kept_set kept_len own len unfolding memory_inv_def kept by auto
qed

lemma last_take_last: "0 < n \<Longrightarrow> xs \<noteq> [] \<Longrightarrow> last (take_last n xs) = last xs"
  by (simp add: take_last_def last_drop)

lemma clamp_limit_pos [simp]: "0 < clamp_limit l cap"
  by (simp add: clamp_limit_def)

lemma memory_build_eq:
  "chain_id_ok c \<Longrightarrow> memory_build_history s c l =
     Inr (history_of c (take_last (clamp_limit l MAX_OUTCOMES_PER_CHAIN) (chain_outcomes s c)))"
  by (simp add: memory_build_history_def validate_chain_id_def chain_outcomes_def)

lemma memory_build_ok: "memory_build_history s c l = Inr h \<Longrightarrow> chain_id_ok c"
  by (auto simp: memory_build_history_def validate_chain_id_def rbind_Inr_iff split: if_splits)

lemma memory_commit_ok: "fst (memory_commit s out a) = Inr () \<Longrightarrow> chain_id_ok (so_chain_id out)"
  by (auto simp: memory_commit_def validate_chain_id_def split: if_splits)

definition memory_admits :: "step_outcome \<Rightarrow> bool" where
  "memory_admits out \<longleftrightarrow> chain_id_ok (so_chain_id out)"

lemma memory_commit_fail: "fst (memory_commit s out a) = Inl e \<Longrightarrow> snd (memory_commit s out a) = s"
  by (auto simp: memory_commit_def Let_def split: sum.splits if_splits)

interpretation memory: store_contract memory_commit memory_build_history memory_inv "(=)"
    memory_admits chain_id_ok "\<lambda>l. clamp_limit l MAX_OUTCOMES_PER_CHAIN" "\<lambda>_. True"
proof
  fix s out a e c l h
  show "memory_inv (snd (memory_commit s out a))" if "memory_inv s"
    using that by (rule memory_commit_inv)
  show "memory_build_history (snd (memory_commit s out a)) c l = memory_build_history s c l"
    if "fst (memory_commit s out a) = Inl e"
    by (simp add: memory_commit_fail [OF that])
  show "\<exists>h' out'. memory_build_history (snd (memory_commit s out a)) (so_chain_id out) l = Inr h' \<and>
        out = out' \<and> hv_last_n h' = take_last (clamp_limit l MAX_OUTCOMES_PER_CHAIN) (hv_last_n h @ [out'])"
    if ok: "fst (memory_commit s out a) = Inr ()"
      and h: "memory_build_history s (so_chain_id out) l = Inr h"
    using memory_commit_ok [OF ok] h clamp_limit_bounds [of MAX_OUTCOMES_PER_CHAIN l]
    by (auto simp: memory_build_eq memory_commit_chain [OF ok] history_of_def take_last_take_last
        take_last_append_take_last MAX_OUTCOMES_PER_CHAIN_def min_absorb1)
  show "memory_build_history (snd (memory_commit s out a)) c l = memory_build_history s c l"
    if "chain_id_ok c" "c \<noteq> so_chain_id out"
  proof (cases "fst (memory_commit s out a)")
    case (Inl e)
    then show ?thesis by (simp add: memory_commit_fail)
  next
    case (Inr u)
    then show ?thesis using that memory_commit_chain [of s out a c] by (simp add: memory_build_eq)
  qed
  show "\<exists>h. memory_build_history s c l = Inr h \<and> hv_chain_id h = c \<and> hv_depth h = length (hv_last_n h) \<and>
        hv_depth h \<le> clamp_limit l MAX_OUTCOMES_PER_CHAIN"
    if "chain_id_ok c"
    using that by (simp add: memory_build_eq history_of_def)
qed (simp add: memory_admits_def)

end
