(* ===== verification/Collector.thy ===== *)
theory Collector
  imports Policy_Types
begin

text \<open>
  \<open>SimpleCollector\<close> (\<open>veronica/collector.py\<close>), which maps a kernel snapshot to a step
  outcome, and the stage time guard (\<open>veronica/_timeguard.py\<close>). The guard checks the elapsed
  time after the stage has run: an overrun discards the stage's result, not its effects.
\<close>

section \<open>Time budgets\<close>

datatype stage_error =
    BudgetExceeded string pyfloat pyfloat \<comment> \<open>stage, budget, actual\<close>
  | StageError py_error

definition run_with_budget ::
  "'a result \<Rightarrow> pyfloat \<Rightarrow> pyfloat \<Rightarrow> string \<Rightarrow> stage_error + ('a \<times> pyfloat)" where
  "run_with_budget r elapsed_ms budget_ms stage =
     (case r of
        Inl e \<Rightarrow> Inl (StageError e)
      | Inr x \<Rightarrow> if flt budget_ms elapsed_ms
                then Inl (BudgetExceeded stage budget_ms elapsed_ms)
                else Inr (x, elapsed_ms))"

lemma run_with_budget_ok_iff:
  "run_with_budget r t b s = Inr (x, t') \<longleftrightarrow> r = Inr x \<and> t' = t \<and> \<not> flt b t"
  by (auto simp: run_with_budget_def split: sum.splits if_splits)

lemma run_with_budget_raise_iff:
  "run_with_budget r t b s = Inl (StageError e) \<longleftrightarrow> r = Inl e"
  by (auto simp: run_with_budget_def split: sum.splits if_splits)

section \<open>Collector\<close>

definition VALID_STATUSES :: "string list" where
  "VALID_STATUSES = [''ok'', ''halted'', ''error'', ''timeout'']"

definition token_count :: "(string, pyval) pydict \<Rightarrow> string \<Rightarrow> int result" where
  \<comment> \<open>\<open>max(0, int(meta.get(key, 0) or 0))\<close>, 0 on \<open>TypeError\<close> and \<open>ValueError\<close>\<close>
  "token_count meta key =
     (let v = dget_default meta key (VInt 0) in
      case to_int (if truthy v then v else VInt 0) of
        Inr n \<Rightarrow> Inr (max 0 n)
      | Inl e \<Rightarrow> if e = TypeError \<or> e = ValueError then Inr 0 else Inl e)"

definition extract_tokens :: "node_record \<Rightarrow> (int \<times> int) result" where
  "extract_tokens node =
     (case nr_buffer_metadata node of
        None \<Rightarrow> Inr (0, 0)
      | Some meta \<Rightarrow>
          rbind (token_count meta ''tokens_in'') (\<lambda>i.
          rbind (token_count meta ''tokens_out'') (\<lambda>t. Inr (i, t))))"

definition collect :: "int \<Rightarrow> context_snapshot \<Rightarrow> step_outcome result" where
  "collect now_ms s =
     (if cs_nodes s = []
      then Inr \<lparr>so_step_id = cs_chain_id s @ ''-'' @ show_int (cs_step_count s),
                so_request_id = cs_request_id s, so_chain_id = cs_chain_id s,
                so_kind = ''system'', so_status = ''ok'',
                so_cost_usd = cs_cost_usd_accumulated s, so_tokens_in = 0, so_tokens_out = 0,
                so_elapsed_ms = cs_elapsed_ms s, so_model = None, so_events = cs_events s,
                so_timestamp_ms = now_ms\<rparr>
      else
        (let node = last (cs_nodes s) in
         rbind (extract_tokens node) (\<lambda>(tin, tout).
         Inr \<lparr>so_step_id = nr_node_id node, so_request_id = cs_request_id s,
              so_chain_id = cs_chain_id s, so_kind = nr_kind node,
              so_status = (if nr_status node \<in> set VALID_STATUSES then nr_status node else ''error''),
              so_cost_usd = nr_cost_usd node, so_tokens_in = tin, so_tokens_out = tout,
              so_elapsed_ms = cs_elapsed_ms s, so_model = None, so_events = cs_events s,
              so_timestamp_ms = now_ms\<rparr>)))"

lemma token_count_nonneg: "token_count meta key = Inr n \<Longrightarrow> 0 \<le> n"
  by (auto simp: token_count_def Let_def split: sum.splits if_splits)

lemma extract_tokens_nonneg: "extract_tokens node = Inr (i, t) \<Longrightarrow> 0 \<le> i \<and> 0 \<le> t"
  by (auto simp: extract_tokens_def rbind_Inr_iff token_count_nonneg split: option.splits)

lemma collect_wf:
  "collect now s = Inr out \<Longrightarrow>
     so_chain_id out = cs_chain_id s \<and> so_request_id out = cs_request_id s \<and>
     so_status out \<in> set VALID_STATUSES \<and> 0 \<le> so_tokens_in out \<and> 0 \<le> so_tokens_out out \<and>
     so_elapsed_ms out = cs_elapsed_ms s \<and> so_events out = cs_events s"
  by (auto simp: collect_def rbind_Inr_iff Let_def VALID_STATUSES_def
      dest!: extract_tokens_nonneg split: if_splits)

text \<open>Token counts that are strings or floats never make the collector fail, infinities do.\<close>

lemma to_int_error: "to_int v = Inl e \<Longrightarrow> e \<in> {TypeError, ValueError, OverflowError}"
proof (cases v)
  case (VFloat x)
  then show "to_int v = Inl e \<Longrightarrow> e \<in> {TypeError, ValueError, OverflowError}" by (cases x) auto
next
  case (VStr s)
  then show "to_int v = Inl e \<Longrightarrow> e \<in> {TypeError, ValueError, OverflowError}"
    by (auto simp: parse_int_def Let_def split: if_splits prod.splits)
qed auto

lemma token_count_error: "token_count meta key = Inl e \<Longrightarrow> e = OverflowError"
  using to_int_error
  by (fastforce simp: token_count_def Let_def simp del: to_int.simps split: sum.splits if_splits)

end
