(* ===== verification/Arbiters.thy ===== *)
theory Arbiters
  imports Policy_Types
begin

text \<open>
  \<open>PassthroughArbiter\<close> (\<open>veronica/arbiter.py\<close>) and \<open>ProportionalArbiter\<close>
  (\<open>veronica/proportional_arbiter.py\<close>): they turn the planners' desired policies into policy
  configurations under the remaining budget. The locale \<open>arbiter_contract\<close> is what the
  orchestrator uses of an arbiter: whose limits a configuration carries, and how large its
  ceiling can be.
\<close>

definition config_of_desire :: "desired_policy \<Rightarrow> pyfloat \<Rightarrow> pyfloat \<Rightarrow> string \<Rightarrow> policy_config" where
  "config_of_desire d usd now version =
     (new_policy_config (dp_chain_id d) (VFloat usd) (dp_on_exceed d) (VFloat now))
     \<lparr>pc_ceiling_steps := VInt (dp_ceiling_steps d),
      pc_ceiling_tokens_out := VInt (dp_ceiling_tokens_out d),
      pc_fallback_model := (case dp_fallback_model d of None \<Rightarrow> VNone | Some m \<Rightarrow> VStr m),
      pc_timeout_ms := (case dp_timeout_ms d of None \<Rightarrow> VNone | Some n \<Rightarrow> VInt n),
      pc_priority := VInt (dp_priority d),
      pc_planner_version := VStr version\<rparr>"

text \<open>The configuration carries the limits of the desire, whatever its ceiling.\<close>

definition carries :: "desired_policy \<Rightarrow> policy_config \<Rightarrow> bool" where
  "carries d p \<longleftrightarrow> (\<exists>c now v. p = config_of_desire d c now v)"

lemma config_of_desire_sel [simp]:
  "pc_chain_id (config_of_desire d c now v) = dp_chain_id d"
  "pc_ceiling_usd (config_of_desire d c now v) = VFloat c"
  "pc_on_exceed (config_of_desire d c now v) = dp_on_exceed d"
  "pc_ceiling_steps (config_of_desire d c now v) = VInt (dp_ceiling_steps d)"
  "pc_priority (config_of_desire d c now v) = VInt (dp_priority d)"
  "pc_expires_at (config_of_desire d c now v) = VNone"
  by (simp_all add: config_of_desire_def new_policy_config_def)

lemma carries_config [simp, intro]: "carries d (config_of_desire d c now v)"
  by (auto simp: carries_def)

lemma dget_fold_dput:
  "dget (fold (\<lambda>x m. dput m (k x) (f x)) xs m) c =
     (case find (\<lambda>x. k x = c) (rev xs) of None \<Rightarrow> dget m c | Some x \<Rightarrow> Some (f x))"
proof (induction xs arbitrary: m rule: rev_induct)
  case (snoc x xs)
  then show ?case by (auto split: option.splits)
qed simp

section \<open>The contract\<close>

locale arbiter_contract =
  fixes arbitrate :: "'s \<Rightarrow> desired_policy list \<Rightarrow> pyfloat \<Rightarrow> (string, policy_config) pydict result \<times> 's"
    and inv :: "'s \<Rightarrow> bool"
    and cap :: "pyfloat \<Rightarrow> pyfloat"
  assumes arbitrate_inv: "inv s \<Longrightarrow> inv (snd (arbitrate s ds b))"
    and arbitrate_from_desire:
      "inv s \<Longrightarrow> fst (arbitrate s ds b) = Inr m \<Longrightarrow> dget m c = Some p \<Longrightarrow>
       \<exists>d \<in> set ds. dp_chain_id d = c \<and> carries d p"
    and arbitrate_cap:
      "inv s \<Longrightarrow> fst (arbitrate s [d] b) = Inr m \<Longrightarrow> dget m c = Some p \<Longrightarrow>
       isfinite b \<Longrightarrow> is_double b \<Longrightarrow> isfinite (dp_ceiling_usd d) \<Longrightarrow> nonneg_float (dp_ceiling_usd d) \<Longrightarrow>
       is_double (dp_ceiling_usd d) \<Longrightarrow>
       \<exists>x. pc_ceiling_usd p = VFloat x \<and> fle x (cap (dp_ceiling_usd d))"
begin

lemma arbitrate_single:
  assumes "inv s" "fst (arbitrate s [d] b) = Inr m" "dget m c = Some p"
  shows "c = dp_chain_id d" "pc_chain_id p = c" "pc_on_exceed p = dp_on_exceed d"
    "pc_ceiling_steps p = VInt (dp_ceiling_steps d)"
  using arbitrate_from_desire [OF assms] by (auto simp: carries_def)

lemma arbitrate_other_chain:
  assumes "inv s" "fst (arbitrate s ds b) = Inr m" "c \<notin> dp_chain_id ` set ds"
  shows "dget m c = None"
  using arbitrate_from_desire [OF assms(1,2)] assms(3) by (cases "dget m c") auto

end

section \<open>PassthroughArbiter\<close>

definition passthrough_scale :: "desired_policy list \<Rightarrow> pyfloat \<Rightarrow> pyfloat result" where
  "passthrough_scale ds b =
     (let total = fsum (map dp_ceiling_usd ds) in
      if flt b total \<and> flt (Fin 0) total then fdiv b total else Inr (Fin 1))"

definition passthrough_arbitrate ::
  "pyfloat \<Rightarrow> desired_policy list \<Rightarrow> pyfloat \<Rightarrow> (string, policy_config) pydict result" where
  "passthrough_arbitrate now ds b =
     (if ds = [] then Inr []
      else rbind (passthrough_scale ds b) (\<lambda>scale.
        Inr (fold (\<lambda>d m. dput m (dp_chain_id d)
                     (config_of_desire d (fmul (dp_ceiling_usd d) scale) now ''0.1.0'')) ds [])))"

lemma fquot_le_1: "isfinite b \<Longrightarrow> flt b t \<Longrightarrow> flt (Fin 0) t \<Longrightarrow> fle (fquot b t) (Fin 1)"
proof (cases b; cases t)
  fix p q assume "isfinite b" "flt b t" "flt (Fin 0) t" and v: "b = Fin p" "t = Fin q"
  then have "p / q \<le> 1" by (simp add: divide_le_eq)
  then have "fle (rnd (p / q)) (Fin 1)" using rnd_mono [of "p / q" 1] by simp
  then show "fle (fquot b t) (Fin 1)" using v by simp
qed auto

lemma passthrough_scale_ok: "\<exists>s. passthrough_scale ds b = Inr s"
  by (auto simp: passthrough_scale_def Let_def fdiv_def)

lemma passthrough_ok: "\<exists>m. passthrough_arbitrate now ds b = Inr m"
  using passthrough_scale_ok [of ds b] by (auto simp: passthrough_arbitrate_def)

lemma passthrough_entry:
  assumes "passthrough_arbitrate now ds b = Inr m" "dget m c = Some p"
  shows "\<exists>d \<in> set ds. \<exists>s. passthrough_scale ds b = Inr s \<and> dp_chain_id d = c \<and>
     p = config_of_desire d (fmul (dp_ceiling_usd d) s) now ''0.1.0''"
proof (cases "ds = []")
  case True
  then show ?thesis using assms by (simp add: passthrough_arbitrate_def)
next
  case False
  with assms(1) obtain s where s: "passthrough_scale ds b = Inr s"
    "m = fold (\<lambda>d m. dput m (dp_chain_id d)
           (config_of_desire d (fmul (dp_ceiling_usd d) s) now ''0.1.0'')) ds []"
    by (auto simp: passthrough_arbitrate_def rbind_Inr_iff)
  then show ?thesis using assms(2) s(1)
    by (auto simp: dget_fold_dput find_Some_iff split: option.splits)
      (metis length_rev nth_mem set_rev)
qed

lemma scaled_le:
  assumes "isfinite x" "nonneg_float x" "is_double x" "fle s (Fin 1)" "x = Fin 0 \<longrightarrow> s \<noteq> NInf"
  shows "fle (fmul x s) x"
proof (cases "s = NInf")
  case True
  then show ?thesis using assms by (cases x) (auto simp: finf_def)
next
  case False
  then show ?thesis using assms fmul_le_self_neg by (cases x) auto
qed

lemma passthrough_scale_le_1:
  assumes "passthrough_scale ds b = Inr s" "isfinite b"
  shows "fle s (Fin 1)"
  using assms fquot_le_1 [OF assms(2)]
  by (auto simp: passthrough_scale_def fdiv_def Let_def split: if_splits)

lemma passthrough_scale_nonneg:
  assumes "passthrough_scale ds b = Inr s" "nonneg_float b" "isfinite b"
  shows "nonneg_float s"
proof -
  have "nonneg_float (fquot b t)" if "flt (Fin 0) t" for t
    using that assms(2,3) by (cases b; cases t) (auto intro: rnd_nonneg)
  then show ?thesis using assms(1)
    by (auto simp: passthrough_scale_def fdiv_def Let_def split: if_splits)
qed

text \<open>Under a finite non-negative budget no ceiling is raised, and none becomes negative.\<close>

lemma passthrough_cap:
  assumes "passthrough_arbitrate now ds b = Inr m" "dget m c = Some p"
    "isfinite b" "nonneg_float b"
    "\<And>d. d \<in> set ds \<Longrightarrow> isfinite (dp_ceiling_usd d) \<and> nonneg_float (dp_ceiling_usd d) \<and>
       is_double (dp_ceiling_usd d)"
  shows "\<exists>d \<in> set ds. \<exists>x. dp_chain_id d = c \<and> carries d p \<and> pc_ceiling_usd p = VFloat x \<and>
     nonneg_float x \<and> fle x (dp_ceiling_usd d)"
proof -
  obtain d s where d: "d \<in> set ds" "passthrough_scale ds b = Inr s" "dp_chain_id d = c"
    "p = config_of_desire d (fmul (dp_ceiling_usd d) s) now ''0.1.0''"
    using passthrough_entry [OF assms(1,2)] by blast
  have s: "fle s (Fin 1)" "nonneg_float s"
    using passthrough_scale_le_1 passthrough_scale_nonneg d(2) assms(3,4) by blast+
  then obtain q where q: "s = Fin q" "0 \<le> q" by (cases s) auto
  moreover obtain a where "dp_ceiling_usd d = Fin a" "0 \<le> a" using assms(5) [OF d(1)] by (cases "dp_ceiling_usd d") auto
  ultimately have "nonneg_float (fmul (dp_ceiling_usd d) s)" by (simp add: rnd_nonneg)
  moreover have "fle (fmul (dp_ceiling_usd d) s) (dp_ceiling_usd d)"
    using scaled_le assms(5) [OF d(1)] s q by blast
  ultimately show ?thesis using d by auto
qed

lemma passthrough_single_cap:
  assumes "passthrough_arbitrate now [d] b = Inr m" "dget m c = Some p" "isfinite b"
    "isfinite (dp_ceiling_usd d)" "nonneg_float (dp_ceiling_usd d)" "is_double (dp_ceiling_usd d)"
  shows "\<exists>x. pc_ceiling_usd p = VFloat x \<and> fle x (dp_ceiling_usd d)"
proof -
  obtain s where s: "passthrough_scale [d] b = Inr s"
    "p = config_of_desire d (fmul (dp_ceiling_usd d) s) now ''0.1.0''"
    using passthrough_entry [OF assms(1,2)] by auto
  have "dp_ceiling_usd d = Fin 0 \<longrightarrow> s \<noteq> NInf"
    using s(1) by (auto simp: passthrough_scale_def fsum_def)
  then show ?thesis
    using scaled_le [OF assms(4-6) passthrough_scale_le_1 [OF s(1) assms(3)]] s(2) by auto
qed

interpretation passthrough: arbiter_contract
  "\<lambda>now ds b. (passthrough_arbitrate now ds b, now)" "\<lambda>_. True" "\<lambda>c. c"
proof (unfold_locales, goal_cases)
  case (2 s ds b m c p)
  then show ?case using passthrough_entry by (metis carries_config fst_conv)
next
  case (3 s d b m c p)
  then show ?case using passthrough_single_cap by simp
qed simp

section \<open>ProportionalArbiter\<close>

definition MIN_ALLOCATION_USD :: pyfloat where "MIN_ALLOCATION_USD = flit (1 / 100)"
definition ARB_EPS :: pyfloat where "ARB_EPS = flit (1 / 10 ^ 12)"

definition eligible :: "desired_policy list \<Rightarrow> desired_policy list" where
  "eligible ds = filter (\<lambda>d. 0 < dp_priority d) ds"

definition int_quot :: "int \<Rightarrow> int \<Rightarrow> pyfloat" where
  \<comment> \<open>\<open>a / b\<close> of two integers, \<open>0 < a \<le> b\<close> wherever it is used\<close>
  "int_quot a b = rnd (of_int a / of_int b)"

record allocation =
  al_alloc :: "(string, pyfloat) pydict"
  al_surplus :: pyfloat
  al_uncapped :: "desired_policy list"

definition pass1_step :: "int \<Rightarrow> pyfloat \<Rightarrow> desired_policy \<Rightarrow> allocation \<Rightarrow> allocation" where
  "pass1_step total_weight b d st =
     (let share = fmul (int_quot (dp_priority d) total_weight) b in
      if flt (dp_ceiling_usd d) share
      then st\<lparr>al_surplus := fadd (al_surplus st) (fsub share (dp_ceiling_usd d)),
              al_alloc := dput (al_alloc st) (dp_chain_id d) (dp_ceiling_usd d)\<rparr>
      else st\<lparr>al_alloc := dput (al_alloc st) (dp_chain_id d) share,
              al_uncapped := al_uncapped st @ [d]\<rparr>)"

definition pass1 :: "desired_policy list \<Rightarrow> pyfloat \<Rightarrow> allocation" where
  "pass1 el b = fold (pass1_step (sum_list (map dp_priority el)) b) el
     \<lparr>al_alloc = [], al_surplus = Fin 0, al_uncapped = []\<rparr>"

definition pass2_step ::
  "int \<Rightarrow> pyfloat \<Rightarrow> desired_policy \<Rightarrow> (string, pyfloat) pydict \<Rightarrow> (string, pyfloat) pydict" where
  "pass2_step uncapped_weight surplus d m =
     (let extra = fmul (int_quot (dp_priority d) uncapped_weight) surplus;
          new_alloc = fadd (dget_default m (dp_chain_id d) (Fin 0)) extra in
      dput m (dp_chain_id d) (fmin new_alloc (dp_ceiling_usd d)))"

definition pass2 :: "allocation \<Rightarrow> (string, pyfloat) pydict" where
  "pass2 st =
     (if flt ARB_EPS (al_surplus st) \<and> al_uncapped st \<noteq> []
      then (let w = sum_list (map dp_priority (al_uncapped st)) in
            if flt ARB_EPS (Fin (of_int w))
            then fold (pass2_step w (al_surplus st)) (al_uncapped st) (al_alloc st)
            else al_alloc st)
      else al_alloc st)"

definition raise_to_min ::
  "nat \<Rightarrow> pyfloat \<Rightarrow> (string, pyfloat) pydict \<Rightarrow> (string, pyfloat) pydict" where
  "raise_to_min n b m =
     (if fle (fmul (rnd (of_nat n)) MIN_ALLOCATION_USD) b
      then map (\<lambda>(k, v). (k, fmax v MIN_ALLOCATION_USD)) m else m)"

definition clamp_total :: "pyfloat \<Rightarrow> (string, pyfloat) pydict \<Rightarrow> (string, pyfloat) pydict result" where
  "clamp_total b m =
     (let total = fsum (dvalues m) in
      if flt (fadd b ARB_EPS) total
      then rbind (fdiv b total) (\<lambda>scale. Inr (map (\<lambda>(k, v). (k, fmul v scale)) m))
      else Inr m)"

definition proportional_allocate ::
  "desired_policy list \<Rightarrow> pyfloat \<Rightarrow> (string, pyfloat) pydict result" where
  "proportional_allocate el b = clamp_total b (raise_to_min (length el) b (pass2 (pass1 el b)))"

definition desire_map :: "desired_policy list \<Rightarrow> (string, desired_policy) pydict" where
  "desire_map el = fold (\<lambda>d m. dput m (dp_chain_id d) d) el []"

definition proportional_arbitrate ::
  "pyfloat \<Rightarrow> desired_policy list \<Rightarrow> pyfloat \<Rightarrow> (string, policy_config) pydict result" where
  "proportional_arbitrate now ds b =
     (let el = eligible ds in
      if ds = [] \<or> el = [] \<or> flt (Fin (of_int (sum_list (map dp_priority el)))) ARB_EPS
      then Inr []
      else rbind (proportional_allocate el b) (\<lambda>allocations.
        rmap (\<lambda>(c, alloc).
          case dget (desire_map el) c of
            None \<Rightarrow> Inl KeyError
          | Some d \<Rightarrow> Inr (c, (config_of_desire d alloc now ''0.2.0'')\<lparr>pc_chain_id := c\<rparr>))
        allocations))"

subsection \<open>Bounds\<close>

lemma set_dput: "x \<in> set (dput m k v) \<Longrightarrow> x = (k, v) \<or> x \<in> set m"
  by (induction m) (auto split: if_splits)

definition entry_ok :: "desired_policy list \<Rightarrow> pyfloat \<Rightarrow> string \<times> pyfloat \<Rightarrow> bool" where
  "entry_ok el low = (\<lambda>(c, v). nonneg_float v \<and> is_double v \<and>
     (\<exists>d \<in> set el. dp_chain_id d = c \<and> fle v (fmax (dp_ceiling_usd d) low)))"

definition sane_desire :: "desired_policy \<Rightarrow> bool" where
  "sane_desire d \<longleftrightarrow> isfinite (dp_ceiling_usd d) \<and> nonneg_float (dp_ceiling_usd d) \<and>
     is_double (dp_ceiling_usd d)"

lemma MIN_ALLOCATION_nonneg: "nonneg_float MIN_ALLOCATION_USD"
  by (simp add: MIN_ALLOCATION_USD_def flit_def rnd_nonneg)

lemma MIN_ALLOCATION_double [simp]: "is_double MIN_ALLOCATION_USD"
  by (simp add: MIN_ALLOCATION_USD_def)

lemma ARB_EPS_nonneg: "nonneg_float ARB_EPS"
  by (simp add: ARB_EPS_def flit_def rnd_nonneg)

lemma int_quot_pos:
  assumes "0 < p" "p \<le> w" "w \<le> 2 ^ 53"
  shows "\<exists>q. int_quot p w = Fin q \<and> 0 < q \<and> q \<le> 1"
proof -
  have rep: "is_double (Fin (pow2 (- 53)))"
    unfolding is_double_Fin is_rep_def
    by (intro conjI exI [of _ "1 :: int"] exI [of _ "- 53 :: int"])
      (simp_all add: pow2_strict_mono)
  have one: "1 \<le> (of_int p :: rat)" using assms(1) by simp
  have w: "(of_int w :: rat) \<le> 2 ^ 53"
    using assms(3) by (metis of_int_le_iff of_int_numeral of_int_power)
  have "pow2 (- 53) = 1 / 2 ^ 53" by (simp add: pow2_def)
  also have "\<dots> \<le> of_int p / of_int w"
    using one w assms(1,2) by (intro frac_le) auto
  finally have low: "fle (Fin (pow2 (- 53))) (int_quot p w)"
    using rep unfolding int_quot_def by (intro rnd_ge) simp_all
  have "fle (int_quot p w) (Fin 1)"
    unfolding int_quot_def using assms rnd_mono [of "of_int p / of_int w" 1] by simp
  with low show ?thesis
    using less_le_trans [OF pow2_pos [of "- 53"]] by (cases "int_quot p w") auto
qed

lemma weight_le:
  assumes "\<And>d. d \<in> set el \<Longrightarrow> 0 < dp_priority d" "d \<in> set el"
  shows "dp_priority d \<le> sum_list (map dp_priority el)"
  using assms
proof (induction el)
  case (Cons e el)
  then have "0 \<le> sum_list (map dp_priority el)" by (intro sum_list_nonneg) (auto simp: less_imp_le)
  with Cons show ?case by (cases "d = e") force+
qed simp

text \<open>The invariant of the first pass.\<close>

definition pass1_ok :: "desired_policy list \<Rightarrow> allocation \<Rightarrow> bool" where
  "pass1_ok el st \<longleftrightarrow> (\<forall>e \<in> set (al_alloc st). entry_ok el (Fin 0) e) \<and>
     nonneg_float (al_surplus st) \<and> set (al_uncapped st) \<subseteq> set el \<and>
     (\<forall>d \<in> set (al_uncapped st). dget (al_alloc st) (dp_chain_id d) \<noteq> None)"

lemma fmax_zero: "nonneg_float x \<Longrightarrow> fmax x (Fin 0) = x"
  by (cases x) (auto simp: fmax_def)

lemma share_bounds:
  assumes "0 < p" "p \<le> w" "w \<le> 2 ^ 53" "isfinite b" "nonneg_float b" "is_double b"
  shows "isfinite (fmul (int_quot p w) b) \<and> nonneg_float (fmul (int_quot p w) b) \<and> fle (fmul (int_quot p w) b) b"
proof -
  obtain q where q: "int_quot p w = Fin q" "0 < q" "q \<le> 1" using int_quot_pos [OF assms(1-3)] by blast
  obtain v where v: "b = Fin v" "0 \<le> v" using assms(4,5) by (cases b) auto
  have "fle (fmul (Fin v) (Fin q)) (Fin v)" using fmul_le_self q v assms(6) by simp
  moreover have "nonneg_float (fmul (Fin q) (Fin v))" using q v by (simp add: rnd_nonneg)
  ultimately show ?thesis using q(1) v(1) fmul_commute [of "Fin q" "Fin v"]
    by (cases "fmul (Fin v) (Fin q)") auto
qed

lemma fsub_nonneg: "isfinite x \<Longrightarrow> isfinite y \<Longrightarrow> fle y x \<Longrightarrow> nonneg_float (fsub x y)"
  by (cases x; cases y) (auto simp: fsub_def intro: rnd_nonneg)

lemma pass1_step_ok:
  assumes "\<And>d. d \<in> set el \<Longrightarrow> 0 < dp_priority d \<and> sane_desire d"
    and "w = sum_list (map dp_priority el)" "w \<le> 2 ^ 53"
    and b: "isfinite b" "nonneg_float b" "is_double b" and d: "d \<in> set el" and ok: "pass1_ok el st"
  shows "pass1_ok el (pass1_step w b d st)"
proof -
  let ?share = "fmul (int_quot (dp_priority d) w) b"
  have share: "isfinite ?share" "nonneg_float ?share"
    using share_bounds [OF _ weight_le assms(3)[unfolded assms(2)] b] assms(1,2) d by auto
  have sane: "isfinite (dp_ceiling_usd d)" "nonneg_float (dp_ceiling_usd d)" "is_double (dp_ceiling_usd d)"
    using assms(1) d by (auto simp: sane_desire_def)
  show ?thesis
  proof (cases "flt (dp_ceiling_usd d) ?share")
    case True
    then have "nonneg_float (fsub ?share (dp_ceiling_usd d))"
      using fsub_nonneg share sane flt_imp_fle by blast
    moreover have "entry_ok el (Fin 0) (dp_chain_id d, dp_ceiling_usd d)"
      using d sane by (auto simp: entry_ok_def fmax_zero isfinite_notNaN)
    ultimately show ?thesis using ok True
      by (auto simp: pass1_ok_def pass1_step_def Let_def intro: fadd_nonneg dest!: set_dput)
  next
    case False
    then have "fle ?share (dp_ceiling_usd d)" using share sane by (simp add: not_flt isfinite_notNaN)
    then have "entry_ok el (Fin 0) (dp_chain_id d, ?share)"
      using d sane share by (auto simp: entry_ok_def fmax_zero)
    then show ?thesis using ok d False
      by (auto simp: pass1_ok_def pass1_step_def Let_def dest!: set_dput)
  qed
qed

lemma pass1_ok:
  assumes "\<And>d. d \<in> set el \<Longrightarrow> 0 < dp_priority d \<and> sane_desire d"
    and "sum_list (map dp_priority el) \<le> 2 ^ 53" "isfinite b" "nonneg_float b" "is_double b"
  shows "pass1_ok el (pass1 el b)"
  unfolding pass1_def
proof (rule fold_invariant [where Q = "\<lambda>d. d \<in> set el"])
  show "pass1_ok el \<lparr>al_alloc = [], al_surplus = Fin 0, al_uncapped = []\<rparr>"
    by (simp add: pass1_ok_def)
  show "pass1_ok el (pass1_step (sum_list (map dp_priority el)) b d st)"
    if "d \<in> set el" "pass1_ok el st" for d st
    by (rule pass1_step_ok [OF _ refl assms(2-5) that]) (rule assms(1))
qed

lemma pass2_ok:
  assumes el: "\<And>d. d \<in> set el \<Longrightarrow> 0 < dp_priority d \<and> sane_desire d"
    and w: "sum_list (map dp_priority (al_uncapped st)) \<le> 2 ^ 53" and ok: "pass1_ok el st"
  shows "\<forall>e \<in> set (pass2 st). entry_ok el (Fin 0) e"
proof -
  let ?w = "sum_list (map dp_priority (al_uncapped st))"
  let ?P = "\<lambda>m. (\<forall>e \<in> set m. entry_ok el (Fin 0) e)"
  have sub: "set (al_uncapped st) \<subseteq> set el" and init: "?P (al_alloc st)"
    and sur: "nonneg_float (al_surplus st)"
    using ok by (auto simp: pass1_ok_def)
  have "?P (fold (pass2_step ?w (al_surplus st)) (al_uncapped st) (al_alloc st))"
  proof (rule fold_invariant [where Q = "\<lambda>d. d \<in> set (al_uncapped st)"])
    fix d m
    assume d: "d \<in> set (al_uncapped st)" and P: "?P m"
    have "dp_priority d \<le> ?w" using weight_le [of "al_uncapped st" d] el sub d by auto
    then obtain q where q: "int_quot (dp_priority d) ?w = Fin q" "0 < q"
      using int_quot_pos [OF _ _ w, of "dp_priority d"] el sub d by auto
    have extra: "nonneg_float (fmul (int_quot (dp_priority d) ?w) (al_surplus st))"
      using sur q by (cases "al_surplus st") (auto simp: finf_def intro: rnd_nonneg)
    have old: "nonneg_float (dget_default m (dp_chain_id d) (Fin 0))"
      "is_double (dget_default m (dp_chain_id d) (Fin 0))"
      using P by (auto simp: entry_ok_def dest!: map_of_SomeD split: option.splits)
    have sane: "sane_desire d" "d \<in> set el" using el sub d by auto
    let ?new = "fadd (dget_default m (dp_chain_id d) (Fin 0)) (fmul (int_quot (dp_priority d) ?w) (al_surplus st))"
    have new: "nonneg_float ?new" using old(1) extra by (rule fadd_nonneg)
    have dbl: "is_double (fmin ?new (dp_ceiling_usd d))"
      using old(2) sane(1) by (simp add: sane_desire_def)
    have "nonneg_float (fmin ?new (dp_ceiling_usd d))"
      using new sane by (intro fmin_greatest) (auto simp: sane_desire_def)
    moreover have "fle (fmin ?new (dp_ceiling_usd d)) (dp_ceiling_usd d)"
      using new sane fle_notNaN by (intro fmin_le2) (auto simp: sane_desire_def)
    ultimately have "entry_ok el (Fin 0) (dp_chain_id d, fmin ?new (dp_ceiling_usd d))"
      using sane dbl by (auto simp: entry_ok_def fmax_zero sane_desire_def)
    then show "?P (pass2_step ?w (al_surplus st) d m)"
      using P by (auto simp: pass2_step_def Let_def dest!: set_dput)
  qed (use init in auto)
  then show ?thesis using init by (auto simp: pass2_def Let_def)
qed

lemma raise_to_min_ok:
  assumes el: "\<And>d. d \<in> set el \<Longrightarrow> sane_desire d"
    and m: "\<forall>e \<in> set m. entry_ok el (Fin 0) e"
  shows "\<forall>e \<in> set (raise_to_min n b m). entry_ok el MIN_ALLOCATION_USD e"
proof -
  have up: "entry_ok el MIN_ALLOCATION_USD (c, v)"
    "entry_ok el MIN_ALLOCATION_USD (c, fmax v MIN_ALLOCATION_USD)"
    if "entry_ok el (Fin 0) (c, v)" for c v
  proof -
    note entry = that
    obtain d where d: "d \<in> set el" "dp_chain_id d = c" "fle v (dp_ceiling_usd d)" "nonneg_float v" "is_double v"
      using entry el by (auto simp: entry_ok_def fmax_zero sane_desire_def)
    let ?top = "fmax (dp_ceiling_usd d) MIN_ALLOCATION_USD"
    have notNaN: "dp_ceiling_usd d \<noteq> NaN" "v \<noteq> NaN" "MIN_ALLOCATION_USD \<noteq> NaN"
      using d MIN_ALLOCATION_nonneg fle_notNaN by blast+
    have "fle v ?top" using d(3) fmax_ge1 notNaN fle_trans by blast
    moreover have "fle (fmax v MIN_ALLOCATION_USD) ?top"
      using \<open>fle v ?top\<close> fmax_ge2 notNaN by (intro fmax_least) auto
    moreover have "nonneg_float (fmax v MIN_ALLOCATION_USD)"
      using d(4) fmax_ge1 notNaN fle_trans by blast
    ultimately show "entry_ok el MIN_ALLOCATION_USD (c, v)"
      "entry_ok el MIN_ALLOCATION_USD (c, fmax v MIN_ALLOCATION_USD)"
      using d by (auto simp: entry_ok_def)
  qed
  show ?thesis using m up by (auto simp: raise_to_min_def)
qed

lemma entry_finite:
  assumes "entry_ok el low (c, v)" "isfinite low" "\<And>d. d \<in> set el \<Longrightarrow> sane_desire d"
  shows "isfinite v"
proof -
  obtain d where "d \<in> set el" "fle v (fmax (dp_ceiling_usd d) low)" "nonneg_float v"
    using assms(1) by (auto simp: entry_ok_def)
  moreover have "isfinite (fmax (dp_ceiling_usd d) low)"
    using assms(2) assms(3) [OF \<open>d \<in> set el\<close>] fmax_in [of "dp_ceiling_usd d" low]
    by (auto simp: sane_desire_def)
  ultimately show ?thesis by (cases v; cases "fmax (dp_ceiling_usd d) low") auto
qed

lemma clamp_total_ok:
  assumes m: "\<forall>e \<in> set m. entry_ok el low e" and b: "isfinite b" "nonneg_float b" "is_double b"
    and clamp: "clamp_total b m = Inr m'"
    and fin: "\<And>c v. (c, v) \<in> set m \<Longrightarrow> isfinite v"
  shows "\<forall>e \<in> set m'. entry_ok el low e"
proof (cases "flt (fadd b ARB_EPS) (fsum (dvalues m))")
  case False
  then show ?thesis using assms by (simp add: clamp_total_def)
next
  case True
  let ?t = "fsum (dvalues m)"
  have "fle b (fadd b ARB_EPS)" using b ARB_EPS_nonneg by (cases b) (auto intro!: fadd_ge1)
  then have pos: "flt b ?t" "flt (Fin 0) ?t"
    using True b by (blast intro: fle_flt_trans)+
  then have s: "m' = map (\<lambda>(k, v). (k, fmul v (fquot b ?t))) m"
    using clamp True pos(2)
    by (auto simp: clamp_total_def fdiv_def Let_def rbind_Inr_iff split: if_splits)
  have "nonneg_float (fquot b ?t)" using b pos(2) by (cases b; cases ?t) (auto intro: rnd_nonneg)
  then obtain q where q: "fquot b ?t = Fin q" "0 \<le> q" "fle (Fin q) (Fin 1)"
    using fquot_le_1 [OF b(1) pos] by (cases "fquot b ?t") auto
  have "entry_ok el low (c, fmul v (Fin q))" if v: "(c, v) \<in> set m" for c v
  proof -
    have e: "entry_ok el low (c, v)" using m v by auto
    then have v': "isfinite v" "nonneg_float v" "is_double v" using fin v by (auto simp: entry_ok_def)
    then have "fle (fmul v (Fin q)) v" using q(3) by (intro scaled_le) auto
    moreover have "nonneg_float (fmul v (Fin q))" using v' q(2) by (cases v) (auto intro: rnd_nonneg)
    ultimately show ?thesis using e by (auto simp: entry_ok_def intro: fle_trans)
  qed
  then show ?thesis using s q(1) by auto
qed

lemma clamp_total_ok_ex: "b \<noteq> NaN \<Longrightarrow> nonneg_float b \<Longrightarrow> \<exists>m'. clamp_total b m = Inr m'"
proof -
  assume b: "nonneg_float b"
  have "flt (fadd b ARB_EPS) (Fin 0) \<Longrightarrow> False"
    using fadd_nonneg [OF b ARB_EPS_nonneg] by (cases "fadd b ARB_EPS") auto
  then show ?thesis by (auto simp: clamp_total_def fdiv_def Let_def)
qed

lemma MIN_ALLOCATION_finite: "isfinite MIN_ALLOCATION_USD"
  unfolding MIN_ALLOCATION_USD_def flit_def by (rule rnd_finite_bound [of _ 1]) auto

lemma pass1_uncapped:
  "al_uncapped (fold (pass1_step w b) el st) = al_uncapped st @
     filter (\<lambda>d. \<not> flt (dp_ceiling_usd d) (fmul (int_quot (dp_priority d) w) b)) el"
  by (induction el arbitrary: st) (auto simp: pass1_step_def Let_def)

lemma sum_list_filter_le:
  "(\<And>x. x \<in> set xs \<Longrightarrow> 0 \<le> f x) \<Longrightarrow> sum_list (map f (filter P xs)) \<le> (sum_list (map f xs) :: int)"
  by (induction xs) (auto simp: add_increasing)

lemma proportional_allocate_ok:
  assumes el: "\<And>d. d \<in> set el \<Longrightarrow> 0 < dp_priority d \<and> sane_desire d"
    and w: "sum_list (map dp_priority el) \<le> 2 ^ 53" and b: "isfinite b" "nonneg_float b" "is_double b"
    and m: "proportional_allocate el b = Inr m"
  shows "\<forall>e \<in> set m. entry_ok el MIN_ALLOCATION_USD e"
proof -
  have ok1: "pass1_ok el (pass1 el b)" by (rule pass1_ok [OF el w b])
  have "sum_list (map dp_priority (al_uncapped (pass1 el b))) \<le> sum_list (map dp_priority el)"
    unfolding pass1_def pass1_uncapped using el by (auto intro!: sum_list_filter_le simp: less_imp_le)
  then have "sum_list (map dp_priority (al_uncapped (pass1 el b))) \<le> 2 ^ 53" using w by simp
  then have "\<forall>e \<in> set (pass2 (pass1 el b)). entry_ok el (Fin 0) e"
    using pass2_ok [OF el _ ok1] by blast
  then have "\<forall>e \<in> set (raise_to_min (length el) b (pass2 (pass1 el b))). entry_ok el MIN_ALLOCATION_USD e"
    using raise_to_min_ok el by blast
  moreover note MIN_ALLOCATION_finite
  ultimately show ?thesis
    using clamp_total_ok [OF _ b m [unfolded proportional_allocate_def]] entry_finite el by blast
qed

lemma desire_map_get:
  "dget (desire_map el) c = find (\<lambda>d. dp_chain_id d = c) (rev el)"
  by (simp add: desire_map_def dget_fold_dput split: option.splits)

lemma rmap_entries:
  "rmap f xs = Inr ys \<Longrightarrow> y \<in> set ys \<Longrightarrow> \<exists>x \<in> set xs. f x = Inr y"
  by (induction xs arbitrary: ys) (auto simp: rbind_Inr_iff)

lemma proportional_entry:
  assumes "proportional_arbitrate now ds b = Inr m" "(c, p) \<in> set m"
  shows "\<exists>alloc al d. proportional_allocate (eligible ds) b = Inr al \<and> (c, alloc) \<in> set al \<and>
     d \<in> set (eligible ds) \<and> dp_chain_id d = c \<and> p = config_of_desire d alloc now ''0.2.0''"
proof -
  obtain al where al: "proportional_allocate (eligible ds) b = Inr al"
    "rmap (\<lambda>(c, alloc). case dget (desire_map (eligible ds)) c of
         None \<Rightarrow> Inl KeyError
       | Some d \<Rightarrow> Inr (c, (config_of_desire d alloc now ''0.2.0'')\<lparr>pc_chain_id := c\<rparr>)) al = Inr m"
    using assms by (auto simp: proportional_arbitrate_def Let_def rbind_Inr_iff split: if_splits)
  obtain alloc d where d: "(c, alloc) \<in> set al" "dget (desire_map (eligible ds)) c = Some d"
    "p = (config_of_desire d alloc now ''0.2.0'')\<lparr>pc_chain_id := c\<rparr>"
    using rmap_entries [OF al(2) assms(2)] by (auto split: option.splits)
  then have "d \<in> set (eligible ds)" "dp_chain_id d = c"
    by (auto simp: desire_map_get find_Some_iff) (metis length_rev nth_mem set_rev)
  with d al(1) show ?thesis
    by (auto simp: config_of_desire_def new_policy_config_def)
qed

text \<open>
  Every allocation is non-negative and at most the ceiling some eligible desire of that chain
  asked for, or the minimum allocation when that is larger.
\<close>

lemma proportional_bounds:
  assumes "proportional_arbitrate now ds b = Inr m" "(c, p) \<in> set m"
    and "\<And>d. d \<in> set ds \<Longrightarrow> sane_desire d"
    and "sum_list (map dp_priority (eligible ds)) \<le> 2 ^ 53"
    and "isfinite b" "nonneg_float b" "is_double b"
  shows "\<exists>x. pc_ceiling_usd p = VFloat x \<and> isfinite x \<and> nonneg_float x \<and>
    (\<exists>d \<in> set ds. 0 < dp_priority d \<and> dp_chain_id d = c \<and>
       fle x (fmax (dp_ceiling_usd d) MIN_ALLOCATION_USD))"
proof -
  obtain alloc al d where al: "proportional_allocate (eligible ds) b = Inr al" "(c, alloc) \<in> set al"
    "p = config_of_desire d alloc now ''0.2.0''"
    using proportional_entry [OF assms(1,2)] by blast
  have el: "0 < dp_priority d \<and> sane_desire d" if "d \<in> set (eligible ds)" for d
    using that assms(3) by (simp add: eligible_def)
  have e: "entry_ok (eligible ds) MIN_ALLOCATION_USD (c, alloc)"
    using proportional_allocate_ok [OF el assms(4-7) al(1)] al(2) by blast
  moreover have "isfinite alloc"
    using entry_finite [OF e MIN_ALLOCATION_finite] el by blast
  ultimately show ?thesis using al(3) by (auto simp: entry_ok_def eligible_def)
qed

text \<open>A negative budget (one already overspent) hands out no positive ceiling.\<close>

abbreviation nonpos :: "pyfloat \<Rightarrow> bool" where
  "nonpos x \<equiv> fle x (Fin 0)"

lemma fsum_nonpos: "\<forall>x \<in> set xs. nonpos x \<Longrightarrow> nonpos (fsum xs)"
proof (induction xs rule: rev_induct)
  case (snoc x xs)
  then have "nonpos (fsum xs)" "nonpos x" by simp_all
  moreover have "nonpos (fadd a b)" if "nonpos a" "nonpos b" for a b
    using that rnd_mono [of _ 0] by (cases a; cases b) auto
  ultimately show ?case by (simp add: fsum_def)
qed (simp add: fsum_def)

lemma pass1_negative:
  assumes el: "\<And>d. d \<in> set el \<Longrightarrow> 0 < dp_priority d \<and> sane_desire d"
    and w: "sum_list (map dp_priority el) \<le> 2 ^ 53" and b: "b = Fin q" "q < 0"
  shows "al_surplus (pass1 el b) = Fin 0 \<and> (\<forall>e \<in> set (al_alloc (pass1 el b)). nonpos (snd e))"
proof -
  let ?w = "sum_list (map dp_priority el)"
  let ?P = "\<lambda>st :: allocation. al_surplus st = Fin 0 \<and> (\<forall>e \<in> set (al_alloc st). nonpos (snd e))"
  show ?thesis unfolding pass1_def
  proof (rule fold_invariant [where Q = "\<lambda>d. d \<in> set el" and P = ?P])
    fix d st
    assume d: "d \<in> set el" and st: "?P st"
    have "dp_priority d \<le> ?w" using weight_le [OF _ d] el by auto
    then obtain r where r: "int_quot (dp_priority d) ?w = Fin r" "0 < r"
      using int_quot_pos [OF _ _ w, of "dp_priority d"] el [OF d] by blast
    let ?share = "fmul (int_quot (dp_priority d) ?w) b"
    have share: "nonpos ?share"
      using rnd_mono [of "r * q" 0] r b by (simp add: mult_le_0_iff)
    have "fle (Fin 0) (dp_ceiling_usd d)" using el [OF d] by (simp add: sane_desire_def)
    then have "fle ?share (dp_ceiling_usd d)" using share fle_trans by blast
    then have "\<not> flt (dp_ceiling_usd d) ?share" by (cases "dp_ceiling_usd d"; cases ?share) auto
    then show "?P (pass1_step ?w b d st)"
      using st share by (auto simp: pass1_step_def Let_def dest!: set_dput)
  qed auto
qed

lemma clamp_total_negative:
  assumes m: "\<forall>e \<in> set m. nonpos (snd e)" and b: "b = Fin q" "q < 0" and clamp: "clamp_total b m = Inr m'"
  shows "\<forall>e \<in> set m'. \<not> flt (Fin 0) (snd e)"
proof (cases "flt (fadd b ARB_EPS) (fsum (dvalues m))")
  case False
  have "\<not> flt (Fin 0) v" if "nonpos v" for v using that by (cases v) auto
  with False show ?thesis using m clamp by (simp add: clamp_total_def)
next
  case True
  have "nonpos (fsum (dvalues m))" using m by (intro fsum_nonpos) (auto simp: dvalues_def)
  with True obtain t where t: "fsum (dvalues m) = Fin t" "t \<le> 0" by (cases "fsum (dvalues m)") auto
  then have neg: "t < 0" and m': "m' = map (\<lambda>(k, v). (k, fmul v (rnd (q / t)))) m"
    using clamp True b by (auto simp: clamp_total_def fdiv_def Let_def rbind_Inr_iff split: if_splits)
  have s: "nonneg_float (rnd (q / t))" using neg b by (intro rnd_nonneg) (simp add: divide_nonpos_nonpos)
  have "\<not> flt (Fin 0) (fmul v (rnd (q / t)))" if "nonpos v" for v
  proof (cases v; cases "rnd (q / t)")
    fix a r assume v: "v = Fin a" "rnd (q / t) = Fin r"
    then have "a * r \<le> 0" using s that by (simp add: mult_nonpos_nonneg)
    then have "nonpos (rnd (a * r))" using rnd_mono [of "a * r" 0] by simp
    then show ?thesis using v by (cases "rnd (a * r)") auto
  qed (use s that in \<open>auto simp: finf_def\<close>)
  then show ?thesis using m by (auto simp: m')
qed

lemma proportional_negative:
  assumes arb: "proportional_arbitrate now ds b = Inr m" "(c, p) \<in> set m"
    and "\<And>d. d \<in> set ds \<Longrightarrow> sane_desire d"
    and w: "sum_list (map dp_priority (eligible ds)) \<le> 2 ^ 53" and b: "isfinite b" "\<not> nonneg_float b"
  shows "\<exists>x. pc_ceiling_usd p = VFloat x \<and> \<not> flt (Fin 0) x"
proof -
  obtain q where q: "b = Fin q" "q < 0" using b by (cases b) auto
  obtain alloc al d where al: "proportional_allocate (eligible ds) b = Inr al" "(c, alloc) \<in> set al"
    "p = config_of_desire d alloc now ''0.2.0''"
    using proportional_entry [OF arb] by blast
  have el: "0 < dp_priority d \<and> sane_desire d" if "d \<in> set (eligible ds)" for d
    using that assms(3) by (simp add: eligible_def)
  note p1 = pass1_negative [OF el w q]
  have "\<not> flt ARB_EPS (Fin 0)" using ARB_EPS_nonneg by (auto simp: fle_def)
  then have p2: "pass2 (pass1 (eligible ds) b) = al_alloc (pass1 (eligible ds) b)" using p1 by (simp add: pass2_def)
  have "\<not> fle (fmul (rnd (of_nat n)) MIN_ALLOCATION_USD) b" for n
  proof -
    have "\<not> flt (fmul x y) (Fin 0)" if xy: "nonneg_float x" "nonneg_float y" for x y
    proof (cases x; cases y)
      fix a c assume "x = Fin a" "y = Fin c"
      then show ?thesis using xy rnd_nonneg [of "a * c"] by (cases "rnd (a * c)") auto
    qed (use xy in \<open>auto simp: finf_def\<close>)
    moreover have "nonneg_float (rnd (of_nat n))" by (rule rnd_nonneg) simp
    ultimately have "\<not> flt (fmul (rnd (of_nat n)) MIN_ALLOCATION_USD) (Fin 0)"
      using MIN_ALLOCATION_nonneg by blast
    then show ?thesis using q fle_flt_trans [of _ "Fin q" "Fin 0"] by auto
  qed
  then have "raise_to_min (length (eligible ds)) b (pass2 (pass1 (eligible ds) b)) = al_alloc (pass1 (eligible ds) b)"
    by (simp add: raise_to_min_def p2)
  then have "\<forall>e \<in> set al. \<not> flt (Fin 0) (snd e)"
    using clamp_total_negative [OF _ q, of "al_alloc (pass1 (eligible ds) b)" al] p1 al(1)
    by (simp add: proportional_allocate_def)
  then show ?thesis using al(2,3) by auto
qed

lemma proportional_excludes:
  assumes "proportional_arbitrate now ds b = Inr m" "(c, p) \<in> set m"
  shows "\<exists>d \<in> set ds. 0 < dp_priority d \<and> dp_chain_id d = c \<and> carries d p"
  using proportional_entry [OF assms] by (auto simp: eligible_def)

text \<open>For one desire the allocation is the smaller of its ceiling and the budget.\<close>

lemma proportional_single:
  assumes "0 < dp_priority d" "isfinite (dp_ceiling_usd d)" "is_double (dp_ceiling_usd d)"
    and b: "isfinite b" "is_double b"
  shows "pass2 (pass1 [d] b) = [(dp_chain_id d, fmin b (dp_ceiling_usd d))]"
proof -
  have "int_quot (dp_priority d) (dp_priority d) = Fin 1" using assms(1) by (simp add: int_quot_def)
  moreover have "fmul (Fin 1) b = b" using b(2) by simp
  moreover have "\<not> flt ARB_EPS (Fin 0)"
    using ARB_EPS_nonneg by (auto simp: fle_def)
  ultimately show ?thesis
    by (simp add: pass1_def pass1_step_def pass2_def Let_def fmin_def)
qed

lemma proportional_single_cap:
  assumes "proportional_arbitrate now [d] b = Inr m" "dget m c = Some p"
    and b: "isfinite b" "is_double b" and d: "isfinite (dp_ceiling_usd d)" "is_double (dp_ceiling_usd d)"
    "nonneg_float (dp_ceiling_usd d)"
  shows "\<exists>x. pc_ceiling_usd p = VFloat x \<and> fle x (fmax (dp_ceiling_usd d) MIN_ALLOCATION_USD)"
proof -
  obtain alloc al where al: "proportional_allocate (eligible [d]) b = Inr al" "(c, alloc) \<in> set al"
    "p = config_of_desire d alloc now ''0.2.0''" "0 < dp_priority d"
    using proportional_entry [OF assms(1) map_of_SomeD [OF assms(2)]]
    by (auto simp: eligible_def split: if_splits)
  let ?v = "fmin b (dp_ceiling_usd d)"
  let ?top = "fmax (dp_ceiling_usd d) MIN_ALLOCATION_USD"
  have notNaN: "b \<noteq> NaN" "dp_ceiling_usd d \<noteq> NaN" "MIN_ALLOCATION_USD \<noteq> NaN" "?v \<noteq> NaN"
    using b d MIN_ALLOCATION_finite fmin_notNaN by (auto simp: isfinite_notNaN)
  have dbl: "is_double ?v" using b d by simp
  have v_le: "fle ?v b" "fle ?v (dp_ceiling_usd d)"
    using fmin_le1 fmin_le2 notNaN by blast+
  have "fle ?v ?top" using v_le(2) fmax_ge1 notNaN fle_trans by blast
  moreover from this have "fle (fmax ?v MIN_ALLOCATION_USD) ?top"
    using fmax_ge2 notNaN by (intro fmax_least) auto
  moreover have "alloc = ?v \<or> alloc = fmax ?v MIN_ALLOCATION_USD"
  proof -
    define w where "w = (if fle MIN_ALLOCATION_USD b then fmax ?v MIN_ALLOCATION_USD else ?v)"
    have w: "fle w b" "is_double w"
      using v_le(1) dbl by (auto simp: w_def intro: fmax_least)
    have "fle b (fadd b ARB_EPS)"
      using b ARB_EPS_nonneg by (cases b) (auto intro!: fadd_ge1)
    then have "\<not> flt (fadd b ARB_EPS) w"
      using w(1) by (metis fle_def fle_trans)
    moreover have "raise_to_min (length (eligible [d])) b (pass2 (pass1 (eligible [d]) b)) =
        [(dp_chain_id d, w)]"
      using proportional_single [OF al(4) d(1,2) b] al(4)
      by (simp add: eligible_def raise_to_min_def w_def)
    ultimately have "al = [(dp_chain_id d, w)]"
      using al(1) w(2) by (simp add: proportional_allocate_def clamp_total_def Let_def dvalues_def fsum_def)
    then show ?thesis using al(2) by (auto simp: w_def)
  qed
  ultimately show ?thesis using al(3) by auto
qed

interpretation proportional: arbiter_contract
  "\<lambda>now ds b. (proportional_arbitrate now ds b, now)" "\<lambda>_. True" "\<lambda>c. fmax c MIN_ALLOCATION_USD"
proof (unfold_locales, goal_cases)
  case (2 s ds b m c p)
  then show ?case using proportional_excludes map_of_SomeD by fastforce
next
  case (3 s d b m c p)
  then show ?case using proportional_single_cap by simp
qed simp

end
