(* ===== verification/Redis_Arbiter.thy ===== *)
theory Redis_Arbiter
  imports Arbiters
begin

text \<open>
  \<open>RedisArbiter\<close> (\<open>veronica/redis_arbiter.py\<close>) and its two Lua scripts
  (\<open>veronica/_redis_scripts.py\<close>). A budget scope is a store with the remaining budget in
  micro-dollars and the open reservations by \<open>request:step\<close>; each script is one atomic
  operation on it. Amounts are integers (below \<open>10^14\<close>, where Lua prints its numbers exactly).
  Whether a script call fails, and whether it does so before or after the script ran, is a
  parameter. A key that reaches its TTL is removed by \<open>expire\<close>.
\<close>

record redis_store =
  rs_remaining :: "int option"
  rs_alloc :: "(string, int) pydict"

definition empty_redis :: redis_store where
  "empty_redis = \<lparr>rs_remaining = None, rs_alloc = []\<rparr>"

section \<open>Conversions\<close>

definition MICRO :: int where "MICRO = 1000000"

definition to_micro :: "pyfloat \<Rightarrow> int result" where
  "to_micro usd = fround (fmul usd (Fin (of_int MICRO)))"

definition from_micro :: "int \<Rightarrow> pyfloat" where
  "from_micro m = rnd (of_int m / of_int MICRO)"

definition alloc_key :: "string \<Rightarrow> string \<Rightarrow> string" where
  "alloc_key request_id step_id = request_id @ '':'' @ step_id"

section \<open>The scripts\<close>

datatype reserve_reply =
    Reserved int \<comment> \<open>the stored record: this call's, or that of an earlier call for the key\<close>
  | Insufficient int int \<comment> \<open>remaining, requested\<close>

definition lua_reserve ::
  "string \<Rightarrow> int \<Rightarrow> int \<Rightarrow> redis_store \<Rightarrow> reserve_reply \<times> redis_store" where
  "lua_reserve key reserve budget s =
     (case dget (rs_alloc s) key of
        Some r \<Rightarrow> (Reserved r, s)
      | None \<Rightarrow>
          (let remaining = (case rs_remaining s of None \<Rightarrow> budget | Some n \<Rightarrow> n);
               s1 = s\<lparr>rs_remaining := Some remaining\<rparr> in
           if remaining < reserve then (Insufficient remaining reserve, s1)
           else (Reserved reserve,
                 s1\<lparr>rs_alloc := dput (rs_alloc s1) key reserve,
                    rs_remaining := Some (remaining - reserve)\<rparr>)))"

datatype settle_reply = Expired int | Settled int

definition lua_settle :: "string \<Rightarrow> int \<Rightarrow> redis_store \<Rightarrow> settle_reply \<times> redis_store" where
  "lua_settle key actual s =
     (let remaining = (case rs_remaining s of None \<Rightarrow> 0 | Some n \<Rightarrow> n) in
      case dget (rs_alloc s) key of
        None \<Rightarrow> (Expired actual, s\<lparr>rs_remaining := Some (max 0 (remaining - actual))\<rparr>)
      | Some reserved \<Rightarrow>
          (let diff = reserved - actual;
               s1 = (if 0 < diff then s\<lparr>rs_remaining := Some (remaining + diff)\<rparr>
                     else if diff < 0 then s\<lparr>rs_remaining := Some (max 0 (remaining + diff))\<rparr>
                     else s) in
           (Settled diff, s1\<lparr>rs_alloc := ddel (rs_alloc s1) key\<rparr>)))"

definition expire :: "string \<Rightarrow> redis_store \<Rightarrow> redis_store" where
  "expire key s = s\<lparr>rs_alloc := ddel (rs_alloc s) key\<rparr>"

section \<open>The arbiter\<close>

datatype redis_io = Call_ok | Lost_before | Lost_after

record redis_arbiter =
  ra_total_micro :: int
  ra_request_id :: "string option"
  ra_step_id :: "string option"
  ra_now :: pyfloat
  ra_io :: redis_io
  ra_store :: redis_store

definition set_arbitration_context :: "string \<Rightarrow> string \<Rightarrow> redis_arbiter \<Rightarrow> redis_arbiter" where
  "set_arbitration_context request_id step_id a =
     a\<lparr>ra_request_id := Some request_id, ra_step_id := Some step_id\<rparr>"

definition call_script :: "redis_io \<Rightarrow> (redis_store \<Rightarrow> 'r \<times> redis_store) \<Rightarrow> redis_store \<Rightarrow> 'r result \<times> redis_store" where
  "call_script io f s = (case io of
     Call_ok \<Rightarrow> (let (r, s') = f s in (Inr r, s'))
   | Lost_before \<Rightarrow> (Inl RedisError, s)
   | Lost_after \<Rightarrow> (Inl RedisError, snd (f s)))"

definition arbitrate_redis ::
  "redis_arbiter \<Rightarrow> desired_policy list \<Rightarrow> string \<Rightarrow> string \<Rightarrow>
   (string, policy_config) pydict result \<times> redis_arbiter" where
  "arbitrate_redis a ds request_id step_id =
     (case ds of
        [] \<Rightarrow> (Inr [], a)
      | d # _ \<Rightarrow>
          (case to_micro (dp_ceiling_usd d) of
             Inl e \<Rightarrow> (Inl e, a)
           | Inr reserve \<Rightarrow>
               (let (reply, s) = call_script (ra_io a)
                       (lua_reserve (alloc_key request_id step_id) reserve (ra_total_micro a)) (ra_store a) in
                (rbind reply (\<lambda>r.
                   let ceiling = (case r of Insufficient remaining _ \<Rightarrow> from_micro remaining
                                          | Reserved _ \<Rightarrow> dp_ceiling_usd d) in
                   Inr [(dp_chain_id d, config_of_desire d ceiling (ra_now a) ''0.3.0'')]),
                 a\<lparr>ra_store := s\<rparr>))))"

definition redis_arbitrate ::
  "redis_arbiter \<Rightarrow> desired_policy list \<Rightarrow> pyfloat \<Rightarrow>
   (string, policy_config) pydict result \<times> redis_arbiter" where
  "redis_arbitrate a ds b =
     (case (ra_request_id a, ra_step_id a) of
        (Some r, Some t) \<Rightarrow>
          (let (res, a') = arbitrate_redis a ds r t in
           if res = Inl RedisError then (proportional_arbitrate (ra_now a) ds b, a') else (res, a'))
      | _ \<Rightarrow> (proportional_arbitrate (ra_now a) ds b, a))"

definition redis_settle :: "redis_arbiter \<Rightarrow> string \<Rightarrow> string \<Rightarrow> pyfloat \<Rightarrow> unit result \<times> redis_arbiter" where
  "redis_settle a request_id step_id actual_cost =
     (case to_micro (if isfinite actual_cost then actual_cost else Fin 0) of
        Inl e \<Rightarrow> (Inl e, a)
      | Inr actual \<Rightarrow>
          (let (_, s) = call_script (ra_io a) (lua_settle (alloc_key request_id step_id) actual) (ra_store a) in
           (Inr (), a\<lparr>ra_store := s\<rparr>)))"

subsection \<open>As an arbiter\<close>

definition redis_cap :: "pyfloat \<Rightarrow> pyfloat" where
  "redis_cap c = fmax (fmax c MIN_ALLOCATION_USD)
     (case to_micro c of Inr m \<Rightarrow> from_micro m | Inl _ \<Rightarrow> c)"

lemma from_micro_mono: "m \<le> n \<Longrightarrow> fle (from_micro m) (from_micro n)"
  unfolding from_micro_def by (rule rnd_mono) (simp add: divide_right_mono MICRO_def)

lemma from_micro_notNaN [simp]: "from_micro m \<noteq> NaN"
  by (simp add: from_micro_def)

lemma lua_reserve_insufficient:
  "lua_reserve key reserve budget s = (Insufficient n m, s') \<Longrightarrow> n < reserve"
  by (auto simp: lua_reserve_def Let_def split: option.splits if_splits)

lemma config_of_desire_eq [simp]:
  "config_of_desire d c now v = config_of_desire d c' now v \<longleftrightarrow> c = c'"
  by (auto simp: config_of_desire_def new_policy_config_def)

lemma arbitrate_redis_single:
  assumes "fst (arbitrate_redis a ds r t) = Inr m" "dget m c = Some p"
  shows "\<exists>d ds' micro ceiling. ds = d # ds' \<and> dp_chain_id d = c \<and> to_micro (dp_ceiling_usd d) = Inr micro \<and>
     p = config_of_desire d ceiling (ra_now a) ''0.3.0'' \<and>
     (ceiling = dp_ceiling_usd d \<or> (\<exists>n < micro. ceiling = from_micro n))"
  using assms
  by (auto simp: arbitrate_redis_def call_script_def rbind_Inr_iff Let_def
      split: list.splits sum.splits prod.splits redis_io.splits if_splits reserve_reply.splits
      dest!: lua_reserve_insufficient)

lemma redis_cap_ge:
  assumes "isfinite c"
  shows "fle c (redis_cap c)" "fle (fmax c MIN_ALLOCATION_USD) (redis_cap c)"
    and "to_micro c = Inr m \<Longrightarrow> fle (from_micro m) (redis_cap c)"
proof -
  have n: "c \<noteq> NaN" "fmax c MIN_ALLOCATION_USD \<noteq> NaN" using assms by (auto simp: isfinite_notNaN fmax_notNaN)
  then show 2: "fle (fmax c MIN_ALLOCATION_USD) (redis_cap c)"
    unfolding redis_cap_def by (intro fmax_ge1)
  have "fle c (fmax c MIN_ALLOCATION_USD)" using n by (intro fmax_ge1)
  then show "fle c (redis_cap c)" using 2 by (rule fle_trans)
  show "to_micro c = Inr m \<Longrightarrow> fle (from_micro m) (redis_cap c)"
    unfolding redis_cap_def using n by (auto intro: fmax_ge2)
qed

lemma redis_arbitrate_cases:
  assumes "fst (redis_arbitrate a ds b) = Inr m"
  shows "proportional_arbitrate (ra_now a) ds b = Inr m \<or>
    (\<exists>r t. fst (arbitrate_redis a ds r t) = Inr m)"
proof (cases "ra_request_id a = None \<or> ra_step_id a = None")
  case False
  then obtain r t where "ra_request_id a = Some r" "ra_step_id a = Some t" by auto
  moreover obtain res a' where "arbitrate_redis a ds r t = (res, a')" by fastforce
  ultimately have "proportional_arbitrate (ra_now a) ds b = Inr m \<or> fst (arbitrate_redis a ds r t) = Inr m"
    using assms by (auto simp: redis_arbitrate_def split: if_splits)
  then show ?thesis by blast
qed (use assms in \<open>auto simp: redis_arbitrate_def split: option.splits\<close>)

interpretation redis: arbiter_contract redis_arbitrate "\<lambda>_. True" redis_cap
proof (unfold_locales, goal_cases)
  case (2 s ds b m c p)
  show ?case
  proof (cases "proportional_arbitrate (ra_now s) ds b = Inr m")
    case True
    then show ?thesis using 2(3) proportional_excludes map_of_SomeD by fastforce
  next
    case False
    then obtain r t where "fst (arbitrate_redis s ds r t) = Inr m"
      using redis_arbitrate_cases [OF 2(2)] by blast
    from arbitrate_redis_single [OF this 2(3)] show ?thesis by auto
  qed
next
  case (3 s d b m c p)
  show ?case
  proof (cases "proportional_arbitrate (ra_now s) [d] b = Inr m")
    case True
    from proportional_single_cap [OF True 3(3,4,5,6,8,7)] show ?thesis
      using redis_cap_ge(2) [OF 3(6)] fle_trans by blast
  next
    case False
    then obtain r t where "fst (arbitrate_redis s [d] r t) = Inr m"
      using redis_arbitrate_cases [OF 3(2)] by blast
    from arbitrate_redis_single [OF this 3(3)] obtain micro ceiling where
      c: "to_micro (dp_ceiling_usd d) = Inr micro"
      "p = config_of_desire d ceiling (ra_now s) ''0.3.0''"
      "ceiling = dp_ceiling_usd d \<or> (\<exists>n < micro. ceiling = from_micro n)" by blast
    have "pc_ceiling_usd p = VFloat ceiling" using c(2) by simp
    then show ?thesis using c redis_cap_ge [OF 3(6)] from_micro_mono fle_trans less_imp_le by metis
  qed
qed simp

section \<open>Conservation of the budget\<close>

text \<open>
  Any interleaving of the two scripts, run by any number of processes configured with the same
  budget, and of expiries. The ledger is a ghost, written from the arguments of the calls and the
  state before them: what a first reservation put into the scope, what settlements charged, what
  expired reservations leaked, and what a settlement charged beyond what was there.
\<close>

record ledger =
  lg_funded :: int
  lg_charged :: int
  lg_leaked :: int
  lg_written_off :: int

definition empty_ledger :: ledger where
  "empty_ledger = \<lparr>lg_funded = 0, lg_charged = 0, lg_leaked = 0, lg_written_off = 0\<rparr>"

definition reserved_total :: "redis_store \<Rightarrow> int" where
  "reserved_total s = sum_list (dvalues (rs_alloc s))"

definition settle_balance :: "string \<Rightarrow> int \<Rightarrow> redis_store \<Rightarrow> int" where
  \<comment> \<open>the remaining budget before the clamp at zero\<close>
  "settle_balance key actual s =
     (case rs_remaining s of None \<Rightarrow> 0 | Some n \<Rightarrow> n) +
     (case dget (rs_alloc s) key of None \<Rightarrow> 0 | Some r \<Rightarrow> r) - actual"

inductive redis_step :: "int \<Rightarrow> redis_store \<times> ledger \<Rightarrow> redis_store \<times> ledger \<Rightarrow> bool" for budget where
  rs_reserve: "redis_step budget (s, l) (snd (lua_reserve key r budget s),
      l\<lparr>lg_funded := (if rs_remaining s = None then budget else lg_funded l)\<rparr>)"
| rs_settle: "redis_step budget (s, l) (snd (lua_settle key actual s),
      l\<lparr>lg_charged := lg_charged l + actual,
        lg_written_off := lg_written_off l + max 0 (- settle_balance key actual s)\<rparr>)"
| rs_expire: "dget (rs_alloc s) key = Some r \<Longrightarrow>
    redis_step budget (s, l) (expire key s, l\<lparr>lg_leaked := lg_leaked l + r\<rparr>)"

inductive redis_reach :: "int \<Rightarrow> redis_store \<times> ledger \<Rightarrow> bool" for budget where
  rr_init: "redis_reach budget (empty_redis, empty_ledger)"
| rr_step: "redis_reach budget c \<Longrightarrow> redis_step budget c c' \<Longrightarrow> redis_reach budget c'"

definition redis_inv :: "int \<Rightarrow> redis_store \<times> ledger \<Rightarrow> bool" where
  "redis_inv budget = (\<lambda>(s, l). wf_dict (rs_alloc s) \<and>
     (case rs_remaining s of
        None \<Rightarrow> rs_alloc s = [] \<and> l = empty_ledger
      | Some n \<Rightarrow> 0 \<le> n \<and> lg_funded l \<in> {0, budget} \<and> 0 \<le> lg_written_off l \<and>
          n + reserved_total s + lg_charged l + lg_leaked l = lg_funded l + lg_written_off l))"

lemma dvalues_Nil [simp]: "dvalues [] = []"
  by (simp add: dvalues_def)

lemma reserved_put_new:
  "dget m key = None \<Longrightarrow> dvalues (dput m key r) = dvalues m @ [r]"
  by (simp add: dput_new dvalues_def)

lemma reserved_del:
  "wf_dict m \<Longrightarrow> dget m key = Some r \<Longrightarrow> sum_list (dvalues (ddel m key)) = sum_list (dvalues m) - (r :: int)"
  by (induction m) (auto simp: dvalues_def wf_dict_def delete_notin_dom split: if_splits)

lemma lua_reserve_inv:
  assumes "redis_inv budget (s, l)" "0 \<le> budget"
  shows "redis_inv budget (snd (lua_reserve key r budget s),
      l\<lparr>lg_funded := (if rs_remaining s = None then budget else lg_funded l)\<rparr>)"
  using assms
  by (auto simp: redis_inv_def lua_reserve_def Let_def reserved_total_def reserved_put_new empty_ledger_def
      split: option.splits)

lemma ddel_absent: "dget m key = None \<Longrightarrow> ddel m key = m"
  by (induction m) (auto split: if_splits)

text \<open>A settlement in terms of the balance: it pays out of the reservation first, and clamps at zero.\<close>

lemma lua_settle_effect:
  assumes "redis_inv budget (s, l)"
  shows "rs_alloc (snd (lua_settle key actual s)) = ddel (rs_alloc s) key"
    and "rs_remaining (snd (lua_settle key actual s)) = Some (max 0 (settle_balance key actual s))"
proof -
  have n: "0 \<le> n" if "rs_remaining s = Some n" for n using assms that by (simp add: redis_inv_def)
  have none: "dget (rs_alloc s) key = None" if "rs_remaining s = None" using assms that by (simp add: redis_inv_def)
  show "rs_alloc (snd (lua_settle key actual s)) = ddel (rs_alloc s) key"
    by (auto simp: lua_settle_def Let_def ddel_absent split: option.splits)
  show "rs_remaining (snd (lua_settle key actual s)) = Some (max 0 (settle_balance key actual s))"
    using n none by (cases "rs_remaining s"; cases "dget (rs_alloc s) key")
      (auto simp: lua_settle_def settle_balance_def Let_def)
qed

lemma reserved_del_total:
  "wf_dict m \<Longrightarrow> sum_list (dvalues (ddel m key)) =
     sum_list (dvalues m) - (case dget m key of None \<Rightarrow> 0 | Some r \<Rightarrow> (r :: int))"
  by (auto simp: reserved_del ddel_absent split: option.split)

lemma lua_settle_inv:
  assumes inv: "redis_inv budget (s, l)"
  shows "redis_inv budget (snd (lua_settle key actual s),
      l\<lparr>lg_charged := lg_charged l + actual,
        lg_written_off := lg_written_off l + max 0 (- settle_balance key actual s)\<rparr>)"
proof -
  have wf: "wf_dict (rs_alloc s)" using inv by (simp add: redis_inv_def)
  have tot: "reserved_total (snd (lua_settle key actual s)) =
      reserved_total s - (case dget (rs_alloc s) key of None \<Rightarrow> 0 | Some r \<Rightarrow> r)"
    using wf by (simp add: reserved_total_def lua_settle_effect(1) [OF inv] reserved_del_total)
  have "max 0 x - max 0 (- x) = x" for x :: int by simp
  note clamp = this [of "settle_balance key actual s"]
  show ?thesis
  proof (cases "rs_remaining s")
    case None
    then show ?thesis using inv wf tot clamp
      by (auto simp: redis_inv_def lua_settle_effect [OF inv] settle_balance_def empty_ledger_def reserved_total_def)
  next
    case (Some n)
    then show ?thesis using inv wf tot clamp
      by (auto simp: redis_inv_def lua_settle_effect [OF inv] settle_balance_def split: option.splits)
  qed
qed

lemma expire_inv:
  assumes "redis_inv budget (s, l)" "dget (rs_alloc s) key = Some r"
  shows "redis_inv budget (expire key s, l\<lparr>lg_leaked := lg_leaked l + r\<rparr>)"
  using assms reserved_del [OF _ assms(2)]
  by (auto simp: redis_inv_def expire_def reserved_total_def split: option.splits)

lemma redis_step_inv: "redis_step budget c c' \<Longrightarrow> 0 \<le> budget \<Longrightarrow> redis_inv budget c \<Longrightarrow> redis_inv budget c'"
proof (induction rule: redis_step.induct)
  case (rs_reserve s l key r)
  then show ?case by (intro lua_reserve_inv)
qed (simp_all add: lua_settle_inv expire_inv)

lemma redis_reach_inv: "redis_reach budget c \<Longrightarrow> 0 \<le> budget \<Longrightarrow> redis_inv budget c"
proof (induction rule: redis_reach.induct)
  case rr_init
  then show ?case by (simp add: redis_inv_def empty_redis_def empty_ledger_def)
next
  case (rr_step c c')
  then show ?case by (blast intro: redis_step_inv)
qed

text \<open>The operations of the arbiter only take such steps, whether or not their calls fail.\<close>

lemma call_reserve_reach:
  assumes "redis_reach budget (s, l)"
  shows "\<exists>l'. redis_reach budget (snd (call_script io (lua_reserve key r budget) s), l')"
  using assms redis_reach.rr_step [OF assms rs_reserve]
  by (cases io) (auto simp: call_script_def case_prod_beta)

lemma call_settle_reach:
  assumes "redis_reach budget (s, l)"
  shows "\<exists>l'. redis_reach budget (snd (call_script io (lua_settle key actual) s), l')"
  using assms redis_reach.rr_step [OF assms rs_settle]
  by (cases io) (auto simp: call_script_def case_prod_beta)

lemma redis_settle_reach:
  assumes "redis_reach (ra_total_micro a) (ra_store a, l)"
  shows "\<exists>l'. redis_reach (ra_total_micro a) (ra_store (snd (redis_settle a r t x)), l')"
  using assms call_settle_reach [OF assms]
  by (auto simp: redis_settle_def case_prod_beta Let_def split: sum.split)

lemma arbitrate_redis_reach:
  assumes "redis_reach (ra_total_micro a) (ra_store a, l)"
  shows "\<exists>l'. redis_reach (ra_total_micro a) (ra_store (snd (arbitrate_redis a ds r t)), l')"
  using assms call_reserve_reach [OF assms]
  by (auto simp: arbitrate_redis_def case_prod_beta Let_def split: list.split sum.split)

lemma redis_arbitrate_reach:
  assumes "redis_reach (ra_total_micro a) (ra_store a, l)"
  shows "\<exists>l'. redis_reach (ra_total_micro a) (ra_store (snd (redis_arbitrate a ds b)), l')"
  using assms arbitrate_redis_reach [OF assms]
  by (auto simp: redis_arbitrate_def case_prod_beta Let_def split: option.split)

section \<open>Idempotence\<close>

lemma lua_reserve_again:
  assumes "lua_reserve key r budget s = (Reserved q, s')"
  shows "lua_reserve key r' budget' s' = (Reserved q, s')"
  using assms by (auto simp: lua_reserve_def Let_def split: option.splits if_splits)

end
