(* ===== verification/Distribution.thy ===== *)
theory Distribution
  imports Policy_Types "HOL-Library.List_Lexorder" "HOL-Library.Char_ord"
begin

text \<open>
  \<open>policy_audit.py\<close>: the canonical form a policy hash is taken of; and
  \<open>distribution/policy_distributor.py\<close>: validation of a \<open>PolicyConfig\<close>, its conversion
  into a versioned and signed \<open>PolicyBundle\<close>. SHA-256 over the JSON text of a canonical
  form is the parameter \<open>sha\<close>, HMAC-SHA256 the parameter \<open>mac\<close> (key, message).
\<close>

section \<open>Canonical form and hash\<close>

lemma size_dict_value [termination_simp]:
  "(k, v) \<in> set kvs \<Longrightarrow> size v < Suc (size_list (size_prod (\<lambda>_. 0) size) kvs)"
  by (induction kvs) auto

fun serialize_value :: "pyval \<Rightarrow> pyval" where
  "serialize_value (VList xs) = VList (map serialize_value xs)"
| "serialize_value (VDict kvs) =
     VDict (map (\<lambda>(k, v). (k, serialize_value v)) (sort_key fst kvs))"
| "serialize_value v = v"

definition to_canonical :: "policy_config \<Rightarrow> (string \<times> pyval) list" where
  "to_canonical p = map (\<lambda>(k, v). (k, serialize_value v))
     [(''ceiling_steps'', pc_ceiling_steps p),
      (''ceiling_tokens_out'', pc_ceiling_tokens_out p),
      (''ceiling_usd'', pc_ceiling_usd p),
      (''chain_id'', VStr (pc_chain_id p)),
      (''deadline_ts'', pc_deadline_ts p),
      (''expires_at'', pc_expires_at p),
      (''fallback_model'', pc_fallback_model p),
      (''issued_at'', pc_issued_at p),
      (''on_exceed'', VStr (pc_on_exceed p)),
      (''planner_version'', pc_planner_version p),
      (''priority'', pc_priority p),
      (''rate_ceiling_calls'', pc_rate_ceiling_calls p),
      (''rate_window_seconds'', pc_rate_window_seconds p),
      (''timeout_ms'', pc_timeout_ms p)]"

type_synonym digest = "(string \<times> pyval) list \<Rightarrow> string"

definition compute_policy_hash :: "digest \<Rightarrow> policy_config \<Rightarrow> string" where
  "compute_policy_hash sha p = sha (to_canonical p)"

fun scalar :: "pyval \<Rightarrow> bool" where
  "scalar (VList _) = False"
| "scalar (VDict _) = False"
| "scalar _ = True"

definition scalar_policy :: "policy_config \<Rightarrow> bool" where
  "scalar_policy p \<longleftrightarrow> (\<forall>v \<in> {pc_ceiling_steps p, pc_ceiling_tokens_out p, pc_ceiling_usd p,
     pc_deadline_ts p, pc_expires_at p, pc_fallback_model p, pc_issued_at p, pc_planner_version p,
     pc_priority p, pc_rate_ceiling_calls p, pc_rate_window_seconds p, pc_timeout_ms p}. scalar v)"

lemma serialize_scalar [simp]: "scalar v \<Longrightarrow> serialize_value v = v"
  by (cases v) auto

lemma to_canonical_inj:
  assumes "scalar_policy p" "scalar_policy q" "to_canonical p = to_canonical q"
  shows "p = q"
  using assms by (auto simp: to_canonical_def scalar_policy_def intro!: policy_config.equality)

lemma to_canonical_sorted: "sorted (map fst (to_canonical p))"
  unfolding to_canonical_def by (simp add: less_eq_char_def)

section \<open>The distributor\<close>

record policy_bundle =
  pb_policy :: policy_config
  pb_exec_config :: exec_config
  pb_policy_hash :: string
  pb_distributed_at :: pyfloat
  pb_version :: nat
  pb_policy_signature :: "string option"

record distributor =
  ds_strict :: bool
  ds_version :: nat
  ds_signing_key :: "string option"

definition new_distributor :: "bool \<Rightarrow> string \<Rightarrow> distributor result" where
  "new_distributor strict key_raw =
     (if key_raw \<noteq> [] \<and> length key_raw < 32 then Inl PolicyValidationError
      else Inr \<lparr>ds_strict = strict, ds_version = 0,
                ds_signing_key = (if key_raw = [] then None else Some key_raw)\<rparr>)"

definition next_version :: "distributor \<Rightarrow> nat \<times> distributor" where
  "next_version s = (ds_version s + 1, s\<lparr>ds_version := ds_version s + 1\<rparr>)"

definition ALLOWED_ON_EXCEED :: "string list" where
  "ALLOWED_ON_EXCEED = [''halt'', ''degrade'', ''queue'']"

definition reject_if :: "bool result \<Rightarrow> unit result" where
  \<comment> \<open>\<open>if c: raise PolicyValidationError\<close>\<close>
  "reject_if c = rbind c (\<lambda>b. if b then Inl PolicyValidationError else Inr ())"

definition unless_none :: "pyval \<Rightarrow> bool result \<Rightarrow> bool result" where
  \<comment> \<open>\<open>v is not None and c\<close>\<close>
  "unless_none v c = (if v = VNone then Inr False else c)"

definition not_finite :: "pyval \<Rightarrow> bool result" where
  "not_finite v = rbind (val_isfinite v) (\<lambda>b. Inr (\<not> b))"

definition negative :: "pyval \<Rightarrow> bool result" where
  "negative v = val_lt v (Fin 0)"

definition missing_fields :: "policy_config \<Rightarrow> bool" where
  "missing_fields p \<longleftrightarrow>
     pc_ceiling_steps p = VNone \<or> pc_ceiling_tokens_out p = VNone \<or> pc_timeout_ms p = VNone"

definition validate_policy :: "bool \<Rightarrow> policy_config \<Rightarrow> unit result" where
  "validate_policy strict p =
     rbind (reject_if (not_finite (pc_ceiling_usd p))) (\<lambda>_.
     rbind (reject_if (negative (pc_ceiling_usd p))) (\<lambda>_.
     rbind (reject_if (Inr (pc_on_exceed p \<notin> set ALLOWED_ON_EXCEED))) (\<lambda>_.
     rbind (reject_if (unless_none (pc_ceiling_steps p) (negative (pc_ceiling_steps p)))) (\<lambda>_.
     rbind (reject_if (unless_none (pc_ceiling_tokens_out p) (not_finite (pc_ceiling_tokens_out p)))) (\<lambda>_.
     rbind (reject_if (unless_none (pc_ceiling_tokens_out p) (negative (pc_ceiling_tokens_out p)))) (\<lambda>_.
     rbind (reject_if (unless_none (pc_timeout_ms p) (not_finite (pc_timeout_ms p)))) (\<lambda>_.
     rbind (reject_if (unless_none (pc_timeout_ms p) (negative (pc_timeout_ms p)))) (\<lambda>_.
     rbind (reject_if (Inr (\<not> is_int (pc_priority p) \<or> is_bool (pc_priority p)))) (\<lambda>_.
     if strict \<and> missing_fields p then Inl PolicyValidationError else Inr ())))))))))"

definition policy_signature :: "(string \<Rightarrow> string \<Rightarrow> string) \<Rightarrow> string \<Rightarrow> string \<Rightarrow> string" where
  "policy_signature mac policy_hash key = mac key policy_hash"

definition verify_signature :: "(string \<Rightarrow> string \<Rightarrow> string) \<Rightarrow> policy_bundle \<Rightarrow> string \<Rightarrow> bool result" where
  "verify_signature mac b key =
     (case pb_policy_signature b of
        None \<Rightarrow> Inl ValueError
      | Some sig \<Rightarrow> Inr (sig = policy_signature mac (pb_policy_hash b) key))"

definition distribute ::
  "digest \<Rightarrow> (string \<Rightarrow> string \<Rightarrow> string) \<Rightarrow> pyfloat \<Rightarrow> policy_config \<Rightarrow> distributor \<Rightarrow>
   policy_bundle result \<times> distributor" where
  "distribute sha mac now p s =
     (case validate_policy (ds_strict s) p of
        Inl e \<Rightarrow> (Inl e, s)
      | Inr _ \<Rightarrow>
          (let h = compute_policy_hash sha p in
           case to_exec_config p of
             Inl e \<Rightarrow> (Inl e, s)
           | Inr ec \<Rightarrow>
               (let (version, s') = next_version s in
                (Inr \<lparr>pb_policy = p, pb_exec_config = ec, pb_policy_hash = h,
                      pb_distributed_at = now, pb_version = version,
                      pb_policy_signature =
                        map_option (policy_signature mac h) (ds_signing_key s)\<rparr>, s'))))"

text \<open>
  \<open>distribute_many\<close>: a rejected policy is noted and the next one is tried; only a
  \<open>PolicyValidationError\<close> is caught, any other exception ends the call at once.
\<close>

fun distribute_loop ::
  "digest \<Rightarrow> (string \<Rightarrow> string \<Rightarrow> string) \<Rightarrow> pyfloat \<Rightarrow> policy_config list \<Rightarrow> distributor \<Rightarrow>
   (nat \<times> policy_bundle option list) result \<times> distributor" where
  "distribute_loop sha mac now [] s = (Inr (0, []), s)"
| "distribute_loop sha mac now (p # ps) s =
     (let (r, s1) = distribute sha mac now p s in
      case r of
        Inr b \<Rightarrow> (let (rest, s2) = distribute_loop sha mac now ps s1 in
                  (rbind rest (\<lambda>(n, bs). Inr (n, Some b # bs)), s2))
      | Inl e \<Rightarrow>
          if e = PolicyValidationError
          then (let (rest, s2) = distribute_loop sha mac now ps s1 in
                (rbind rest (\<lambda>(n, bs). Inr (n + 1, None # bs)), s2))
          else (Inl e, s1))"

definition distribute_many ::
  "digest \<Rightarrow> (string \<Rightarrow> string \<Rightarrow> string) \<Rightarrow> pyfloat \<Rightarrow> policy_config list \<Rightarrow> distributor \<Rightarrow>
   policy_bundle list result \<times> distributor" where
  "distribute_many sha mac now ps s =
     (let (r, s') = distribute_loop sha mac now ps s in
      (rbind r (\<lambda>(errors, results).
         if 0 < errors then Inl PolicyValidationError else Inr (List.map_filter (\<lambda>x. x) results)), s'))"

subsection \<open>What validation guarantees\<close>

lemma reject_if_ok [simp]: "reject_if c = Inr () \<longleftrightarrow> c = Inr False"
  by (auto simp: reject_if_def rbind_Inr_iff split: if_splits)

definition good_bound :: "pyval \<Rightarrow> bool" where
  \<comment> \<open>absent, or a number that is not negative\<close>
  "good_bound v \<longleftrightarrow> v = VNone \<or> (\<exists>x. exact v = Some x \<and> \<not> flt x (Fin 0))"

definition valid_policy :: "bool \<Rightarrow> policy_config \<Rightarrow> bool" where
  "valid_policy strict p \<longleftrightarrow>
     good_ceiling (pc_ceiling_usd p) \<and> pc_on_exceed p \<in> set ALLOWED_ON_EXCEED \<and>
     good_bound (pc_ceiling_steps p) \<and>
     (pc_ceiling_tokens_out p = VNone \<or> good_ceiling (pc_ceiling_tokens_out p)) \<and>
     (pc_timeout_ms p = VNone \<or> good_ceiling (pc_timeout_ms p)) \<and>
     is_int (pc_priority p) \<and> \<not> is_bool (pc_priority p) \<and>
     (strict \<longrightarrow> \<not> missing_fields p)"

lemma finite_nonneg_iff:
  "not_finite v = Inr False \<and> negative v = Inr False \<longleftrightarrow> good_ceiling v"
proof (cases "val_isfinite v")
  case (Inr b)
  then obtain x where "exact v = Some x" "isfinite x = b"
    using val_isfinite_exact by blast
  then show ?thesis using Inr
    by (cases x) (auto simp: not_finite_def negative_def good_ceiling_def val_lt_def)
qed (simp add: not_finite_def good_ceiling_def)

lemma negative_iff: "negative v = Inr False \<longleftrightarrow> (\<exists>x. exact v = Some x \<and> \<not> flt x (Fin 0))"
  by (auto simp: negative_def val_lt_def split: option.splits)

lemma validate_iff: "validate_policy strict p = Inr () \<longleftrightarrow> valid_policy strict p"
proof -
  have "validate_policy strict p = Inr () \<longleftrightarrow>
      (not_finite (pc_ceiling_usd p) = Inr False \<and> negative (pc_ceiling_usd p) = Inr False) \<and>
      pc_on_exceed p \<in> set ALLOWED_ON_EXCEED \<and>
      unless_none (pc_ceiling_steps p) (negative (pc_ceiling_steps p)) = Inr False \<and>
      (unless_none (pc_ceiling_tokens_out p) (not_finite (pc_ceiling_tokens_out p)) = Inr False \<and>
       unless_none (pc_ceiling_tokens_out p) (negative (pc_ceiling_tokens_out p)) = Inr False) \<and>
      (unless_none (pc_timeout_ms p) (not_finite (pc_timeout_ms p)) = Inr False \<and>
       unless_none (pc_timeout_ms p) (negative (pc_timeout_ms p)) = Inr False) \<and>
      is_int (pc_priority p) \<and> \<not> is_bool (pc_priority p) \<and> (strict \<longrightarrow> \<not> missing_fields p)"
    by (auto simp: validate_policy_def rbind_Inr_iff split: if_splits)
  then show ?thesis
    unfolding valid_policy_def good_bound_def unless_none_def negative_iff [symmetric]
      finite_nonneg_iff [symmetric] by auto
qed

lemma valid_policy_converts:
  assumes "valid_policy strict p"
  shows "\<exists>ec. to_exec_config p = Inr ec \<and> ec_max_cost_usd ec = pc_ceiling_usd p"
  using assms to_exec_config_ok_iff [of p] to_exec_config_cost [of p]
  by (auto simp: valid_policy_def is_ok_iff)

lemma distribute_ok_iff: "is_ok (fst (distribute sha mac now p s)) \<longleftrightarrow> valid_policy (ds_strict s) p"
  using valid_policy_converts [of "ds_strict s" p] validate_iff [of "ds_strict s" p]
  by (auto simp: distribute_def Let_def next_version_def split: sum.splits)

lemma distribute_ok:
  "fst (distribute sha mac now p s) = Inr b \<Longrightarrow>
     pb_policy b = p \<and> pb_policy_hash b = compute_policy_hash sha p \<and>
     to_exec_config p = Inr (pb_exec_config b) \<and> pb_version b = ds_version s + 1 \<and>
     pb_policy_signature b = map_option (policy_signature mac (compute_policy_hash sha p)) (ds_signing_key s) \<and>
     snd (distribute sha mac now p s) = s\<lparr>ds_version := ds_version s + 1\<rparr>"
  by (auto simp: distribute_def Let_def next_version_def split: sum.splits)

lemma distribute_fail:
  "fst (distribute sha mac now p s) = Inl e \<Longrightarrow> snd (distribute sha mac now p s) = s"
  by (auto simp: distribute_def Let_def next_version_def split: sum.splits)

lemma distribute_signed:
  "fst (distribute sha mac now p s) = Inr b \<Longrightarrow> ds_signing_key s = Some key \<Longrightarrow>
   verify_signature mac b key = Inr True"
  by (auto simp: verify_signature_def dest!: distribute_ok)

subsection \<open>Batches\<close>

lemma distribute_loop_ok:
  "fst (distribute_loop sha mac now ps s) = Inr (n, bs) \<Longrightarrow>
     length bs = length ps \<and> n = length (filter (\<lambda>p. \<not> valid_policy (ds_strict s) p) ps) \<and>
     List.map_filter (\<lambda>x. map_option pb_policy x) bs = filter (valid_policy (ds_strict s)) ps \<and>
     map pb_version (List.map_filter (\<lambda>x. x) bs) =
       map (\<lambda>i. ds_version s + 1 + i) [0..<length (List.map_filter (\<lambda>x. x) bs)]"
proof (induction ps arbitrary: s n bs)
  case Nil
  then show ?case by simp
next
  case (Cons p ps)
  let ?s1 = "snd (distribute sha mac now p s)"
  show ?case
  proof (cases "fst (distribute sha mac now p s)")
    case (Inl e)
    have e: "e = PolicyValidationError" and s1: "?s1 = s"
      using Cons.prems Inl distribute_fail [OF Inl] by (auto simp: Let_def split: prod.splits if_splits)
    then obtain n' bs' where rest: "fst (distribute_loop sha mac now ps s) = Inr (n', bs')"
      "n = n' + 1" "bs = None # bs'"
      using Cons.prems Inl by (auto simp: Let_def rbind_Inr_iff split: prod.splits)
    have "\<not> valid_policy (ds_strict s) p" using Inl distribute_ok_iff [of sha mac now p s] by simp
    then show ?thesis using Cons.IH [OF rest(1)] rest(2,3) by (simp add: map_filter_simps)
  next
    case (Inr b)
    note ok = distribute_ok [OF Inr]
    have valid: "valid_policy (ds_strict s) p" using Inr distribute_ok_iff [of sha mac now p s] by simp
    obtain n' bs' where rest: "fst (distribute_loop sha mac now ps ?s1) = Inr (n', bs')"
      "n = n'" "bs = Some b # bs'"
      using Cons.prems Inr by (auto simp: Let_def rbind_Inr_iff split: prod.splits)
    have "map (\<lambda>i. ds_version s + 1 + i) [0..<Suc k] =
        (ds_version s + 1) # map (\<lambda>i. ds_version s + 1 + 1 + i) [0..<k]" for k
      by (simp add: upt_conv_Cons map_Suc_upt [symmetric] del: upt_Suc)
    then show ?thesis using Cons.IH [OF rest(1)] rest(2,3) valid ok
      by (simp add: map_filter_simps)
  qed
qed

lemma distribute_many_ok:
  assumes "fst (distribute_many sha mac now ps s) = Inr bs"
  shows "map pb_policy bs = ps \<and> list_all (valid_policy (ds_strict s)) ps \<and>
    map pb_version bs = map (\<lambda>i. ds_version s + 1 + i) [0..<length ps]"
proof -
  obtain xs where loop: "fst (distribute_loop sha mac now ps s) = Inr (0, xs)"
    and bs: "bs = List.map_filter (\<lambda>x. x) xs"
    using assms by (auto simp: distribute_many_def Let_def rbind_Inr_iff split: prod.splits if_splits)
  note spec = distribute_loop_ok [OF loop]
  have none: "filter (\<lambda>p. \<not> valid_policy (ds_strict s) p) ps = []" using spec by simp
  then have all: "filter (valid_policy (ds_strict s)) ps = ps"
    by (simp add: filter_empty_conv)
  have "map pb_policy (List.map_filter (\<lambda>x. x) xs) = List.map_filter (\<lambda>x. map_option pb_policy x) xs"
    by (induction xs) (auto simp: map_filter_simps split: option.splits)
  then have "map pb_policy bs = ps" using spec all bs by simp
  moreover from this have "length bs = length ps" by (metis length_map)
  ultimately show ?thesis using spec none bs by (auto simp: list_all_iff filter_empty_conv)
qed

end
