(* ===== verification/Emitter.thy ===== *)
theory Emitter
  imports Py_Value "HOL-Library.Sublist"
begin

text \<open>
  The event emitters: \<open>BufferedEmitter\<close> of \<open>buffered_emitter.py\<close> (a bounded ring buffer and
  named subscribers), \<open>NullEmitter\<close> of \<open>emitter.py\<close>, and the record
  \<open>StructuredLogSubscriber\<close> hands to the logger. Every \<open>with self._lock\<close> section is one
  operation here; \<open>emit\<close> composes its sections the way the method does when no other thread
  runs in between, and \<open>em_step\<close> interleaves the sections freely. What a callback does is a
  parameter: \<open>run cb ev\<close> holds when the callback returns and fails when it raises an \<open>Exception\<close>.
  Callbacks that call the emitter themselves, or that raise what \<open>except Exception\<close> does not catch
  (\<open>SystemExit\<close>, \<open>KeyboardInterrupt\<close>), are not represented.
\<close>

definition MAX_CONSECUTIVE_FAILURES :: nat where "MAX_CONSECUTIVE_FAILURES = 3"

record ('ev, 'cb) emitter =
  em_maxlen :: "nat option"
  em_buffer :: "'ev list"
  em_subscribers :: "(string, 'cb) pydict"
  em_fail_counts :: "(string, nat) pydict"
  em_dropped :: nat

definition new_emitter :: "nat option \<Rightarrow> ('ev, 'cb) emitter" where
  "new_emitter maxlen = \<lparr>em_maxlen = maxlen, em_buffer = [], em_subscribers = [],
     em_fail_counts = [], em_dropped = 0\<rparr>"

definition deque_append :: "nat option \<Rightarrow> 'a list \<Rightarrow> 'a \<Rightarrow> 'a list" where
  "deque_append maxlen xs x =
     (case maxlen of None \<Rightarrow> xs @ [x] | Some m \<Rightarrow> take_last m (xs @ [x]))"

section \<open>The lock sections\<close>

definition emit_append :: "'ev \<Rightarrow> ('ev, 'cb) emitter \<Rightarrow> ('ev, 'cb) emitter" where
  "emit_append ev s =
     s\<lparr>em_dropped := em_dropped s + (if em_maxlen s = Some (length (em_buffer s)) then 1 else 0),
       em_buffer := deque_append (em_maxlen s) (em_buffer s) ev\<rparr>"

definition fail_count :: "('ev, 'cb) emitter \<Rightarrow> string \<Rightarrow> nat" where
  "fail_count s name = dget_default (em_fail_counts s) name 0"

definition dropped_total :: "('ev, 'cb) emitter \<Rightarrow> nat" where "dropped_total s = em_dropped s"
definition emitter_snapshot :: "('ev, 'cb) emitter \<Rightarrow> 'ev list" where "emitter_snapshot s = em_buffer s"

definition record_failure :: "string \<Rightarrow> ('ev, 'cb) emitter \<Rightarrow> ('ev, 'cb) emitter \<times> bool" where
  \<comment> \<open>the flag: the name goes on the list of removals\<close>
  "record_failure name s =
     (let count = fail_count s name + 1 in
      (s\<lparr>em_fail_counts := dput (em_fail_counts s) name count\<rparr>, MAX_CONSECUTIVE_FAILURES \<le> count))"

definition reset_failure :: "string \<Rightarrow> ('ev, 'cb) emitter \<Rightarrow> ('ev, 'cb) emitter" where
  "reset_failure name s =
     (if dget (em_fail_counts s) name \<noteq> None
      then s\<lparr>em_fail_counts := dput (em_fail_counts s) name 0\<rparr> else s)"

definition unsubscribe :: "string \<Rightarrow> ('ev, 'cb) emitter \<Rightarrow> ('ev, 'cb) emitter" where
  "unsubscribe name s =
     s\<lparr>em_subscribers := ddel (em_subscribers s) name,
       em_fail_counts := ddel (em_fail_counts s) name\<rparr>"

definition emit_finish :: "string list \<Rightarrow> string list \<Rightarrow> ('ev, 'cb) emitter \<Rightarrow> ('ev, 'cb) emitter" where
  "emit_finish resets removals s = fold unsubscribe removals (fold reset_failure resets s)"

definition subscribe :: "string \<Rightarrow> 'cb \<Rightarrow> ('ev, 'cb) emitter \<Rightarrow> ('ev, 'cb) emitter" where
  "subscribe name cb s =
     s\<lparr>em_subscribers := dput (em_subscribers s) name cb,
       em_fail_counts := dput (em_fail_counts s) name 0\<rparr>"

definition drain :: "int \<Rightarrow> ('ev, 'cb) emitter \<Rightarrow> 'ev list \<times> ('ev, 'cb) emitter" where
  "drain n s =
     (let k = nat (min n (int (length (em_buffer s)))) in
      (take k (em_buffer s), s\<lparr>em_buffer := drop k (em_buffer s)\<rparr>))"

section \<open>\<open>emit\<close> as the method runs it\<close>

fun call_targets ::
  "('cb \<Rightarrow> 'ev \<Rightarrow> bool) \<Rightarrow> 'ev \<Rightarrow> (string \<times> 'cb) list \<Rightarrow> ('ev, 'cb) emitter \<Rightarrow>
   string list \<times> string list \<times> ('ev, 'cb) emitter" where
  "call_targets run ev [] s = ([], [], s)"
| "call_targets run ev ((name, cb) # ts) s =
     (if run cb ev
      then (let (resets, removals, s') = call_targets run ev ts s in (name # resets, removals, s'))
      else (let (s1, gone) = record_failure name s;
                (resets, removals, s') = call_targets run ev ts s1 in
            (resets, (if gone then name # removals else removals), s')))"

definition emit :: "('cb \<Rightarrow> 'ev \<Rightarrow> bool) \<Rightarrow> 'ev \<Rightarrow> ('ev, 'cb) emitter \<Rightarrow> ('ev, 'cb) emitter" where
  "emit run ev s =
     (let s1 = emit_append ev s;
          (resets, removals, s2) = call_targets run ev (em_subscribers s1) s1 in
      emit_finish resets removals s2)"

definition null_emit :: "'ev \<Rightarrow> 'st \<Rightarrow> 'st" where
  "null_emit ev s = s"

section \<open>Interleaved lock sections\<close>

text \<open>
  A step of any thread. The ghost components of a configuration are the events appended and
  the events drained so far, oldest first.
\<close>

inductive em_step ::
  "('ev, 'cb) emitter \<times> 'ev list \<times> 'ev list \<Rightarrow> ('ev, 'cb) emitter \<times> 'ev list \<times> 'ev list \<Rightarrow> bool"
where
  step_append: "em_step (s, sent, got) (emit_append ev s, sent @ [ev], got)"
| step_failure: "em_step (s, sent, got) (fst (record_failure name s), sent, got)"
| step_finish: "em_step (s, sent, got) (emit_finish resets removals s, sent, got)"
| step_subscribe: "em_step (s, sent, got) (subscribe name cb s, sent, got)"
| step_unsubscribe: "em_step (s, sent, got) (unsubscribe name s, sent, got)"
| step_drain: "em_step (s, sent, got) (snd (drain n s), sent, got @ fst (drain n s))"

inductive_cases em_step_elim: "em_step (s, sent, got) c"

inductive em_reach :: "nat option \<Rightarrow> ('ev, 'cb) emitter \<times> 'ev list \<times> 'ev list \<Rightarrow> bool" for maxlen
where
  reach_init: "em_reach maxlen (new_emitter maxlen, [], [])"
| reach_step: "em_reach maxlen c \<Longrightarrow> em_step c c' \<Longrightarrow> em_reach maxlen c'"

definition em_inv :: "nat option \<Rightarrow> ('ev, 'cb) emitter \<times> 'ev list \<times> 'ev list \<Rightarrow> bool" where
  "em_inv maxlen = (\<lambda>(s, sent, got).
     em_maxlen s = maxlen \<and>
     (case maxlen of None \<Rightarrow> True | Some m \<Rightarrow> length (em_buffer s) \<le> m) \<and>
     length sent = em_dropped s + length got + length (em_buffer s) \<and>
     subseq (got @ em_buffer s) sent \<and> suffix (em_buffer s) sent \<and>
     (maxlen = None \<longrightarrow> em_dropped s = 0))"

lemma record_failure_frame [simp]:
  "em_buffer (fst (record_failure n s)) = em_buffer s"
  "em_maxlen (fst (record_failure n s)) = em_maxlen s"
  "em_dropped (fst (record_failure n s)) = em_dropped s"
  "em_subscribers (fst (record_failure n s)) = em_subscribers s"
  by (simp_all add: record_failure_def Let_def)

lemma unsubscribe_frame [simp]:
  "em_buffer (unsubscribe n s) = em_buffer s" "em_maxlen (unsubscribe n s) = em_maxlen s"
  "em_dropped (unsubscribe n s) = em_dropped s"
  by (simp_all add: unsubscribe_def)

lemma reset_frame [simp]:
  "em_buffer (reset_failure n s) = em_buffer s" "em_maxlen (reset_failure n s) = em_maxlen s"
  "em_dropped (reset_failure n s) = em_dropped s"
  "em_subscribers (reset_failure n s) = em_subscribers s"
  by (simp_all add: reset_failure_def)

lemma fold_unsubscribe_frame [simp]:
  "em_buffer (fold unsubscribe ns s) = em_buffer s"
  "em_maxlen (fold unsubscribe ns s) = em_maxlen s"
  "em_dropped (fold unsubscribe ns s) = em_dropped s"
  by (induction ns arbitrary: s) simp_all

lemma fold_reset_frame [simp]:
  "em_buffer (fold reset_failure ns s) = em_buffer s"
  "em_maxlen (fold reset_failure ns s) = em_maxlen s"
  "em_dropped (fold reset_failure ns s) = em_dropped s"
  "em_subscribers (fold reset_failure ns s) = em_subscribers s"
  by (induction ns arbitrary: s) simp_all

lemma emit_finish_frame [simp]:
  "em_buffer (emit_finish rs ds s) = em_buffer s" "em_maxlen (emit_finish rs ds s) = em_maxlen s"
  "em_dropped (emit_finish rs ds s) = em_dropped s"
  by (simp_all add: emit_finish_def)

lemma emit_append_frame [simp]:
  "em_maxlen (emit_append ev s) = em_maxlen s"
  "em_subscribers (emit_append ev s) = em_subscribers s"
  "em_fail_counts (emit_append ev s) = em_fail_counts s"
  by (simp_all add: emit_append_def)

lemma em_inv_append:
  assumes "em_inv maxlen (s, sent, got)"
  shows "em_inv maxlen (emit_append ev s, sent @ [ev], got)"
proof (cases maxlen)
  case None
  with assms show ?thesis
    by (auto simp: em_inv_def emit_append_def deque_append_def
        simp flip: append_assoc intro: list_emb_append_mono)
next
  case (Some m)
  have suf: "suffix (em_buffer s @ [ev]) (sent @ [ev])"
    and sub: "subseq (got @ em_buffer s @ [ev]) (sent @ [ev])"
    using assms by (auto simp: em_inv_def simp flip: append_assoc intro: list_emb_append_mono)
  have "subseq (got @ take_last m (em_buffer s @ [ev])) (got @ em_buffer s @ [ev])"
    by (intro list_emb_append_mono) (auto intro: suffix_imp_subseq suffix_take_last)
  then have sub': "subseq (got @ take_last m (em_buffer s @ [ev])) (sent @ [ev])"
    using sub by (rule subseq_order.trans)
  have suf': "suffix (take_last m (em_buffer s @ [ev])) (sent @ [ev])"
    using suffix_take_last suf by (rule suffix_order.trans)
  show ?thesis
    using assms sub' suf' Some
    by (auto simp: em_inv_def emit_append_def deque_append_def length_take_last)
qed

lemma em_inv_drain:
  "em_inv maxlen (s, sent, got) \<Longrightarrow>
   em_inv maxlen (snd (drain n s), sent, got @ fst (drain n s))"
  by (cases maxlen)
    (auto simp: em_inv_def drain_def Let_def intro: suffix_order.trans [OF suffix_drop])

lemma em_inv_step: "em_inv maxlen c \<Longrightarrow> em_step c c' \<Longrightarrow> em_inv maxlen c'"
proof -
  assume inv: "em_inv maxlen c" and step: "em_step c c'"
  from step inv show "em_inv maxlen c'"
  proof (cases rule: em_step.cases)
    case (step_append s sent got ev)
    with inv show ?thesis by (simp add: em_inv_append)
  next
    case (step_drain s sent got n)
    with inv show ?thesis by (simp add: em_inv_drain)
  qed (auto simp: em_inv_def subscribe_def split: option.splits)
qed

lemma em_reach_inv: "em_reach maxlen c \<Longrightarrow> em_inv maxlen c"
proof (induction rule: em_reach.induct)
  case reach_init
  then show ?case by (simp add: em_inv_def new_emitter_def split: option.splits)
next
  case (reach_step c c')
  then show ?case by (blast intro: em_inv_step)
qed

section \<open>Subscribers\<close>

definition em_wf :: "('ev, 'cb) emitter \<Rightarrow> bool" where
  "em_wf s \<longleftrightarrow> wf_dict (em_subscribers s) \<and> wf_dict (em_fail_counts s) \<and>
     (\<forall>n. dget (em_fail_counts s) n = None \<longleftrightarrow> dget (em_subscribers s) n = None) \<and>
     (\<forall>n. fail_count s n < MAX_CONSECUTIVE_FAILURES)"

lemma new_emitter_wf: "em_wf (new_emitter m)"
  by (simp add: em_wf_def new_emitter_def fail_count_def MAX_CONSECUTIVE_FAILURES_def)

lemma subscribe_wf: "em_wf s \<Longrightarrow> em_wf (subscribe n cb s)"
  by (auto simp: em_wf_def subscribe_def fail_count_def MAX_CONSECUTIVE_FAILURES_def)

lemma unsubscribe_wf: "em_wf s \<Longrightarrow> em_wf (unsubscribe n s)"
  by (auto simp: em_wf_def unsubscribe_def fail_count_def MAX_CONSECUTIVE_FAILURES_def)

text \<open>What the calls record, for subscribers with distinct names.\<close>

lemma call_targets_spec:
  assumes "call_targets run ev ts s = (resets, removals, s')" "distinct (map fst ts)"
  shows "em_subscribers s' = em_subscribers s \<and> em_buffer s' = em_buffer s \<and>
    em_maxlen s' = em_maxlen s \<and> em_dropped s' = em_dropped s \<and>
    (wf_dict (em_fail_counts s) \<longrightarrow> wf_dict (em_fail_counts s')) \<and>
    (\<forall>n. n \<in> set resets \<longleftrightarrow> (\<exists>cb. (n, cb) \<in> set ts \<and> run cb ev)) \<and>
    (\<forall>n. n \<in> set removals \<longleftrightarrow> (\<exists>cb. (n, cb) \<in> set ts \<and> \<not> run cb ev \<and>
        MAX_CONSECUTIVE_FAILURES \<le> Suc (fail_count s n))) \<and>
    (\<forall>n. dget (em_fail_counts s') n =
       (if \<exists>cb. (n, cb) \<in> set ts \<and> \<not> run cb ev then Some (Suc (fail_count s n))
        else dget (em_fail_counts s) n))"
  using assms
proof (induction ts arbitrary: s resets removals)
  case Nil
  then show ?case by simp
next
  case (Cons t ts)
  obtain name cb where t: "t = (name, cb)" by (cases t)
  have fresh: "\<And>cb'. (name, cb') \<notin> set ts" and dist: "distinct (map fst ts)"
    using Cons.prems(2) t by (force, simp)
  show ?case
  proof (cases "run cb ev")
    case True
    obtain rs ds where call: "call_targets run ev ts s = (rs, ds, s')" "resets = name # rs" "removals = ds"
      using Cons.prems(1) True t by (auto split: prod.splits)
    show ?thesis using Cons.IH [OF call(1) dist] call(2,3) True t fresh by auto
  next
    case False
    let ?s = "fst (record_failure name s)"
    obtain rs ds where call: "call_targets run ev ts ?s = (rs, ds, s')" "resets = rs"
      "removals = (if MAX_CONSECUTIVE_FAILURES \<le> Suc (fail_count s name) then name # ds else ds)"
      using Cons.prems(1) False t by (auto simp: record_failure_def Let_def split: prod.splits if_splits)
    have "fail_count ?s n = (if n = name then Suc (fail_count s name) else fail_count s n)" for n
      by (simp add: record_failure_def fail_count_def Let_def)
    moreover have "dget (em_fail_counts ?s) n =
        (if n = name then Some (Suc (fail_count s name)) else dget (em_fail_counts s) n)" for n
      by (simp add: record_failure_def Let_def)
    moreover have "wf_dict (em_fail_counts s) \<longrightarrow> wf_dict (em_fail_counts ?s)"
      by (simp add: record_failure_def Let_def)
    ultimately show ?thesis using Cons.IH [OF call(1) dist] call(2,3) False t fresh by auto
  qed
qed

lemma fold_reset_get:
  "dget (em_fail_counts (fold reset_failure ns s)) n =
     (if n \<in> set ns \<and> dget (em_fail_counts s) n \<noteq> None then Some 0 else dget (em_fail_counts s) n)"
  by (induction ns arbitrary: s) (auto simp: reset_failure_def)

lemma fold_reset_wf: "wf_dict (em_fail_counts s) \<Longrightarrow> wf_dict (em_fail_counts (fold reset_failure ns s))"
  by (induction ns arbitrary: s) (auto simp: reset_failure_def)

lemma fold_unsubscribe_get:
  "dget (em_subscribers (fold unsubscribe ns s)) n =
     (if n \<in> set ns then None else dget (em_subscribers s) n)"
  "dget (em_fail_counts (fold unsubscribe ns s)) n =
     (if n \<in> set ns then None else dget (em_fail_counts s) n)"
  by (induction ns arbitrary: s) (auto simp: unsubscribe_def)

lemma fold_unsubscribe_wf:
  "wf_dict (em_subscribers s) \<Longrightarrow> wf_dict (em_fail_counts s) \<Longrightarrow>
   wf_dict (em_subscribers (fold unsubscribe ns s)) \<and> wf_dict (em_fail_counts (fold unsubscribe ns s))"
  by (induction ns arbitrary: s) (auto simp: unsubscribe_def)

lemma emit_subscriber:
  assumes "em_wf s"
  shows "dget (em_subscribers (emit run ev s)) n =
      (case dget (em_subscribers s) n of
         None \<Rightarrow> None
       | Some cb \<Rightarrow> if run cb ev \<or> Suc (fail_count s n) < MAX_CONSECUTIVE_FAILURES then Some cb else None)"
    and "dget (em_fail_counts (emit run ev s)) n =
      (case dget (em_subscribers s) n of
         None \<Rightarrow> None
       | Some cb \<Rightarrow> if run cb ev then Some 0
                   else if Suc (fail_count s n) < MAX_CONSECUTIVE_FAILURES
                   then Some (Suc (fail_count s n)) else None)"
    and "em_wf (emit run ev s)"
proof -
  let ?s1 = "emit_append ev s"
  obtain resets removals s2 where call: "call_targets run ev (em_subscribers s) ?s1 = (resets, removals, s2)"
    by (cases "call_targets run ev (em_subscribers s) ?s1") auto
  have dist: "distinct (map fst (em_subscribers s))" using assms by (simp add: em_wf_def wf_dict_def)
  have fc: "fail_count ?s1 = fail_count s" by (simp add: fail_count_def fun_eq_iff)
  have mem: "(n, cb) \<in> set (em_subscribers s) \<longleftrightarrow> dget (em_subscribers s) n = Some cb" for n cb
    using assms by (simp add: em_wf_def wf_dict_in_set)
  note spec = call_targets_spec [OF call dist, unfolded fc mem]
  have em: "emit run ev s = emit_finish resets removals s2"
    by (simp add: emit_def call)
  have same: "dget (em_fail_counts s) m = None \<longleftrightarrow> dget (em_subscribers s) m = None" for m
    using assms by (simp add: em_wf_def)
  show sub: "dget (em_subscribers (emit run ev s)) n =
      (case dget (em_subscribers s) n of
         None \<Rightarrow> None
       | Some cb \<Rightarrow> if run cb ev \<or> Suc (fail_count s n) < MAX_CONSECUTIVE_FAILURES then Some cb else None)"
    for n
    using spec by (auto simp: em emit_finish_def fold_unsubscribe_get split: option.splits)
  show fl: "dget (em_fail_counts (emit run ev s)) n =
      (case dget (em_subscribers s) n of
         None \<Rightarrow> None
       | Some cb \<Rightarrow> if run cb ev then Some 0
                   else if Suc (fail_count s n) < MAX_CONSECUTIVE_FAILURES
                   then Some (Suc (fail_count s n)) else None)" for n
    using spec same [of n]
    by (cases "dget (em_subscribers s) n")
      (auto simp: em emit_finish_def fold_unsubscribe_get fold_reset_get)
  have "wf_dict (em_subscribers (emit run ev s)) \<and> wf_dict (em_fail_counts (emit run ev s))"
    unfolding em emit_finish_def using spec assms
    by (intro fold_unsubscribe_wf) (auto simp: em_wf_def fold_reset_wf)
  moreover have "fail_count (emit run ev s) m < MAX_CONSECUTIVE_FAILURES" for m
    by (simp add: fail_count_def [of "emit run ev s"] fl MAX_CONSECUTIVE_FAILURES_def
        split: option.splits)
  ultimately show "em_wf (emit run ev s)"
    by (auto simp: em_wf_def sub fl split: option.splits)
qed

text \<open>
  Over a sequence of events a subscriber survives exactly when its callback never fails three
  times in a row.
\<close>

definition emit_all :: "('cb \<Rightarrow> 'ev \<Rightarrow> bool) \<Rightarrow> 'ev list \<Rightarrow> ('ev, 'cb) emitter \<Rightarrow> ('ev, 'cb) emitter" where
  "emit_all run evs s = fold (emit run) evs s"

fun survives :: "nat \<Rightarrow> bool list \<Rightarrow> bool" where
  "survives k [] \<longleftrightarrow> True"
| "survives k (b # bs) \<longleftrightarrow>
     (if b then survives 0 bs else Suc k < MAX_CONSECUTIVE_FAILURES \<and> survives (Suc k) bs)"

lemma emit_all_none:
  "em_wf s \<Longrightarrow> dget (em_subscribers s) n = None \<Longrightarrow> dget (em_subscribers (emit_all run evs s)) n = None"
  unfolding emit_all_def
  by (induction evs arbitrary: s) (auto simp: emit_subscriber)

lemma emit_all_survives:
  "em_wf s \<Longrightarrow> dget (em_subscribers s) n = Some cb \<Longrightarrow>
   dget (em_subscribers (emit_all run evs s)) n =
     (if survives (fail_count s n) (map (run cb) evs) then Some cb else None)"
proof (induction evs arbitrary: s)
  case Nil
  then show ?case by (simp add: emit_all_def)
next
  case (Cons ev evs)
  let ?s = "emit run ev s"
  have wf: "em_wf ?s" using Cons.prems by (simp add: emit_subscriber)
  have step: "emit_all run (ev # evs) s = emit_all run evs ?s" by (simp add: emit_all_def)
  have fc: "dget (em_fail_counts ?s) n =
      (if run cb ev then Some 0 else if Suc (fail_count s n) < MAX_CONSECUTIVE_FAILURES
       then Some (Suc (fail_count s n)) else None)"
    using Cons.prems by (simp add: emit_subscriber(2))
  show ?case
  proof (cases "run cb ev \<or> Suc (fail_count s n) < MAX_CONSECUTIVE_FAILURES")
    case True
    then have "dget (em_subscribers ?s) n = Some cb" using Cons.prems by (simp add: emit_subscriber(1))
    then show ?thesis using Cons.IH [OF wf] True fc by (auto simp: step fail_count_def [of ?s])
  next
    case False
    then have "dget (em_subscribers ?s) n = None" using Cons.prems by (simp add: emit_subscriber(1))
    then show ?thesis using emit_all_none [OF wf] False by (simp add: step)
  qed
qed

lemma survives_iff:
  "k < 3 \<Longrightarrow> survives k bs \<longleftrightarrow>
     (\<nexists>xs ys. replicate k False @ bs = xs @ [False, False, False] @ ys)"
proof (induction bs arbitrary: k)
  case Nil
  have "length (replicate k False) \<noteq> length (xs @ [False, False, False] @ ys)" for xs ys
    using Nil by simp
  then show ?case by (metis append.right_neutral survives.simps(1))
next
  case (Cons b bs)
  show ?case
  proof (cases b)
    case True
    have "(\<exists>xs ys. replicate k False @ True # bs = xs @ [False, False, False] @ ys) \<longleftrightarrow>
        (\<exists>xs ys. bs = xs @ [False, False, False] @ ys)" (is "?L \<longleftrightarrow> ?R")
    proof
      assume ?L
      then obtain xs ys where eq: "replicate k False @ True # bs = xs @ [False, False, False] @ ys" by blast
      then obtain us where "(replicate k False = xs @ us \<and> us @ True # bs = [False, False, False] @ ys) \<or>
          (replicate k False @ us = xs \<and> True # bs = us @ [False, False, False] @ ys)"
        by (auto simp: append_eq_append_conv2)
      then show ?R
      proof
        assume a: "replicate k False = xs @ us \<and> us @ True # bs = [False, False, False] @ ys"
        then have "length us \<le> 2" using Cons.prems by (metis add_leE length_append length_replicate less_Suc_eq_le numeral_2_eq_2 numeral_3_eq_3 le_add2 order_trans)
        then show ?R using a by (auto simp: Cons_eq_append_conv append_eq_Cons_conv)
      next
        assume "replicate k False @ us = xs \<and> True # bs = us @ [False, False, False] @ ys"
        then show ?R by (auto simp: Cons_eq_append_conv)
      qed
    next
      assume ?R
      then show ?L by (metis append.assoc append_Cons)
    qed
    moreover have "survives 0 bs \<longleftrightarrow> (\<nexists>xs ys. bs = xs @ [False, False, False] @ ys)"
      using Cons.IH [of 0] by simp
    ultimately show ?thesis using True by simp
  next
    case False
    show ?thesis
    proof (cases "Suc k < 3")
      case True
      have "replicate (Suc k) False @ bs = replicate k False @ b # bs"
        using False by (simp add: replicate_app_Cons_same)
      then show ?thesis using Cons.IH [OF True] True False
        by (simp add: MAX_CONSECUTIVE_FAILURES_def del: replicate_Suc)
    next
      case three: False
      then have "replicate k False @ b # bs = [] @ [False, False, False] @ bs"
        using Cons.prems False by (simp add: numeral_2_eq_2 less_Suc_eq numeral_3_eq_3)
      then show ?thesis using False three by (metis MAX_CONSECUTIVE_FAILURES_def survives.simps(2))
    qed
  qed
qed

section \<open>Structured log records\<close>

definition MAX_SIGNALS_LOG :: nat where "MAX_SIGNALS_LOG = 16"

definition get_field :: "(string, pyval) pydict \<Rightarrow> string \<Rightarrow> string \<times> pyval" where
  "get_field payload key = (key, dget_default payload key VNone)"

fun slice_signals :: "pyval \<Rightarrow> pyval result" where
  "slice_signals (VList xs) = Inr (VList (take MAX_SIGNALS_LOG xs))"
| "slice_signals (VStr xs) = Inr (VStr (take MAX_SIGNALS_LOG xs))"
| "slice_signals _ = Inl TypeError"

definition log_step_denied :: "(string, pyval) pydict \<Rightarrow> (string, pyval) pydict" where
  "log_step_denied p =
     [(''event'', VStr ''step_denied''),
      (''schema_version'', dget_default p ''schema_version'' (VInt 0))] @
     map (get_field p) [''request_id'', ''step_id'', ''chain_id'', ''kind'', ''reason'', ''model'',
       ''tool_name'']"

definition log_step_completed :: "(string, pyval) pydict \<Rightarrow> (string, pyval) pydict result" where
  "log_step_completed p =
     rbind (slice_signals (dget_default p ''signals'' (VList []))) (\<lambda>signals.
     Inr ([(''event'', VStr ''step_completed''),
           (''schema_version'', dget_default p ''schema_version'' (VInt 0))] @
          map (get_field p) [''request_id'', ''step_id'', ''chain_id'', ''kind'', ''status'',
            ''cost_usd'', ''tokens_in'', ''tokens_out'', ''elapsed_ms'', ''risk_level'',
            ''recommendation'', ''degraded'', ''degrade_reason''] @
          [(''signals'', signals),
           (''stage_time_ms'', dget_default p ''stage_time_ms'' (VDict []))]))"

definition structured_log :: "string \<Rightarrow> (string, pyval) pydict \<Rightarrow> (string, pyval) pydict option result" where
  "structured_log event_type p =
     (if event_type = ''step_completed'' then rbind (log_step_completed p) (\<lambda>r. Inr (Some r))
      else if event_type = ''step_denied'' then Inr (Some (log_step_denied p))
      else Inr None)"

lemma structured_log_signals:
  "structured_log t p = Inr (Some r) \<Longrightarrow> dget r ''signals'' = Some (VList xs) \<Longrightarrow> length xs \<le> MAX_SIGNALS_LOG"
  by (cases "dget_default p ''signals'' (VList [])")
    (auto simp: structured_log_def log_step_completed_def log_step_denied_def get_field_def rbind_Inr_iff
      split: if_splits)

end
