(* ===== verification/Orchestrator.thy ===== *)
theory Orchestrator
  imports Analyzers Planners Stores Collector Redis_Arbiter Distribution Emitter
begin

text \<open>
  \<open>VeronicaOS\<close> (\<open>veronica/os.py\<close>): the pipeline around one execution step. The components
  are fields of a \<open>pipeline\<close> record (the protocols of \<open>veronica/protocols.py\<close>), each a
  function that returns its result and the component's next state, so the effects of a stage
  persist when its result is discarded because the stage overran its time budget. An optional
  method the code looks up with \<open>hasattr\<close> is an \<open>option\<close>. The clock is a parameter: what each
  stage took, and the current time. Sections under \<open>self._lock\<close> are not divided.
\<close>

record ('pl, 'ar, 'st, 'em) pipeline =
  pp_collect :: "context_snapshot \<Rightarrow> step_outcome result"
  pp_analyze :: "step_intent \<Rightarrow> step_outcome \<Rightarrow> history_view \<Rightarrow> analysis_result result"
  pp_estimate :: "step_intent \<Rightarrow> history_view \<Rightarrow> analysis_result option \<Rightarrow> cost_estimate result"
  pp_plan :: "'pl \<Rightarrow> analysis_result option \<Rightarrow> cost_estimate \<Rightarrow> budget_state \<Rightarrow> desired_policy result \<times> 'pl"
  pp_arbitrate :: "'ar \<Rightarrow> desired_policy list \<Rightarrow> pyfloat \<Rightarrow> (string, policy_config) pydict result \<times> 'ar"
  pp_set_context :: "(string \<Rightarrow> string \<Rightarrow> 'ar \<Rightarrow> 'ar) option"
  pp_settle :: "('ar \<Rightarrow> string \<Rightarrow> string \<Rightarrow> pyfloat \<Rightarrow> unit result \<times> 'ar) option"
  pp_build_history :: "'st \<Rightarrow> string \<Rightarrow> int \<Rightarrow> history_view result"
  pp_set_budget_context :: "('st \<Rightarrow> pyfloat \<Rightarrow> pyfloat \<Rightarrow> 'st) option"
  pp_commit :: "'st \<Rightarrow> step_outcome \<Rightarrow> analysis_result \<Rightarrow> step_handle \<Rightarrow> unit result \<times> 'st"
  pp_close :: "('st \<Rightarrow> unit result \<times> 'st) option"
  pp_emit :: "'em \<Rightarrow> string \<Rightarrow> (string, pyval) pydict \<Rightarrow> unit result \<times> 'em"

record ('pl, 'ar, 'st, 'em) os =
  os_planner :: 'pl
  os_arbiter :: 'ar
  os_store :: 'st
  os_emitter :: 'em
  os_budgets :: "(string, pyfloat) pydict"
  os_request_budget_usd :: pyfloat
  os_org_policy :: "org_policy option"
  os_last_analysis :: "analysis_result option"
  os_total_spent_usd :: pyfloat
  os_chain_spent_usd :: "(string, pyfloat) pydict"
  os_step_counter :: nat
  os_closed :: bool

record clock =
  ck_now :: pyfloat
  ck_elapsed :: "string \<Rightarrow> pyfloat"

definition DEFAULT_STAGE_BUDGETS :: "(string, pyfloat) pydict" where
  "DEFAULT_STAGE_BUDGETS = [(''collector'', Fin 5), (''analyzer'', Fin 20), (''cost_model'', Fin 10),
     (''planner'', Fin 30), (''arbiter'', Fin 20)]"

definition KNOWN_STAGES :: "string list" where
  "KNOWN_STAGES = [''collector'', ''analyzer'', ''cost_model'', ''planner'', ''arbiter'', ''store'', ''emit'']"

definition DEFAULT_TIMEOUT_MS :: int where "DEFAULT_TIMEOUT_MS = 30000"

definition new_os ::
  "'pl \<Rightarrow> 'ar \<Rightarrow> 'st \<Rightarrow> 'em \<Rightarrow> (string, pyfloat) pydict option \<Rightarrow> pyfloat \<Rightarrow> org_policy option \<Rightarrow>
   ('pl, 'ar, 'st, 'em) os" where
  "new_os pl ar st em budgets request_budget org =
     \<lparr>os_planner = pl, os_arbiter = ar, os_store = st, os_emitter = em,
      os_budgets = (case budgets of Some (b # bs) \<Rightarrow> b # bs | _ \<Rightarrow> DEFAULT_STAGE_BUDGETS),
      os_request_budget_usd = request_budget, os_org_policy = org, os_last_analysis = None,
      os_total_spent_usd = Fin 0, os_chain_spent_usd = [], os_step_counter = 1, os_closed = False\<rparr>"

section \<open>Before the step\<close>

definition opt_str :: "string option \<Rightarrow> pyval" where
  "opt_str s = (case s of None \<Rightarrow> VNone | Some x \<Rightarrow> VStr x)"

definition denied_payload :: "step_intent \<Rightarrow> string \<Rightarrow> (string, pyval) pydict" where
  "denied_payload i denial =
     [(''schema_version'', VInt 1), (''request_id'', VStr (si_request_id i)),
      (''step_id'', VStr (si_step_id i)), (''chain_id'', VStr (si_chain_id i)),
      (''kind'', VStr (si_kind i)), (''reason'', VStr denial), (''model'', opt_str (si_model i)),
      (''tool_name'', opt_str (si_tool_name i))]"

definition denied_handle :: "pyfloat \<Rightarrow> step_intent \<Rightarrow> string \<Rightarrow> step_handle" where
  "denied_handle now i denial =
     \<lparr>sh_intent = i,
      sh_policy = new_policy_config (si_chain_id i) (VFloat (Fin 0)) ''halt'' (VFloat now),
      sh_desired = \<lparr>dp_chain_id = si_chain_id i, dp_ceiling_usd = Fin 0, dp_ceiling_steps = 0,
        dp_ceiling_tokens_out = 0, dp_on_exceed = ''halt'', dp_fallback_model = None,
        dp_timeout_ms = si_timeout_ms i, dp_priority = 0\<rparr>,
      sh_cost = \<lparr>ce_estimated_usd = Fin 0, ce_confidence = Fin 1,
        ce_model_used = or_str (si_model i) ''unknown'', ce_basis = ''fallback''\<rparr>,
      sh_decision_meta = \<lparr>dm_risk_level = CriticalRisk, dm_recommendation = Halt, dm_degraded = True,
        dm_stage_time_ms = [(''org_policy'', Fin 0)], dm_org_denial = Some denial,
        dm_policy_hash = '''', dm_audit_id = ''''\<rparr>\<rparr>"

definition fallback_cost :: cost_estimate where
  "fallback_cost = \<lparr>ce_estimated_usd = flit (1 / 100), ce_confidence = flit (1 / 10),
     ce_model_used = ''fallback'', ce_basis = ''fallback''\<rparr>"

definition stage_budget :: "('pl, 'ar, 'st, 'em) os \<Rightarrow> string \<Rightarrow> pyfloat \<Rightarrow> pyfloat" where
  "stage_budget os stage d = dget_default (os_budgets os) stage d"

text \<open>
  A stage: its result, or the fallback and the degraded flag when it overran; with the time it
  took. An exception of the stage itself propagates.
\<close>

definition guarded ::
  "clock \<Rightarrow> string \<Rightarrow> pyfloat \<Rightarrow> 'a result \<Rightarrow> 'a \<Rightarrow> ('a \<times> bool \<times> pyfloat) result" where
  "guarded ck stage budget r fallback =
     (case run_with_budget r (ck_elapsed ck stage) budget stage of
        Inr (x, t) \<Rightarrow> Inr (x, False, t)
      | Inl (BudgetExceeded _ _ t) \<Rightarrow> Inr (fallback, True, t)
      | Inl (StageError e) \<Rightarrow> Inl e)"

definition budget_of :: "('pl, 'ar, 'st, 'em) os \<Rightarrow> string \<Rightarrow> budget_state" where
  "budget_of os chain =
     \<lparr>bs_request_remaining_usd = fsub (os_request_budget_usd os) (os_total_spent_usd os),
      bs_chain_remaining_usd =
        fsub (os_request_budget_usd os) (dget_default (os_chain_spent_usd os) chain (Fin 0)),
      bs_window_remaining_steps = 100\<rparr>"

definition fallback_desire :: "step_intent \<Rightarrow> pyfloat \<Rightarrow> desired_policy" where
  "fallback_desire i remaining =
     \<lparr>dp_chain_id = si_chain_id i, dp_ceiling_usd = fmin (Fin 1) remaining, dp_ceiling_steps = 100,
      dp_ceiling_tokens_out = 50000, dp_on_exceed = ''halt'', dp_fallback_model = None,
      dp_timeout_ms = si_timeout_ms i, dp_priority = 50\<rparr>"

definition clamp_and_name :: "org_policy option \<Rightarrow> step_intent \<Rightarrow> desired_policy \<Rightarrow> desired_policy result" where
  \<comment> \<open>the organization's clamp, then the chain of the intent where the planner gave none\<close>
  "clamp_and_name org i d =
     rbind (case org of None \<Rightarrow> Inr d | Some o' \<Rightarrow> org_clamp o' d) (\<lambda>d.
     Inr (if dp_chain_id d = [] then d\<lparr>dp_chain_id := si_chain_id i\<rparr> else d))"

definition fallback_policy :: "pyfloat \<Rightarrow> step_intent \<Rightarrow> pyfloat \<Rightarrow> policy_config" where
  "fallback_policy now i usd = new_policy_config (si_chain_id i) (VFloat usd) ''halt'' (VFloat now)"

text \<open>Steps 3 to 5, one section under the lock.\<close>

record planned_step =
  ps_desired :: desired_policy
  ps_configs :: "(string, policy_config) pydict"
  ps_degraded :: bool
  ps_times :: "(string, pyfloat) pydict"

definition plan_and_arbitrate ::
  "('pl, 'ar, 'st, 'em) pipeline \<Rightarrow> clock \<Rightarrow> step_intent \<Rightarrow> analysis_result option \<Rightarrow> cost_estimate \<Rightarrow>
   ('pl, 'ar, 'st, 'em) os \<Rightarrow> planned_step result \<times> ('pl, 'ar, 'st, 'em) os" where
  "plan_and_arbitrate pp ck i last_analysis cost os =
     (let budget = budget_of os (si_chain_id i);
          remaining = bs_request_remaining_usd budget;
          (planned, pl) = pp_plan pp (os_planner os) last_analysis cost budget;
          os1 = os\<lparr>os_planner := pl\<rparr> in
      case guarded ck ''planner'' (stage_budget os ''planner'' (Fin 30)) planned (fallback_desire i remaining) of
        Inl e \<Rightarrow> (Inl e, os1)
      | Inr (d0, deg1, t1) \<Rightarrow>
          (case clamp_and_name (os_org_policy os) i d0 of
             Inl e \<Rightarrow> (Inl e, os1)
           | Inr d \<Rightarrow>
               (let ar0 = (case pp_set_context pp of None \<Rightarrow> os_arbiter os
                           | Some f \<Rightarrow> f (si_request_id i) (si_step_id i) (os_arbiter os));
                    (configs, ar1) = pp_arbitrate pp ar0 [d] remaining;
                    os2 = os1\<lparr>os_arbiter := ar1\<rparr> in
                (rbind (guarded ck ''arbiter'' (stage_budget os ''arbiter'' (Fin 20)) configs
                         [(si_chain_id i, fallback_policy (ck_now ck) i (dp_ceiling_usd d))])
                   (\<lambda>(cs, deg2, t2).
                     Inr \<lparr>ps_desired = d, ps_configs = cs, ps_degraded = (deg1 \<or> deg2),
                          ps_times = [(''planner'', t1), (''arbiter'', t2)]\<rparr>),
                 os2))))"

definition decided_handle ::
  "pyfloat \<Rightarrow> step_intent \<Rightarrow> analysis_result option \<Rightarrow> cost_estimate \<Rightarrow> bool \<Rightarrow> pyfloat \<Rightarrow> planned_step \<Rightarrow>
   step_handle result" where
  \<comment> \<open>with the check of \<open>expires_at\<close>, which only logs\<close>
  "decided_handle now i last_analysis cost deg0 t0 ps =
     (let policy = dget_default (ps_configs ps) (si_chain_id i) (fallback_policy now i (Fin 1)) in
      rbind (unless_none (pc_expires_at policy) (val_lt (pc_expires_at policy) now)) (\<lambda>_.
      Inr \<lparr>sh_intent = i, sh_policy = policy, sh_desired = ps_desired ps, sh_cost = cost,
           sh_decision_meta =
             \<lparr>dm_risk_level = (case last_analysis of None \<Rightarrow> Nominal | Some a \<Rightarrow> ar_risk_level a),
              dm_recommendation = (case last_analysis of None \<Rightarrow> Continue | Some a \<Rightarrow> ar_recommendation a),
              dm_degraded = (deg0 \<or> ps_degraded ps), dm_stage_time_ms = (''cost_model'', t0) # ps_times ps,
              dm_org_denial = None, dm_policy_hash = '''', dm_audit_id = ''''\<rparr>\<rparr>))"

definition before_step ::
  "('pl, 'ar, 'st, 'em) pipeline \<Rightarrow> clock \<Rightarrow> step_intent \<Rightarrow>
   ('pl, 'ar, 'st, 'em) os \<Rightarrow> step_handle result \<times> ('pl, 'ar, 'st, 'em) os" where
  "before_step pp ck i os =
     (case (case os_org_policy os of None \<Rightarrow> None | Some org \<Rightarrow> org_validate org i) of
        Some denial \<Rightarrow>
          (Inr (denied_handle (ck_now ck) i denial),
           os\<lparr>os_emitter := snd (pp_emit pp (os_emitter os) ''step_denied'' (denied_payload i denial))\<rparr>)
      | None \<Rightarrow>
          (case pp_build_history pp (os_store os) (si_chain_id i) 50 of
             Inl e \<Rightarrow> (Inl e, os)
           | Inr history \<Rightarrow>
               (let last_analysis = os_last_analysis os in
                case guarded ck ''cost_model'' (stage_budget os ''cost_model'' (Fin 10))
                       (pp_estimate pp i history last_analysis) fallback_cost of
                  Inl e \<Rightarrow> (Inl e, os)
                | Inr (cost, deg0, t0) \<Rightarrow>
                    (let (planned, os') = plan_and_arbitrate pp ck i last_analysis cost os in
                     (rbind planned (decided_handle (ck_now ck) i last_analysis cost deg0 t0), os')))))"

section \<open>After the step\<close>

definition risk_name :: "risk_level \<Rightarrow> string" where
  "risk_name r = (case r of Nominal \<Rightarrow> ''nominal'' | Elevated \<Rightarrow> ''elevated'' | CriticalRisk \<Rightarrow> ''critical'')"

definition recommendation_name :: "recommendation \<Rightarrow> string" where
  "recommendation_name r = (case r of Continue \<Rightarrow> ''continue'' | Loosen \<Rightarrow> ''loosen''
     | Tighten \<Rightarrow> ''tighten'' | Halt \<Rightarrow> ''halt'')"

definition severity_name :: "severity \<Rightarrow> string" where
  "severity_name s = (case s of Info \<Rightarrow> ''info'' | Warning \<Rightarrow> ''warning'' | CriticalSev \<Rightarrow> ''critical'')"

definition neutral_analysis :: analysis_result where
  "neutral_analysis = \<lparr>ar_signals = [], ar_risk_level = Nominal, ar_recommendation = Continue\<rparr>"

definition degrade_reason :: "(string, pyfloat) pydict \<Rightarrow> step_handle \<Rightarrow> pyval" where
  "degrade_reason budgets h =
     (if \<not> dm_degraded (sh_decision_meta h) then VNone
      else if pc_fallback_model (sh_policy h) \<noteq> VNone then VStr ''fallback_model''
      else if list_ex (\<lambda>(stage, t). let b = dget_default budgets stage (Fin 0) in
                          flt (Fin 0) b \<and> flt b t) (dm_stage_time_ms (sh_decision_meta h))
      then VStr ''time_budget'' else VStr ''other'')"

definition signal_dict :: "signal \<Rightarrow> pyval" where
  "signal_dict sg = VDict [(''kind'', VStr (sg_kind sg)), (''severity'', VStr (severity_name (sg_severity sg)))]"

definition completed_payload ::
  "(string, pyfloat) pydict \<Rightarrow> step_handle \<Rightarrow> step_outcome \<Rightarrow> analysis_result \<Rightarrow>
   (string, pyfloat) pydict \<Rightarrow> string \<Rightarrow> string \<Rightarrow> (string, pyval) pydict" where
  "completed_payload budgets h out a stages policy_hash audit_id =
     [(''schema_version'', VInt 1), (''request_id'', VStr (so_request_id out)),
      (''step_id'', VStr (so_step_id out)), (''chain_id'', VStr (so_chain_id out)),
      (''kind'', VStr (so_kind out)), (''status'', VStr (so_status out)),
      (''cost_usd'', VFloat (so_cost_usd out)), (''tokens_in'', VInt (so_tokens_in out)),
      (''tokens_out'', VInt (so_tokens_out out)), (''elapsed_ms'', VFloat (so_elapsed_ms out)),
      (''risk_level'', VStr (risk_name (ar_risk_level a))),
      (''recommendation'', VStr (recommendation_name (ar_recommendation a))),
      (''degraded'', VBool (dm_degraded (sh_decision_meta h))),
      (''degrade_reason'', degrade_reason budgets h),
      (''signals'', VList (map signal_dict (ar_signals a))),
      (''stage_time_ms'', VDict (map (\<lambda>(k, v). (k, VFloat v)) (filter (\<lambda>(k, v). k \<in> set KNOWN_STAGES) stages))),
      (''policy_hash'', VStr policy_hash), (''audit_id'', VStr audit_id)]"

definition record_spend ::
  "step_outcome \<Rightarrow> analysis_result \<Rightarrow> ('pl, 'ar, 'st, 'em) os \<Rightarrow> ('pl, 'ar, 'st, 'em) os" where
  "record_spend out a os =
     (let cost = (if isfinite (so_cost_usd out) then so_cost_usd out else Fin 0) in
      os\<lparr>os_last_analysis := Some a,
         os_total_spent_usd := fadd (os_total_spent_usd os) cost,
         os_chain_spent_usd := dput (os_chain_spent_usd os) (so_chain_id out)
           (fadd (dget_default (os_chain_spent_usd os) (so_chain_id out) (Fin 0)) cost)\<rparr>)"

definition merge_times :: "(string, pyfloat) pydict \<Rightarrow> (string, pyfloat) pydict \<Rightarrow> (string, pyfloat) pydict" where
  "merge_times a b = fold (\<lambda>(k, v) m. dput m k v) b a"

definition commit_step ::
  "('pl, 'ar, 'st, 'em) pipeline \<Rightarrow> step_outcome \<Rightarrow> analysis_result \<Rightarrow> step_handle \<Rightarrow>
   ('pl, 'ar, 'st, 'em) os \<Rightarrow> unit result \<times> ('pl, 'ar, 'st, 'em) os" where
  \<comment> \<open>steps 5 and 5b: the budget context, the commit, then the settlement\<close>
  "commit_step pp out a h os =
     (let st0 = (case pp_set_budget_context pp of None \<Rightarrow> os_store os
                 | Some f \<Rightarrow> f (os_store os) (os_request_budget_usd os)
                     (fsub (os_request_budget_usd os) (os_total_spent_usd os)));
          (committed, st1) = pp_commit pp st0 out a h;
          os1 = os\<lparr>os_store := st1\<rparr> in
      case committed of
        Inl e \<Rightarrow> (Inl e, os1)
      | Inr _ \<Rightarrow>
          (case pp_settle pp of
             None \<Rightarrow> (Inr (), os1)
           | Some settle \<Rightarrow>
               (let (settled, ar1) = settle (os_arbiter os1) (si_request_id (sh_intent h))
                       (si_step_id (sh_intent h)) (so_cost_usd out) in
                (settled, os1\<lparr>os_arbiter := ar1\<rparr>))))"

definition after_step ::
  "('pl, 'ar, 'st, 'em) pipeline \<Rightarrow> digest \<Rightarrow> string \<Rightarrow> clock \<Rightarrow> step_handle \<Rightarrow> context_snapshot \<Rightarrow>
   ('pl, 'ar, 'st, 'em) os \<Rightarrow> unit result \<times> ('pl, 'ar, 'st, 'em) os" where
  "after_step pp sha audit_id ck h snapshot os =
     (case run_with_budget (pp_collect pp snapshot) (ck_elapsed ck ''collector'')
             (stage_budget os ''collector'' (Fin 5)) ''collector'' of
        Inl (BudgetExceeded _ _ _) \<Rightarrow> (Inr (), os)
      | Inl (StageError e) \<Rightarrow> (Inl e, os)
      | Inr (out, t1) \<Rightarrow>
          (case rbind (pp_build_history pp (os_store os) (so_chain_id out) 50) (\<lambda>history.
                  guarded ck ''analyzer'' (stage_budget os ''analyzer'' (Fin 20))
                    (pp_analyze pp (sh_intent h) out history) neutral_analysis) of
             Inl e \<Rightarrow> (Inl e, os)
           | Inr (a, _, t2) \<Rightarrow>
               (let (r, os1) = commit_step pp out a h (record_spend out a os) in
                case r of
                  Inl e \<Rightarrow> (Inl e, os1)
                | Inr _ \<Rightarrow>
                    (let stages = merge_times (dm_stage_time_ms (sh_decision_meta h))
                           [(''collector'', t1), (''analyzer'', t2), (''store'', ck_elapsed ck ''store'')];
                         payload = completed_payload (os_budgets os1) h out a stages
                           (compute_policy_hash sha (sh_policy h)) audit_id;
                         (_, em) = pp_emit pp (os_emitter os1) ''step_completed'' payload in
                     (Inr (), os1\<lparr>os_emitter := em\<rparr>)))))"

section \<open>The step\<close>

definition normalize_intent ::
  "string \<Rightarrow> step_intent \<Rightarrow> ('pl, 'ar, 'st, 'em) os \<Rightarrow> step_intent \<times> ('pl, 'ar, 'st, 'em) os" where
  "normalize_intent uuid i os =
     (i\<lparr>si_request_id := (if si_request_id i = [] then uuid else si_request_id i),
        si_chain_id := (if si_chain_id i = [] then ''default'' else si_chain_id i),
        si_step_id := (if si_step_id i = [] then ''step-'' @ show_nat (os_step_counter os) else si_step_id i),
        si_timeout_ms := (if si_timeout_ms i = None then Some DEFAULT_TIMEOUT_MS else si_timeout_ms i)\<rparr>,
      if si_step_id i = [] then os\<lparr>os_step_counter := os_step_counter os + 1\<rparr> else os)"

text \<open>
  The kernel's \<open>ExecutionContext\<close> is not part of the repository: a state \<open>'k\<close> with the
  operations the code calls.
\<close>

record ('k, 'fn, 'r) kernel =
  kn_new :: "exec_config \<Rightarrow> string \<Rightarrow> string \<Rightarrow> 'k"
  kn_wrap_tool :: "'fn \<Rightarrow> 'k \<Rightarrow> 'r result \<times> 'k"
  kn_wrap_llm :: "'fn \<Rightarrow> 'k \<Rightarrow> 'r result \<times> 'k"
  kn_snapshot :: "'k \<Rightarrow> context_snapshot result"
  kn_safety_event :: "safety_event \<Rightarrow> safety_event result" \<comment> \<open>its construction, or the failure of an import\<close>

definition check_denial :: "step_handle \<Rightarrow> unit result" where
  "check_denial h = (case dm_org_denial (sh_decision_meta h) of
     None \<Rightarrow> Inr () | Some reason \<Rightarrow> Inl (OrgPolicyDenied reason))"

definition run_llm :: "('k, 'fn, 'r) kernel \<Rightarrow> step_handle \<Rightarrow> 'fn \<Rightarrow> 'k \<Rightarrow> 'r result \<times> 'k" where
  "run_llm kn h fn k = (case check_denial h of Inl e \<Rightarrow> (Inl e, k) | Inr _ \<Rightarrow> kn_wrap_llm kn fn k)"

definition run_tool :: "('k, 'fn, 'r) kernel \<Rightarrow> step_handle \<Rightarrow> 'fn \<Rightarrow> 'k \<Rightarrow> 'r result \<times> 'k" where
  "run_tool kn h fn k = (case check_denial h of Inl e \<Rightarrow> (Inl e, k) | Inr _ \<Rightarrow> kn_wrap_tool kn fn k)"

definition run :: "('k, 'fn, 'r) kernel \<Rightarrow> step_handle \<Rightarrow> 'fn \<Rightarrow> 'k \<Rightarrow> 'r result \<times> 'k" where
  "run kn h fn k = (case check_denial h of
     Inl e \<Rightarrow> (Inl e, k)
   | Inr _ \<Rightarrow> if si_kind (sh_intent h) = ''tool'' then kn_wrap_tool kn fn k else kn_wrap_llm kn fn k)"

definition fallback_snapshot ::
  "(safety_event \<Rightarrow> safety_event result) \<Rightarrow> pyfloat \<Rightarrow> step_intent \<Rightarrow> string \<Rightarrow> context_snapshot" where
  "fallback_snapshot mk_event now i reason =
     \<lparr>cs_chain_id = si_chain_id i, cs_request_id = si_request_id i, cs_step_count = 0,
      cs_cost_usd_accumulated = Fin 0, cs_retries_used = 0, cs_aborted = True,
      cs_abort_reason = Some reason, cs_elapsed_ms = Fin 0, cs_nodes = [],
      cs_events =
        (case mk_event \<lparr>se_event_type = ''snapshot_failed'', se_decision = ''HALT'', se_reason = Some reason,
           se_hook = ''veronica_os'', se_request_id = None, se_ts = Some now,
           se_metadata = [(''step_id'', VStr (si_step_id i))]\<rparr> of
           Inr e \<Rightarrow> [e] | Inl _ \<Rightarrow> [])\<rparr>"

definition step ::
  "('pl, 'ar, 'st, 'em) pipeline \<Rightarrow> ('k, 'fn, 'r) kernel \<Rightarrow> digest \<Rightarrow> string \<Rightarrow> clock \<Rightarrow> clock \<Rightarrow> step_intent \<Rightarrow>
   (step_handle \<Rightarrow> 'k \<Rightarrow> 'r result \<times> 'k) \<Rightarrow> ('pl, 'ar, 'st, 'em) os \<Rightarrow> 'r result \<times> ('pl, 'ar, 'st, 'em) os" where
  "step pp kn sha audit_id ck1 ck2 i body os =
     (let (h, os1) = before_step pp ck1 i os in
      case rbind h (\<lambda>h. rbind (to_exec_config (sh_policy h)) (\<lambda>ec. Inr (h, ec))) of
        Inl e \<Rightarrow> (Inl e, os1)
      | Inr (h, ec) \<Rightarrow>
          (let (res, k) = body h (kn_new kn ec (si_request_id i) (si_chain_id i));
               snapshot = (case kn_snapshot kn k of
                 Inr s \<Rightarrow> s | Inl _ \<Rightarrow> fallback_snapshot (kn_safety_event kn) (ck_now ck2) i ''snapshot_retrieval_failed'');
               (after, os2) = after_step pp sha audit_id ck2 h snapshot os1 in
           (case after of Inl e \<Rightarrow> Inl e | Inr _ \<Rightarrow> res, os2)))"

definition run_step ::
  "('pl, 'ar, 'st, 'em) pipeline \<Rightarrow> ('k, 'fn, 'r) kernel \<Rightarrow> digest \<Rightarrow> string \<Rightarrow> string \<Rightarrow> clock \<Rightarrow> clock \<Rightarrow>
   step_intent \<Rightarrow> 'fn \<Rightarrow> ('pl, 'ar, 'st, 'em) os \<Rightarrow> 'r result \<times> ('pl, 'ar, 'st, 'em) os" where
  "run_step pp kn sha audit_id uuid ck1 ck2 i fn os =
     (let (i', os') = normalize_intent uuid i os in
      step pp kn sha audit_id ck1 ck2 i' (\<lambda>h. run kn h fn) os')"

definition close_os :: "('pl, 'ar, 'st, 'em) pipeline \<Rightarrow> ('pl, 'ar, 'st, 'em) os \<Rightarrow> unit result \<times> ('pl, 'ar, 'st, 'em) os" where
  "close_os pp os =
     (if os_closed os then (Inr (), os)
      else (case pp_close pp of
              None \<Rightarrow> (Inr (), os\<lparr>os_closed := True\<rparr>)
            | Some f \<Rightarrow> (let (r, st) = f (os_store os) in (r, os\<lparr>os_store := st, os_closed := True\<rparr>))))"

definition with_os ::
  "('pl, 'ar, 'st, 'em) pipeline \<Rightarrow> (('pl, 'ar, 'st, 'em) os \<Rightarrow> 'b result \<times> ('pl, 'ar, 'st, 'em) os) \<Rightarrow>
   ('pl, 'ar, 'st, 'em) os \<Rightarrow> 'b result \<times> ('pl, 'ar, 'st, 'em) os" where
  \<comment> \<open>\<open>with os:\<close> an exception of the body propagates, unless closing raises another\<close>
  "with_os pp body os =
     (let (res, os1) = body os; (closed, os2) = close_os pp os1 in
      (case closed of Inl e \<Rightarrow> Inl e | Inr _ \<Rightarrow> res, os2))"

lemma close_os_closed [simp]: "os_closed (snd (close_os pp os))"
  by (simp add: close_os_def case_prod_beta split: option.split)

lemma close_os_again: "close_os pp (snd (close_os pp os)) = (Inr (), snd (close_os pp os))"
  by (subst close_os_def) simp

lemma with_os_closed: "os_closed (snd (with_os pp body os))"
  by (simp add: with_os_def case_prod_beta)

section \<open>Denial\<close>

definition denial_of :: "('pl, 'ar, 'st, 'em) os \<Rightarrow> step_intent \<Rightarrow> string option" where
  "denial_of os i = (case os_org_policy os of None \<Rightarrow> None | Some org \<Rightarrow> org_validate org i)"

lemma before_step_denied:
  "denial_of os i = Some r \<Longrightarrow> before_step pp ck i os =
     (Inr (denied_handle (ck_now ck) i r),
      os\<lparr>os_emitter := snd (pp_emit pp (os_emitter os) ''step_denied'' (denied_payload i r))\<rparr>)"
  by (simp add: before_step_def decided_handle_def denial_of_def)

lemma denied_exec_config: "is_ok (to_exec_config (sh_policy (denied_handle now i r)))"
  by (simp add: to_exec_config_ok_iff denied_handle_def new_policy_config_def)

lemma denied_run: "run kn (denied_handle now i r) fn k = (Inl (OrgPolicyDenied r), k)"
  by (simp add: run_def check_denial_def denied_handle_def)

text \<open>
  A denied step raises and never hands the caller's function to the kernel: the outcome is the
  same whatever the kernel's wrappers do.
\<close>

lemma step_denied_eq:
  assumes "denial_of os i = Some r" "to_exec_config (sh_policy (denied_handle (ck_now ck1) i r)) = Inr ec"
    and "snap = (case kn_snapshot kn (kn_new kn ec (si_request_id i) (si_chain_id i)) of
           Inr s \<Rightarrow> s | Inl _ \<Rightarrow> fallback_snapshot (kn_safety_event kn) (ck_now ck2) i ''snapshot_retrieval_failed'')"
    and "os1 = os\<lparr>os_emitter := snd (pp_emit pp (os_emitter os) ''step_denied'' (denied_payload i r))\<rparr>"
    and "ao = after_step pp sha audit ck2 (denied_handle (ck_now ck1) i r) snap os1"
  shows "step pp kn sha audit ck1 ck2 i (\<lambda>h. run kn h fn) os =
     ((case fst ao of Inl e \<Rightarrow> Inl e | Inr _ \<Rightarrow> Inl (OrgPolicyDenied r)), snd ao)"
  unfolding assms(3-5)
  by (simp only: step_def before_step_denied [OF assms(1)] Let_def prod.case rbind.simps sum.case
      assms(2) denied_run case_prod_unfold fst_conv snd_conv)

lemma denied_step:
  assumes "denial_of os i = Some r"
    and "kn_new kn' = kn_new kn" "kn_snapshot kn' = kn_snapshot kn" "kn_safety_event kn' = kn_safety_event kn"
  shows "step pp kn' sha audit ck1 ck2 i (\<lambda>h. run kn' h fn') os =
     step pp kn sha audit ck1 ck2 i (\<lambda>h. run kn h fn) os"
    and "\<exists>e. fst (step pp kn sha audit ck1 ck2 i (\<lambda>h. run kn h fn) os) = Inl e"
proof -
  obtain ec where ec: "to_exec_config (sh_policy (denied_handle (ck_now ck1) i r)) = Inr ec"
    using denied_exec_config [of "ck_now ck1" i r] unfolding is_ok_iff by blast
  note eq = step_denied_eq [OF assms(1) ec refl refl refl]
  show "step pp kn' sha audit ck1 ck2 i (\<lambda>h. run kn' h fn') os =
     step pp kn sha audit ck1 ck2 i (\<lambda>h. run kn h fn) os"
    unfolding eq assms(2-4) ..
  show "\<exists>e. fst (step pp kn sha audit ck1 ck2 i (\<lambda>h. run kn h fn) os) = Inl e"
    unfolding eq fst_conv by (simp split: sum.split)
qed

section \<open>The ceiling of a step\<close>

lemma guarded_ok:
  "guarded ck st b r fb = Inr (x, deg, t) \<Longrightarrow> r = Inr x \<and> \<not> deg \<or> x = fb \<and> deg"
  by (auto simp: guarded_def run_with_budget_def split: sum.splits if_splits)

lemma plan_and_arbitrate_ok:
  assumes "fst (plan_and_arbitrate pp ck i la cost os) = Inr ps"
  shows "\<exists>d0 ar0. clamp_and_name (os_org_policy os) i d0 = Inr (ps_desired ps) \<and>
     (fst (pp_plan pp (os_planner os) la cost (budget_of os (si_chain_id i))) = Inr d0 \<or>
      ps_degraded ps \<and> d0 = fallback_desire i (bs_request_remaining_usd (budget_of os (si_chain_id i)))) \<and>
     ar0 = (case pp_set_context pp of None \<Rightarrow> os_arbiter os
            | Some f \<Rightarrow> f (si_request_id i) (si_step_id i) (os_arbiter os)) \<and>
     (fst (pp_arbitrate pp ar0 [ps_desired ps] (bs_request_remaining_usd (budget_of os (si_chain_id i)))) =
        Inr (ps_configs ps) \<or>
      ps_configs ps = [(si_chain_id i, fallback_policy (ck_now ck) i (dp_ceiling_usd (ps_desired ps)))])"
  using assms
  by (auto simp: plan_and_arbitrate_def Let_def rbind_Inr_iff
      dest!: guarded_ok split: prod.splits sum.splits)

lemma before_step_ok:
  assumes "fst (before_step pp ck i os) = Inr h" "denial_of os i = None"
  shows "\<exists>cost ps. fst (plan_and_arbitrate pp ck i (os_last_analysis os) cost os) = Inr ps \<and>
     sh_intent h = i \<and> sh_desired h = ps_desired ps \<and>
     (ps_degraded ps \<longrightarrow> dm_degraded (sh_decision_meta h)) \<and>
     sh_policy h = dget_default (ps_configs ps) (si_chain_id i) (fallback_policy (ck_now ck) i (Fin 1)) \<and>
     dm_org_denial (sh_decision_meta h) = None"
proof -
  obtain history where hist: "pp_build_history pp (os_store os) (si_chain_id i) 50 = Inr history"
    using assms by (cases "pp_build_history pp (os_store os) (si_chain_id i) 50") (simp_all add: before_step_def decided_handle_def denial_of_def)
  let ?g = "guarded ck ''cost_model'' (stage_budget os ''cost_model'' (Fin 10))
      (pp_estimate pp i history (os_last_analysis os)) fallback_cost"
  obtain cost deg0 t0 where g: "?g = Inr (cost, deg0, t0)"
    using assms hist by (cases ?g) (auto simp: before_step_def decided_handle_def denial_of_def)
  obtain r os' where plan: "plan_and_arbitrate pp ck i (os_last_analysis os) cost os = (r, os')"
    by fastforce
  obtain ps where r: "r = Inr ps"
    using assms hist g plan by (cases r) (auto simp: before_step_def decided_handle_def denial_of_def)
  show ?thesis
    using assms hist g plan r
    by (intro exI [of _ cost] exI [of _ ps]) (auto simp: before_step_def decided_handle_def denial_of_def rbind_Inr_iff Let_def)
qed

lemma clamp_and_name_ceiling:
  assumes "clamp_and_name (Some org) i d0 = Inr d" "op_max_ceiling_usd org = Some m" "isfinite m"
  shows "isfinite (dp_ceiling_usd d) \<and> fle (dp_ceiling_usd d) m"
  using assms org_clamp_within
  by (auto simp: clamp_and_name_def rbind_Inr_iff within_org_def)

lemma clamp_and_name_chain:
  assumes "clamp_and_name org i d0 = Inr d" "dp_chain_id d0 \<in> {[], si_chain_id i}"
  shows "dp_chain_id d = si_chain_id i"
proof -
  obtain d1 where d1: "(case org of None \<Rightarrow> Inr d0 | Some o' \<Rightarrow> org_clamp o' d0) = Inr d1"
    and d: "d = (if dp_chain_id d1 = [] then d1\<lparr>dp_chain_id := si_chain_id i\<rparr> else d1)"
    using assms(1) by (auto simp: clamp_and_name_def rbind_Inr_iff)
  have "dp_chain_id d1 = dp_chain_id d0"
    using d1 org_clamp_frame by (auto split: option.splits)
  then show ?thesis using d assms(2) by auto
qed

context arbiter_contract
begin

text \<open>
  With any arbiter that keeps the contract, a step's ceiling is the arbiter's allocation, the
  desired ceiling when the arbiter overran its time, or one dollar when the arbiter left the
  chain out.
\<close>

lemma step_ceiling:
  assumes "fst (before_step pp ck i os) = Inr h" "denial_of os i = None"
    and arb: "pp_arbitrate pp = arbitrate" and inv: "inv (os_arbiter os)"
    and ctx: "\<And>f s. pp_set_context pp = Some f \<Longrightarrow> inv s \<Longrightarrow> inv (f (si_request_id i) (si_step_id i) s)"
    and b: "isfinite (bs_request_remaining_usd (budget_of os (si_chain_id i)))"
      "is_double (bs_request_remaining_usd (budget_of os (si_chain_id i)))"
    and d: "isfinite (dp_ceiling_usd (sh_desired h))" "nonneg_float (dp_ceiling_usd (sh_desired h))"
      "is_double (dp_ceiling_usd (sh_desired h))"
  shows "\<exists>x. pc_ceiling_usd (sh_policy h) = VFloat x \<and>
     (fle x (cap (dp_ceiling_usd (sh_desired h))) \<or> x = dp_ceiling_usd (sh_desired h) \<or> x = Fin 1)"
proof -
  obtain cost ps where plan: "fst (plan_and_arbitrate pp ck i (os_last_analysis os) cost os) = Inr ps"
    and h: "sh_desired h = ps_desired ps"
      "sh_policy h = dget_default (ps_configs ps) (si_chain_id i) (fallback_policy (ck_now ck) i (Fin 1))"
    using before_step_ok [OF assms(1,2)] by blast
  from plan_and_arbitrate_ok [OF plan] obtain ar0 where
    ar0: "inv ar0" and
    configs: "fst (pp_arbitrate pp ar0 [ps_desired ps] (bs_request_remaining_usd (budget_of os (si_chain_id i)))) =
        Inr (ps_configs ps) \<or>
      ps_configs ps = [(si_chain_id i, fallback_policy (ck_now ck) i (dp_ceiling_usd (ps_desired ps)))]"
    using inv ctx by (auto split: option.splits)
  show ?thesis
  proof (cases "dget (ps_configs ps) (si_chain_id i)")
    case None
    then show ?thesis using h by (simp add: fallback_policy_def new_policy_config_def)
  next
    case (Some p)
    from configs show ?thesis
    proof
      assume "fst (pp_arbitrate pp ar0 [ps_desired ps] (bs_request_remaining_usd (budget_of os (si_chain_id i)))) =
        Inr (ps_configs ps)"
      from arbitrate_cap [OF ar0 this [unfolded arb] Some b] d show ?thesis
        using h Some by auto
    next
      assume "ps_configs ps = [(si_chain_id i, fallback_policy (ck_now ck) i (dp_ceiling_usd (ps_desired ps)))]"
      then show ?thesis using h by (simp add: fallback_policy_def new_policy_config_def)
    qed
  qed
qed

end

subsection \<open>The passthrough arbiter\<close>

abbreviation passthrough_arb where
  "passthrough_arb \<equiv> (\<lambda>now ds b. (passthrough_arbitrate now ds b, now))"

lemma passthrough_single:
  assumes "passthrough_arbitrate now [d] b = Inr m" "isfinite b"
    "isfinite (dp_ceiling_usd d)" "is_double (dp_ceiling_usd d)"
  shows "\<exists>p x. dget m (dp_chain_id d) = Some p \<and> pc_ceiling_usd p = VFloat x \<and> fle x (dp_ceiling_usd d)"
proof -
  obtain p where p: "dget m (dp_chain_id d) = Some p"
    using assms(1) by (auto simp: passthrough_arbitrate_def rbind_Inr_iff)
  show ?thesis
  proof (cases "nonneg_float (dp_ceiling_usd d)")
    case True
    then show ?thesis using passthrough_single_cap [OF assms(1) p assms(2,3) _ assms(4)] p by auto
  next
    case False
    then have "passthrough_scale [d] b = Inr (Fin 1)"
      using assms(3,4) by (cases "dp_ceiling_usd d") (auto simp: passthrough_scale_def fsum_def rnd_Fin Let_def)
    then show ?thesis using assms p
      by (auto simp: passthrough_arbitrate_def isfinite_notNaN)
  qed
qed

text \<open>
  The policy of a step never allows more than was desired, unless the arbiter left the chain
  out; the passthrough arbiter never does.
\<close>

lemma passthrough_policy_le_desired:
  assumes "fst (before_step pp ck i os) = Inr h" "denial_of os i = None"
    and arb: "pp_arbitrate pp = passthrough_arb"
    and chain: "\<And>la cost b d. fst (pp_plan pp (os_planner os) la cost b) = Inr d \<Longrightarrow> dp_chain_id d \<in> {[], si_chain_id i}"
    and b: "isfinite (bs_request_remaining_usd (budget_of os (si_chain_id i)))"
    and d: "isfinite (dp_ceiling_usd (sh_desired h))" "is_double (dp_ceiling_usd (sh_desired h))"
  shows "\<exists>x. pc_ceiling_usd (sh_policy h) = VFloat x \<and> fle x (dp_ceiling_usd (sh_desired h))"
proof -
  obtain cost ps where plan: "fst (plan_and_arbitrate pp ck i (os_last_analysis os) cost os) = Inr ps"
    and h: "sh_desired h = ps_desired ps"
      "sh_policy h = dget_default (ps_configs ps) (si_chain_id i) (fallback_policy (ck_now ck) i (Fin 1))"
    using before_step_ok [OF assms(1,2)] by blast
  from plan_and_arbitrate_ok [OF plan] obtain d0 ar0 where
    d0: "clamp_and_name (os_org_policy os) i d0 = Inr (ps_desired ps)" "dp_chain_id d0 \<in> {[], si_chain_id i}"
    and configs: "fst (pp_arbitrate pp ar0 [ps_desired ps] (bs_request_remaining_usd (budget_of os (si_chain_id i)))) =
        Inr (ps_configs ps) \<or>
      ps_configs ps = [(si_chain_id i, fallback_policy (ck_now ck) i (dp_ceiling_usd (ps_desired ps)))]"
    using chain by (fastforce simp: fallback_desire_def)
  have c: "dp_chain_id (ps_desired ps) = si_chain_id i" using clamp_and_name_chain d0 by blast
  from configs show ?thesis
  proof
    assume "fst (pp_arbitrate pp ar0 [ps_desired ps] (bs_request_remaining_usd (budget_of os (si_chain_id i)))) =
        Inr (ps_configs ps)"
    then show ?thesis using passthrough_single [OF _ b, of ar0 "ps_desired ps" "ps_configs ps"] d h c arb
      by auto
  next
    assume "ps_configs ps = [(si_chain_id i, fallback_policy (ck_now ck) i (dp_ceiling_usd (ps_desired ps)))]"
    then show ?thesis using h d by (auto simp: fallback_policy_def new_policy_config_def isfinite_notNaN)
  qed
qed

lemma step_desired_within_org:
  assumes "fst (before_step pp ck i os) = Inr h" "denial_of os i = None"
    and "os_org_policy os = Some org" "op_max_ceiling_usd org = Some m" "isfinite m"
  shows "isfinite (dp_ceiling_usd (sh_desired h)) \<and> fle (dp_ceiling_usd (sh_desired h)) m"
proof -
  obtain cost ps where "fst (plan_and_arbitrate pp ck i (os_last_analysis os) cost os) = Inr ps"
    and "sh_desired h = ps_desired ps"
    using before_step_ok [OF assms(1,2)] by blast
  then show ?thesis using plan_and_arbitrate_ok clamp_and_name_ceiling assms(3-5) by metis
qed

subsection \<open>The default pipeline\<close>

definition default_pipeline ::
  "int \<Rightarrow> (string \<Rightarrow> bool) \<Rightarrow> (string \<Rightarrow> int \<Rightarrow> int \<Rightarrow> pyfloat) \<Rightarrow> table_cost_model \<Rightarrow>
   (planner, pyfloat, memory_store, 'em) pipeline" where
  "default_pipeline now_ms known price model =
     \<lparr>pp_collect = collect now_ms,
      pp_analyze = (\<lambda>i out h. Inr (rule_analyze i out h)),
      pp_estimate = (\<lambda>i h a. Inr (table_estimate known price model i h a)),
      pp_plan = (\<lambda>p a c b. let (d, p') = simple_plan p a c b in (Inr d, p')),
      pp_arbitrate = passthrough_arb,
      pp_set_context = None, pp_settle = None,
      pp_build_history = memory_build_history, pp_set_budget_context = None,
      pp_commit = (\<lambda>s out a h. memory_commit s out a), pp_close = None,
      pp_emit = (\<lambda>em t payload. (Inr (), null_emit t em))\<rparr>"

lemma default_pipeline_sel [simp]:
  "pp_collect (default_pipeline n k pr m) = collect n"
  "pp_analyze (default_pipeline n k pr m) = (\<lambda>i out h. Inr (rule_analyze i out h))"
  "pp_arbitrate (default_pipeline n k pr m) = passthrough_arb"
  "pp_set_context (default_pipeline n k pr m) = None"
  "pp_settle (default_pipeline n k pr m) = None"
  "pp_build_history (default_pipeline n k pr m) = memory_build_history"
  "pp_emit (default_pipeline n k pr m) = (\<lambda>em t payload. (Inr (), null_emit t em))"
  by (simp_all add: default_pipeline_def)

lemma clamp_and_name_le:
  assumes "clamp_and_name org i d0 = Inr d" "isfinite (dp_ceiling_usd d0)"
  shows "fle (dp_ceiling_usd d) (dp_ceiling_usd d0)"
proof -
  have "fle (clamp_ceiling o' (dp_ceiling_usd d0)) (dp_ceiling_usd d0)" for o'
    using assms(2) by (auto simp: clamp_ceiling_def isfinite_notNaN flt_imp_fle split: option.splits)
  then show ?thesis using assms
    by (auto simp: clamp_and_name_def org_clamp_def rbind_Inr_iff isfinite_notNaN split: option.splits if_splits)
qed

definition plan_total ::
  "('p \<Rightarrow> analysis_result option \<Rightarrow> cost_estimate \<Rightarrow> budget_state \<Rightarrow> desired_policy \<times> 'p) \<Rightarrow>
   'p \<Rightarrow> analysis_result option \<Rightarrow> cost_estimate \<Rightarrow> budget_state \<Rightarrow> desired_policy result \<times> 'p" where
  "plan_total plan p a c b = (let (d, p') = plan p a c b in (Inr d, p'))"

lemma plan_total_fst: "fst (plan_total plan p a c b) = Inr (fst (plan p a c b))"
  by (simp add: plan_total_def case_prod_unfold Let_def)

context planner_contract
begin

text \<open>
  With any planner that keeps the contract, an undegraded step desires at most what the chain
  has left of the request budget.
\<close>

lemma step_within_chain_budget:
  assumes "fst (before_step pp ck i os) = Inr h" "denial_of os i = None"
    and "\<not> dm_degraded (sh_decision_meta h)"
    and plan: "pp_plan pp = plan_total plan" and ok: "inv (os_planner os)"
    and fin: "\<And>a c. isfinite (dp_ceiling_usd (fst (plan (os_planner os) a c (budget_of os (si_chain_id i)))))"
    and rem: "bs_chain_remaining_usd (budget_of os (si_chain_id i)) \<noteq> NaN"
  shows "fle (dp_ceiling_usd (sh_desired h)) (bs_chain_remaining_usd (budget_of os (si_chain_id i)))"
proof -
  let ?b = "budget_of os (si_chain_id i)"
  obtain cost ps where p: "fst (plan_and_arbitrate pp ck i (os_last_analysis os) cost os) = Inr ps"
    and h: "sh_desired h = ps_desired ps" "\<not> ps_degraded ps"
    using before_step_ok [OF assms(1,2)] assms(3) by blast
  from plan_and_arbitrate_ok [OF p] h(2) obtain d0 where
    d0: "clamp_and_name (os_org_policy os) i d0 = Inr (ps_desired ps)"
    "fst (pp_plan pp (os_planner os) (os_last_analysis os) cost ?b) = Inr d0" by blast
  have d0': "d0 = fst (plan (os_planner os) (os_last_analysis os) cost ?b)"
    using d0(2) by (simp add: plan plan_total_fst)
  have "fle (dp_ceiling_usd (ps_desired ps)) (dp_ceiling_usd d0)"
    using clamp_and_name_le [OF d0(1)] fin d0' by blast
  moreover have "fle (dp_ceiling_usd d0) (bs_chain_remaining_usd ?b)"
    unfolding d0' by (rule plan_le_remaining [OF ok rem])
  ultimately show ?thesis using h(1) fle_trans by metis
qed

end

lemma simple_plan_finite:
  assumes "isfinite (pl_min p)" "isfinite (pl_max p)" "isfinite (bs_chain_remaining_usd b)"
  shows "isfinite (dp_ceiling_usd (fst (simple_plan p a c b)))"
proof -
  have "isfinite (fmax mn (fmin mx c))" if "isfinite mn" "isfinite mx" for mn mx c
    using that by (cases mn; cases mx; cases c) (auto simp: fmax_def fmin_def)
  then show ?thesis using assms fmin_in
    by (auto simp: plan_defs clamp_plan_def) (metis fmin_in)
qed

lemma default_plan_total [simp]: "pp_plan (default_pipeline n k pr m) = plan_total simple_plan"
  by (simp add: fun_eq_iff plan_total_def default_pipeline_def)

lemma simple_plan_chain [simp]: "dp_chain_id (fst (simple_plan p a c b)) = []"
  by (simp add: plan_defs)

lemma budget_of_double:
  assumes "is_double (os_request_budget_usd os)" "is_double (os_total_spent_usd os)"
  shows "is_double (bs_request_remaining_usd (budget_of os c))"
  using assms by (simp add: budget_of_def)

text \<open>The ceiling of an undegraded default step is at most what its chain has left.\<close>

lemma default_step_chain_budget:
  assumes h: "fst (before_step (default_pipeline n k pr m) ck i os) = Inr h" and den: "denial_of os i = None"
    and "\<not> dm_degraded (sh_decision_meta h)"
    and ok: "planner_ok (os_planner os)" "isfinite (pl_min (os_planner os))" "isfinite (pl_max (os_planner os))"
    and rem: "isfinite (bs_chain_remaining_usd (budget_of os (si_chain_id i)))"
      "isfinite (bs_request_remaining_usd (budget_of os (si_chain_id i)))"
    and d: "isfinite (dp_ceiling_usd (sh_desired h))" "is_double (dp_ceiling_usd (sh_desired h))"
  shows "\<exists>x. pc_ceiling_usd (sh_policy h) = VFloat x \<and>
     fle x (bs_chain_remaining_usd (budget_of os (si_chain_id i)))"
proof -
  have "fle (dp_ceiling_usd (sh_desired h)) (bs_chain_remaining_usd (budget_of os (si_chain_id i)))"
    using simple_plan_finite [OF ok(2,3) rem(1)] rem(1)
    by (intro simple.step_within_chain_budget [OF h den assms(3) _ ok(1)]) (auto simp: isfinite_notNaN)
  moreover obtain x where "pc_ceiling_usd (sh_policy h) = VFloat x" "fle x (dp_ceiling_usd (sh_desired h))"
    using passthrough_policy_le_desired [OF h den _ _ rem(2) d] by (auto simp: plan_total_fst)
  ultimately show ?thesis using fle_trans by blast
qed

text \<open>
  A policy with a negative ceiling has no execution configuration: the step raises before the
  body runs, and \<open>after_step\<close> does not run either.
\<close>

lemma negative_ceiling_step:
  assumes "fst (before_step pp ck1 i os) = Inr h" "pc_ceiling_usd (sh_policy h) = VFloat x" "flt x (Fin 0)"
  shows "step pp kn sha audit ck1 ck2 i body os = (Inl ValueError, snd (before_step pp ck1 i os))"
proof -
  have "to_exec_config (sh_policy h) = Inl ValueError"
    using assms(2,3) by (cases x) (auto simp: to_exec_config_def val_lt_def)
  then show ?thesis using assms(1)
    by (simp add: step_def case_prod_unfold Let_def)
qed

section \<open>Spend accounting\<close>

definition finite_cost :: "step_outcome \<Rightarrow> pyfloat" where
  "finite_cost out = (if isfinite (so_cost_usd out) then so_cost_usd out else Fin 0)"

definition chain_spent :: "('pl, 'ar, 'st, 'em) os \<Rightarrow> string \<Rightarrow> pyfloat" where
  "chain_spent os c = dget_default (os_chain_spent_usd os) c (Fin 0)"

text \<open>The outcome a step is accounted with: none when the collector overran or a stage raised.\<close>

definition recorded ::
  "('pl, 'ar, 'st, 'em) pipeline \<Rightarrow> clock \<Rightarrow> step_handle \<Rightarrow> context_snapshot \<Rightarrow>
   ('pl, 'ar, 'st, 'em) os \<Rightarrow> step_outcome option" where
  "recorded pp ck h snapshot os =
     (case run_with_budget (pp_collect pp snapshot) (ck_elapsed ck ''collector'')
             (stage_budget os ''collector'' (Fin 5)) ''collector'' of
        Inl _ \<Rightarrow> None
      | Inr (out, _) \<Rightarrow>
          (case rbind (pp_build_history pp (os_store os) (so_chain_id out) 50) (\<lambda>history.
                  guarded ck ''analyzer'' (stage_budget os ''analyzer'' (Fin 20))
                    (pp_analyze pp (sh_intent h) out history) neutral_analysis) of
             Inl _ \<Rightarrow> None | Inr _ \<Rightarrow> Some out))"

lemma record_spend_sel [simp]:
  "os_total_spent_usd (record_spend out a os) = fadd (os_total_spent_usd os) (finite_cost out)"
  "chain_spent (record_spend out a os) c =
     (if c = so_chain_id out then fadd (chain_spent os c) (finite_cost out) else chain_spent os c)"
  "os_last_analysis (record_spend out a os) = Some a"
  by (auto simp: record_spend_def finite_cost_def chain_spent_def Let_def)

lemma commit_step_frame [simp]:
  "os_total_spent_usd (snd (commit_step pp out a h os)) = os_total_spent_usd os"
  "chain_spent (snd (commit_step pp out a h os)) = chain_spent os"
  "os_last_analysis (snd (commit_step pp out a h os)) = os_last_analysis os"
  "os_planner (snd (commit_step pp out a h os)) = os_planner os"
  by (auto simp: commit_step_def chain_spent_def fun_eq_iff case_prod_unfold Let_def split: sum.splits option.splits)

lemma chain_spent_emitter [simp]: "chain_spent (os\<lparr>os_emitter := em\<rparr>) = chain_spent os"
  by (simp add: chain_spent_def fun_eq_iff)

lemma after_step_spend:
  "os_total_spent_usd (snd (after_step pp sha audit ck h snapshot os)) =
     (case recorded pp ck h snapshot os of None \<Rightarrow> os_total_spent_usd os
      | Some out \<Rightarrow> fadd (os_total_spent_usd os) (finite_cost out))"
  "chain_spent (snd (after_step pp sha audit ck h snapshot os)) c =
     (case recorded pp ck h snapshot os of None \<Rightarrow> chain_spent os c
      | Some out \<Rightarrow> if c = so_chain_id out then fadd (chain_spent os c) (finite_cost out) else chain_spent os c)"
proof -
  show "os_total_spent_usd (snd (after_step pp sha audit ck h snapshot os)) =
     (case recorded pp ck h snapshot os of None \<Rightarrow> os_total_spent_usd os
      | Some out \<Rightarrow> fadd (os_total_spent_usd os) (finite_cost out))"
    "chain_spent (snd (after_step pp sha audit ck h snapshot os)) c =
     (case recorded pp ck h snapshot os of None \<Rightarrow> chain_spent os c
      | Some out \<Rightarrow> if c = so_chain_id out then fadd (chain_spent os c) (finite_cost out) else chain_spent os c)"
    by (auto simp: after_step_def recorded_def case_prod_unfold Let_def
        split: sum.splits stage_error.splits)
qed

text \<open>Many steps, each with its own audit id, clock, handle and snapshot.\<close>

type_synonym finished_step = "string \<times> clock \<times> step_handle \<times> context_snapshot"

fun after_all ::
  "('pl, 'ar, 'st, 'em) pipeline \<Rightarrow> digest \<Rightarrow> finished_step list \<Rightarrow> ('pl, 'ar, 'st, 'em) os \<Rightarrow>
   step_outcome list \<times> ('pl, 'ar, 'st, 'em) os" where
  "after_all pp sha [] os = ([], os)"
| "after_all pp sha ((audit, ck, h, snapshot) # fs) os =
     (let (outs, os') = after_all pp sha fs (snd (after_step pp sha audit ck h snapshot os)) in
      ((case recorded pp ck h snapshot os of None \<Rightarrow> outs | Some out \<Rightarrow> out # outs), os'))"

lemma after_all_spend:
  "after_all pp sha fs os = (outs, os') \<Longrightarrow>
     os_total_spent_usd os' = foldl fadd (os_total_spent_usd os) (map finite_cost outs) \<and>
     chain_spent os' c = foldl fadd (chain_spent os c) (map finite_cost (filter (\<lambda>out. so_chain_id out = c) outs))"
proof (induction fs arbitrary: os outs)
  case (Cons f fs)
  obtain audit ck h snapshot where f: "f = (audit, ck, h, snapshot)" by (cases f)
  obtain outs1 where rest: "after_all pp sha fs (snd (after_step pp sha audit ck h snapshot os)) = (outs1, os')"
    "outs = (case recorded pp ck h snapshot os of None \<Rightarrow> outs1 | Some out \<Rightarrow> out # outs1)"
    using Cons.prems f by (auto split: prod.splits)
  show ?case using Cons.IH [OF rest(1)] rest(2)
    by (cases "recorded pp ck h snapshot os") (auto simp: after_step_spend)
qed simp

end
