(* ===== verification/Budget_Run.thy ===== *)
theory Budget_Run
  imports Orchestrator
begin

text \<open>
  The budget over a whole run of the orchestrator: steps taken one after the other with \<open>run_step\<close> in
  the default pipeline, on a kernel that charges at most the ceiling it is given and a bounded
  overrun. The remaining budget of a chain is rounded to a double before it becomes a ceiling, so the
  account may pass the budget by one rounding error beside the overrun; from then on no step runs.
\<close>

section \<open>The rounding of what is left\<close>

lemma pow2_multiple: "e \<le> f \<Longrightarrow> \<exists>n. pow2 f = of_int n * pow2 e"
  using pow2_add [of "f - e" e] pow2_nat [of "nat (f - e)"]
  by (intro exI [of _ "2 ^ nat (f - e)"]) simp

lemma is_rep_multiple: "is_rep v \<Longrightarrow> \<exists>n. v = of_int n * pow2 (- 1074)"
proof -
  assume "is_rep v"
  then obtain m e where v: "v = of_int m * pow2 e" "- 1074 \<le> e" by (auto simp: is_rep_def)
  obtain n where "pow2 e = of_int n * pow2 (- 1074)" using pow2_multiple [OF v(2)] by blast
  then show ?thesis by (intro exI [of _ "m * n"]) (simp add: v(1))
qed

lemma expo_le: "0 < q \<Longrightarrow> pow2 (expo q) \<le> q"
  using expo_bounds by blast

lemma rndv_relative:
  assumes "is_rep a" "is_rep b" "0 \<le> a - b"
  shows "rndv (a - b) \<le> (a - b) * (1 + 1 / 2 ^ 53)"
proof (cases "a - b = 0")
  case False
  define q where "q = a - b"
  have q: "0 < q" using assms(3) False by (simp add: q_def)
  obtain n where n: "q = of_int n * pow2 (- 1074)"
    using is_rep_multiple [OF assms(1)] is_rep_multiple [OF assms(2)]
    by (metis q_def left_diff_distrib of_int_diff)
  have "rndv q \<le> q * (1 + 1 / 2 ^ 53)"
  proof (cases "ulp_exp q = - 1074")
    case True
    then have "rndv q = q" using q by (simp add: rndv_def n)
    then show ?thesis using q by simp
  next
    case False
    then have e: "ulp_exp q = expo q - 52" using q by (auto simp: ulp_exp_def)
    let ?u = "pow2 (ulp_exp q)"
    have r: "of_int (rhe x) \<le> x + 1 / 2" for x
      using rhe_cases [of x] by (auto simp: rhe_def Let_def split: if_splits) linarith+
    have "rndv q \<le> (q / ?u + 1 / 2) * ?u"
      using q r [of "q / ?u"] by (simp add: rndv_def mult_right_mono)
    also have "\<dots> = q + ?u / 2" by (simp add: distrib_right)
    also have "?u / 2 = pow2 (expo q) / 2 ^ 53"
      by (simp add: e pow2_diff pow2_nat [of 52, simplified])
    also have "q + \<dots> \<le> q * (1 + 1 / 2 ^ 53)"
      using expo_le [OF q] by (simp add: distrib_left divide_right_mono)
    finally show ?thesis .
  qed
  then show ?thesis by (simp add: q_def)
qed simp

lemma rnd_neg:
  assumes "is_rep a" "is_rep b" "a < b"
  shows "flt (rnd (a - b)) (Fin 0)"
proof -
  obtain m n where mn: "a = of_int m * pow2 (- 1074)" "b = of_int n * pow2 (- 1074)"
    using is_rep_multiple [OF assms(1)] is_rep_multiple [OF assms(2)] by blast
  then have "m < n" using assms(3) by simp
  then have "(of_int (m - n) :: rat) \<le> of_int (- 1)" by (simp del: of_int_diff)
  then have "a - b \<le> - pow2 (- 1074)"
    using mult_right_mono [of "of_int (m - n) :: rat" "- 1" "pow2 (- 1074)"]
    by (simp add: mn left_diff_distrib)
  moreover have "is_rep (pow2 (- 1074))"
    unfolding is_rep_def by (rule exI [of _ 1], rule exI [of _ "- 1074"]) simp
  then have "is_double (Fin (- pow2 (- 1074)))"
    by (simp add: is_double_Fin is_rep_minus pow2_less_iff)
  ultimately have "fle (rnd (a - b)) (Fin (- pow2 (- 1074)))" by (intro rnd_le) simp_all
  then show ?thesis by (cases "rnd (a - b)") (auto intro: le_less_trans)
qed

text \<open>The account after a step that charged at most what was left and the overrun.\<close>

lemma spend_bound:
  assumes "is_double (Fin b)" "is_double (Fin s)" "0 \<le> s" "s \<le> b" "c \<le> rndv (b - s) + v" "0 \<le> b"
  shows "fle (fadd (Fin s) (Fin c)) (rnd (b * (1 + 1 / 2 ^ 53) + v))"
proof -
  have "rndv (b - s) \<le> (b - s) * (1 + 1 / 2 ^ 53)"
    using assms(1,2,4) by (intro rndv_relative) (simp_all add: is_double_Fin)
  also have "\<dots> = b - s + (b - s) / 2 ^ 53"
    by (simp only: distrib_left mult_1_right times_divide_eq_right)
  finally have "s + c \<le> b + (b - s) / 2 ^ 53 + v"
    using assms(5) by linarith
  also have "\<dots> \<le> b * (1 + 1 / 2 ^ 53) + v"
    using assms(3) by (simp add: distrib_left divide_right_mono)
  finally have "s + c \<le> b * (1 + 1 / 2 ^ 53) + v" .
  then show ?thesis using rnd_mono by simp
qed

section \<open>What a step leaves alone\<close>

lemma plan_and_arbitrate_frame:
  "os_request_budget_usd (snd (plan_and_arbitrate pp ck i la cost os)) = os_request_budget_usd os"
  "os_org_policy (snd (plan_and_arbitrate pp ck i la cost os)) = os_org_policy os"
  "chain_spent (snd (plan_and_arbitrate pp ck i la cost os)) = chain_spent os"
  "os_total_spent_usd (snd (plan_and_arbitrate pp ck i la cost os)) = os_total_spent_usd os"
  "os_planner (snd (plan_and_arbitrate pp ck i la cost os)) =
     snd (pp_plan pp (os_planner os) la cost (budget_of os (si_chain_id i)))"
  by (auto simp: plan_and_arbitrate_def chain_spent_def fun_eq_iff case_prod_unfold Let_def split: sum.splits)

lemma before_step_frame:
  "os_request_budget_usd (snd (before_step pp ck i os)) = os_request_budget_usd os"
  "os_org_policy (snd (before_step pp ck i os)) = os_org_policy os"
  "chain_spent (snd (before_step pp ck i os)) = chain_spent os"
  "os_total_spent_usd (snd (before_step pp ck i os)) = os_total_spent_usd os"
  "os_planner (snd (before_step pp ck i os)) = os_planner os \<or>
   (\<exists>la cost. os_planner (snd (before_step pp ck i os)) =
      snd (pp_plan pp (os_planner os) la cost (budget_of os (si_chain_id i))))"
  by (auto simp: before_step_def plan_and_arbitrate_frame case_prod_unfold Let_def
      split: option.split sum.split)

lemma after_step_frame:
  "os_request_budget_usd (snd (after_step pp sha a ck h s os)) = os_request_budget_usd os"
  "os_org_policy (snd (after_step pp sha a ck h s os)) = os_org_policy os"
  "os_planner (snd (after_step pp sha a ck h s os)) = os_planner os"
proof -
  have commit: "os_request_budget_usd (snd (commit_step pp out an h os)) = os_request_budget_usd os"
    "os_org_policy (snd (commit_step pp out an h os)) = os_org_policy os" for out an os
    by (auto simp: commit_step_def case_prod_unfold Let_def split: sum.splits option.splits)
  have spend: "os_request_budget_usd (record_spend out an os) = os_request_budget_usd os"
    "os_org_policy (record_spend out an os) = os_org_policy os"
    "os_planner (record_spend out an os) = os_planner os" for out an
    by (simp_all add: record_spend_def Let_def)
  show "os_request_budget_usd (snd (after_step pp sha a ck h s os)) = os_request_budget_usd os"
    "os_org_policy (snd (after_step pp sha a ck h s os)) = os_org_policy os"
    "os_planner (snd (after_step pp sha a ck h s os)) = os_planner os"
    by (simp_all add: after_step_def commit spend case_prod_unfold Let_def split: sum.splits stage_error.splits)
qed

lemma step_cases:
  fixes pp :: "('pl, 'ar, 'st, 'em) pipeline" and kn :: "('k, 'fn, 'r) kernel"
  obtains (stopped) "snd (step pp kn sha audit ck1 ck2 i body os) = snd (before_step pp ck1 i os)"
  | (ran) h ec where "fst (before_step pp ck1 i os) = Inr h" "to_exec_config (sh_policy h) = Inr ec"
      "snd (step pp kn sha audit ck1 ck2 i body os) =
        snd (after_step pp sha audit ck2 h
          (case kn_snapshot kn (snd (body h (kn_new kn ec (si_request_id i) (si_chain_id i)))) of
             Inr s \<Rightarrow> s | Inl _ \<Rightarrow> fallback_snapshot (kn_safety_event kn) (ck_now ck2) i ''snapshot_retrieval_failed'')
          (snd (before_step pp ck1 i os)))"
proof (cases "rbind (fst (before_step pp ck1 i os)) (\<lambda>h. rbind (to_exec_config (sh_policy h)) (\<lambda>ec. Inr (h, ec)))")
  case (Inl e)
  then show thesis by (intro stopped) (simp add: step_def case_prod_unfold Let_def)
next
  case (Inr p)
  then obtain h ec where "fst (before_step pp ck1 i os) = Inr h" "to_exec_config (sh_policy h) = Inr ec" "p = (h, ec)"
    by (auto simp: rbind_Inr_iff)
  then show thesis by (intro ran) (simp_all add: step_def case_prod_unfold Let_def)
qed

section \<open>What a step is charged\<close>

definition snapshot_cost :: "context_snapshot \<Rightarrow> pyfloat" where
  \<comment> \<open>what the collector takes as the cost of the step\<close>
  "snapshot_cost s = (if cs_nodes s = [] then cs_cost_usd_accumulated s else nr_cost_usd (last (cs_nodes s)))"

lemma collect_cost: "collect now s = Inr out \<Longrightarrow> so_chain_id out = cs_chain_id s \<and> so_cost_usd out = snapshot_cost s"
  by (auto simp: collect_def snapshot_cost_def Let_def rbind_Inr_iff split: if_splits)

text \<open>
  What is asked of the kernel: a fresh context reports no cost, and after one call at most the ceiling
  it was given and the overrun \<open>v\<close>, under the chain it was made for.
\<close>

definition honest_kernel :: "rat \<Rightarrow> ('k, 'fn, 'r) kernel \<Rightarrow> bool" where
  "honest_kernel v kn \<longleftrightarrow> (\<forall>ec rid cid s.
     (kn_snapshot kn (kn_new kn ec rid cid) = Inr s \<longrightarrow> cs_chain_id s = cid \<and> snapshot_cost s = Fin 0) \<and>
     (\<forall>fn x wrap. wrap \<in> {kn_wrap_llm kn, kn_wrap_tool kn} \<longrightarrow> ec_max_cost_usd ec = VFloat (Fin x) \<longrightarrow> 0 \<le> x \<longrightarrow>
        kn_snapshot kn (snd (wrap fn (kn_new kn ec rid cid))) = Inr s \<longrightarrow>
        cs_chain_id s = cid \<and> (\<exists>q. snapshot_cost s = Fin q \<and> is_double (Fin q) \<and> 0 \<le> q \<and> q \<le> x + v)))"

lemma fallback_snapshot_cost:
  "cs_chain_id (fallback_snapshot mk now i r) = si_chain_id i" "snapshot_cost (fallback_snapshot mk now i r) = Fin 0"
  by (simp_all add: fallback_snapshot_def snapshot_cost_def)

lemma after_step_account:
  assumes "pp_collect pp = collect now" "snapshot_cost s = Fin q"
  shows "chain_spent (snd (after_step pp sha a ck h s os)) = chain_spent os \<and>
      os_total_spent_usd (snd (after_step pp sha a ck h s os)) = os_total_spent_usd os \<or>
    chain_spent (snd (after_step pp sha a ck h s os)) =
      (\<lambda>c. if c = cs_chain_id s then fadd (chain_spent os c) (Fin q) else chain_spent os c) \<and>
    os_total_spent_usd (snd (after_step pp sha a ck h s os)) = fadd (os_total_spent_usd os) (Fin q)"
proof (cases "recorded pp ck h s os")
  case (Some out)
  then have "collect now s = Inr out"
    by (auto simp: recorded_def assms(1) run_with_budget_def split: sum.splits if_splits prod.splits)
  then have "so_chain_id out = cs_chain_id s" "finite_cost out = Fin q"
    using collect_cost [of now s out] assms(2) by (simp_all add: finite_cost_def)
  then show ?thesis by (simp add: after_step_spend Some fun_eq_iff)
qed (simp add: after_step_spend fun_eq_iff)

section \<open>The account of a chain\<close>

definition budget_bound :: "rat \<Rightarrow> rat \<Rightarrow> pyfloat" where
  "budget_bound b v = rnd (b * (1 + 1 / 2 ^ 53) + v)"

definition sane_planner :: "planner \<Rightarrow> bool" where
  "sane_planner p \<longleftrightarrow> planner_ok p \<and> isfinite (pl_min p) \<and> isfinite (pl_max p) \<and>
     is_double (pl_min p) \<and> is_double (pl_max p) \<and> is_double (pl_effective_ceiling p)"

definition sane_org :: "org_policy option \<Rightarrow> bool" where
  "sane_org org \<longleftrightarrow> (case org of None \<Rightarrow> True
     | Some o' \<Rightarrow> (case op_max_ceiling_usd o' of None \<Rightarrow> True | Some m \<Rightarrow> isfinite m \<and> is_double m))"

definition account_ok :: "rat \<Rightarrow> rat \<Rightarrow> pyfloat \<Rightarrow> bool" where
  "account_ok b v x \<longleftrightarrow> isfinite x \<and> is_double x \<and> nonneg_float x \<and> fle x (budget_bound b v)"

text \<open>The total of the request is never below the account of one of its chains.\<close>

definition total_ok :: "('pl, 'ar, 'st, 'em) os \<Rightarrow> bool" where
  "total_ok os \<longleftrightarrow> nonneg_float (os_total_spent_usd os) \<and> is_double (os_total_spent_usd os) \<and>
     (\<forall>c. fle (chain_spent os c) (os_total_spent_usd os))"

lemma fadd_right_mono: "fle x y \<Longrightarrow> fle (fadd x (Fin q)) (fadd y (Fin q))"
  by (cases x; cases y) (auto intro: rnd_mono)

lemma total_ok_frame:
  "chain_spent os' = chain_spent os \<Longrightarrow> os_total_spent_usd os' = os_total_spent_usd os \<Longrightarrow> total_ok os' = total_ok os"
  by (simp add: total_ok_def)

lemma total_ok_spend:
  assumes "total_ok os" "0 \<le> q"
    and "chain_spent os' = (\<lambda>c. if c = k then fadd (chain_spent os c) (Fin q) else chain_spent os c)"
    and "os_total_spent_usd os' = fadd (os_total_spent_usd os) (Fin q)" "is_double (Fin q)"
  shows "total_ok os'"
proof -
  have t: "nonneg_float (os_total_spent_usd os)" "is_double (os_total_spent_usd os)"
    using assms(1) by (simp_all add: total_ok_def)
  then have "fle (os_total_spent_usd os) (fadd (os_total_spent_usd os) (Fin q))"
    using assms(2) by (intro fadd_ge1) auto
  then have "fle (chain_spent os c) (fadd (os_total_spent_usd os) (Fin q))" for c
    using assms(1) fle_trans unfolding total_ok_def by blast
  moreover have "fle (fadd (chain_spent os c) (Fin q)) (fadd (os_total_spent_usd os) (Fin q))" for c
    using assms(1) by (simp add: total_ok_def fadd_right_mono)
  moreover have "nonneg_float (fadd (os_total_spent_usd os) (Fin q))"
    using t(1) assms(2) by (intro fadd_nonneg) simp_all
  ultimately show ?thesis using t assms(3-5) by (simp add: total_ok_def)
qed

definition budget_inv :: "rat \<Rightarrow> rat \<Rightarrow> (planner, 'ar, 'st, 'em) os \<Rightarrow> bool" where
  "budget_inv b v os \<longleftrightarrow> os_request_budget_usd os = Fin b \<and> sane_planner (os_planner os) \<and>
     sane_org (os_org_policy os) \<and> (\<forall>c. account_ok b v (chain_spent os c)) \<and> total_ok os"

text \<open>A run: each step on time (no stage replaced by its fallback), while the total has not overflowed.\<close>

inductive budgeted_run ::
  "(planner, 'ar, 'st, 'em) pipeline \<Rightarrow> ('k, 'fn, 'r) kernel \<Rightarrow> digest \<Rightarrow>
   (planner, 'ar, 'st, 'em) os \<Rightarrow> (planner, 'ar, 'st, 'em) os \<Rightarrow> bool"
  for pp kn sha os0 where
  br_start: "budgeted_run pp kn sha os0 os0"
| br_step: "budgeted_run pp kn sha os0 os \<Longrightarrow> normalize_intent uuid i os = (i', os') \<Longrightarrow>
    isfinite (bs_request_remaining_usd (budget_of os' (si_chain_id i'))) \<Longrightarrow>
    (\<forall>h. denial_of os' i' = None \<and> fst (before_step pp ck1 i' os') = Inr h \<longrightarrow> \<not> dm_degraded (sh_decision_meta h)) \<Longrightarrow>
    budgeted_run pp kn sha os0 (snd (run_step pp kn sha audit uuid ck1 ck2 i fn os))"

lemma sane_simple_plan:
  assumes "sane_planner p" "is_double (bs_chain_remaining_usd b)"
  shows "sane_planner (snd (simple_plan p a c b))" "is_double (dp_ceiling_usd (fst (simple_plan p a c b)))"
proof -
  have "is_double (simple_adjust p a)"
    using assms(1) by (auto simp: sane_planner_def simple_adjust_def split: option.split)
  then have d: "is_double (clamp_plan p b (simple_adjust p a))"
    using assms by (auto simp: clamp_plan_def sane_planner_def)
  then show "is_double (dp_ceiling_usd (fst (simple_plan p a c b)))"
    by (simp add: simple_plan_def planned_def Let_def)
  show "sane_planner (snd (simple_plan p a c b))"
    using assms(1) d by (simp add: simple_plan_def sane_planner_def planner_ok_def Let_def)
qed

lemma clamp_and_name_usd:
  "clamp_and_name org i d = Inr d' \<Longrightarrow> dp_ceiling_usd d' =
     (case org of None \<Rightarrow> dp_ceiling_usd d | Some o' \<Rightarrow> clamp_ceiling o' (dp_ceiling_usd d))"
  by (auto simp: clamp_and_name_def org_clamp_def rbind_Inr_iff split: option.splits if_splits)

text \<open>What the planner desires and the organization leaves is a finite double.\<close>

lemma desired_sane:
  assumes h: "fst (before_step (default_pipeline n k pr m) ck i os) = Inr h" "denial_of os i = None"
    and "\<not> dm_degraded (sh_decision_meta h)"
    and p: "sane_planner (os_planner os)" and org: "sane_org (os_org_policy os)"
    and rem: "isfinite (bs_chain_remaining_usd (budget_of os (si_chain_id i)))"
      "is_double (bs_chain_remaining_usd (budget_of os (si_chain_id i)))"
  shows "isfinite (dp_ceiling_usd (sh_desired h))" "is_double (dp_ceiling_usd (sh_desired h))"
proof -
  obtain cost ps where plan: "fst (plan_and_arbitrate (default_pipeline n k pr m) ck i (os_last_analysis os) cost os) = Inr ps"
    and d: "sh_desired h = ps_desired ps" "\<not> ps_degraded ps"
    using before_step_ok [OF h] assms(3) by blast
  from plan_and_arbitrate_ok [OF plan] d(2) obtain d0 where
    d0: "clamp_and_name (os_org_policy os) i d0 = Inr (ps_desired ps)"
      "d0 = fst (simple_plan (os_planner os) (os_last_analysis os) cost (budget_of os (si_chain_id i)))"
    by (auto simp: plan_total_fst)
  have "isfinite (dp_ceiling_usd d0)" "is_double (dp_ceiling_usd d0)"
    using simple_plan_finite [OF _ _ rem(1)] sane_simple_plan(2) [OF p rem(2)] p
    by (auto simp: d0(2) sane_planner_def)
  then have "isfinite (clamp_ceiling o' (dp_ceiling_usd d0)) \<and> is_double (clamp_ceiling o' (dp_ceiling_usd d0))"
    if "os_org_policy os = Some o'" for o'
    using org that by (auto simp: clamp_ceiling_def sane_org_def split: option.splits)
  with \<open>isfinite (dp_ceiling_usd d0)\<close> \<open>is_double (dp_ceiling_usd d0)\<close>
  show "isfinite (dp_ceiling_usd (sh_desired h))" "is_double (dp_ceiling_usd (sh_desired h))"
    unfolding d(1) clamp_and_name_usd [OF d0(1)] by (auto split: option.split)
qed

text \<open>The ceiling of a step that runs, when its chain has spent \<open>s\<close>.\<close>

lemma ceiling_within:
  assumes h: "fst (before_step (default_pipeline n k pr m) ck i os) = Inr h" "denial_of os i = None"
    "\<not> dm_degraded (sh_decision_meta h)" "to_exec_config (sh_policy h) = Inr ec"
    and inv: "budget_inv b v os" "is_double (Fin b)" "0 \<le> b"
    and tot: "isfinite (bs_request_remaining_usd (budget_of os (si_chain_id i)))"
    and s: "chain_spent os (si_chain_id i) = Fin s" "0 \<le> s" "is_double (Fin s)" "isfinite (budget_bound b v)"
  shows "\<exists>x. ec_max_cost_usd ec = VFloat (Fin x) \<and> 0 \<le> x \<and> s \<le> b \<and> x \<le> rndv (b - s)"
proof -
  have rem: "bs_chain_remaining_usd (budget_of os (si_chain_id i)) = rnd (b - s)"
    using inv(1) s(1) by (simp add: budget_of_def budget_inv_def chain_spent_def fsub_def)
  have "isfinite (rnd (b - s))"
  proof (cases "s \<le> b")
    case True
    then show ?thesis using s(2) inv(2) by (intro rnd_finite_bound [of _ b]) auto
  next
    case False
    then show ?thesis using s inv(3) by (intro rnd_finite_bound [of _ s]) auto
  qed
  note fin = this
  have sane: "sane_planner (os_planner os)" "sane_org (os_org_policy os)"
    using inv(1) by (simp_all add: budget_inv_def)
  note d = desired_sane [OF h(1-3) sane, unfolded rem, OF fin is_double_rnd]
  obtain x where x: "pc_ceiling_usd (sh_policy h) = VFloat x" "fle x (rnd (b - s))"
    using default_step_chain_budget [OF h(1-3) _ _ _ _ tot d] sane(1) fin unfolding rem sane_planner_def by blast
  have "is_ok (to_exec_config (sh_policy h))" using h(4) by (simp add: is_ok_iff)
  then have "isfinite x" "nonneg_float x" unfolding to_exec_config_ok_iff x(1) by simp_all
  then obtain q where q: "x = Fin q" "0 \<le> q" by (cases x) auto
  have le: "s \<le> b"
  proof (rule ccontr)
    assume "\<not> s \<le> b"
    then have "flt (rnd (b - s)) (Fin 0)" using inv(2) s(3) by (intro rnd_neg) (simp_all add: is_double_Fin)
    then show False using x(2) q fle_flt_trans by fastforce
  qed
  have "rnd (b - s) = Fin (rndv (b - s))" using fin by (auto simp: rnd_def Let_def split: if_splits)
  moreover have "ec_max_cost_usd ec = VFloat x"
    using h(4) x(1) by (auto simp: to_exec_config_def rbind_Inr_iff split: if_splits)
  ultimately show ?thesis using x(2) q le by auto
qed

section \<open>The invariant\<close>

lemma account_ok_Fin: "account_ok b v x \<Longrightarrow> \<exists>s. x = Fin s \<and> 0 \<le> s \<and> is_double (Fin s)"
  by (cases x) (auto simp: account_ok_def)

lemma account_ok_spend:
  assumes "account_ok b v (Fin s)" "is_double (Fin q)" "0 \<le> q" "isfinite (budget_bound b v)"
    and "fle (fadd (Fin s) (Fin q)) (budget_bound b v)"
  shows "account_ok b v (fadd (Fin s) (Fin q))"
proof -
  have "fle (Fin 0) (rnd (s + q))"
    using assms(1,3) by (intro rnd_ge) (auto simp: account_ok_def is_double_numeral)
  then have n: "nonneg_float (rnd (s + q))" by (cases "rnd (s + q)") auto
  moreover have "isfinite (rnd (s + q))"
    using n assms(4,5) by (cases "rnd (s + q)"; cases "budget_bound b v") auto
  ultimately show ?thesis using assms(5) by (simp add: account_ok_def is_double_rnd)
qed

lemma budget_inv_after:
  assumes "budget_inv b v os" "os_request_budget_usd os' = os_request_budget_usd os"
    "os_org_policy os' = os_org_policy os" "sane_planner (os_planner os')"
    "\<And>c. account_ok b v (chain_spent os' c)" "total_ok os'"
  shows "budget_inv b v os'"
  using assms by (simp add: budget_inv_def)

lemma before_step_planner:
  assumes "budget_inv b v os"
  shows "sane_planner (os_planner (snd (before_step (default_pipeline n k pr m) ck i os)))"
proof -
  have "is_double (chain_spent os c)" for c using assms by (simp add: budget_inv_def account_ok_def)
  moreover have "is_double (fsub (Fin b) x)" if "is_double x" for x
    using that by (cases x) (simp_all add: fsub_def is_double_rnd)
  ultimately have "is_double (bs_chain_remaining_usd (budget_of os (si_chain_id i)))"
    using assms by (simp add: budget_inv_def budget_of_def chain_spent_def)
  moreover have "sane_planner (os_planner os)" using assms by (simp add: budget_inv_def)
  ultimately have "sane_planner (snd (simple_plan (os_planner os) la cost (budget_of os (si_chain_id i))))"
    for la cost by (intro sane_simple_plan(1))
  then show ?thesis
    using before_step_frame(5) [of "default_pipeline n k pr m" ck i os] assms
    by (auto simp: budget_inv_def plan_total_def case_prod_unfold Let_def)
qed

text \<open>What one step is charged: nothing when it was denied, else at most its ceiling and the overrun.\<close>

lemma step_charge:
  assumes h: "fst (before_step (default_pipeline n k pr m) ck1 i os) = Inr h" "to_exec_config (sh_policy h) = Inr ec"
    and time: "denial_of os i = None \<Longrightarrow> \<not> dm_degraded (sh_decision_meta h)"
    and inv: "budget_inv b v os" "is_double (Fin b)" "0 \<le> b" "0 \<le> v" "isfinite (budget_bound b v)"
    and tot: "isfinite (bs_request_remaining_usd (budget_of os (si_chain_id i)))"
    and kn: "honest_kernel v kn"
    and snap: "kn_snapshot kn (snd (run kn h fn (kn_new kn ec (si_request_id i) (si_chain_id i)))) = Inr s"
  shows "cs_chain_id s = si_chain_id i \<and> (\<exists>q. snapshot_cost s = Fin q \<and> is_double (Fin q) \<and> 0 \<le> q \<and>
    account_ok b v (fadd (chain_spent os (si_chain_id i)) (Fin q)))"
proof -
  obtain t where t: "chain_spent os (si_chain_id i) = Fin t" "0 \<le> t" "is_double (Fin t)"
    "account_ok b v (Fin t)"
    using inv(1) account_ok_Fin unfolding budget_inv_def by metis
  show ?thesis
  proof (cases "denial_of os i")
    case (Some r)
    then have "snd (run kn h fn k) = k" for k
      using h(1) by (auto simp: before_step_denied denied_run)
    then have "cs_chain_id s = si_chain_id i" "snapshot_cost s = Fin 0"
      using kn snap unfolding honest_kernel_def by auto
    moreover have "fadd (Fin t) (Fin 0) = Fin t" by (rule fadd_0(1) [OF t(3)])
    ultimately show ?thesis using t by (simp add: is_double_numeral del: fadd.simps)
  next
    case None
    obtain x where x: "ec_max_cost_usd ec = VFloat (Fin x)" "t \<le> b" "x \<le> rndv (b - t)" "0 \<le> x"
      using ceiling_within [OF h(1) None time [OF None] h(2) inv(1-3) tot t(1-3) inv(5)] by blast
    have "dm_org_denial (sh_decision_meta h) = None" using before_step_ok [OF h(1) None] by blast
    then obtain wrap where "wrap \<in> {kn_wrap_llm kn, kn_wrap_tool kn}" "run kn h fn = wrap fn"
      by (cases "si_kind (sh_intent h) = ''tool''") (force simp: run_def check_denial_def)+
    with kn snap x(1,4) obtain q where q: "cs_chain_id s = si_chain_id i" "snapshot_cost s = Fin q"
      "is_double (Fin q)" "0 \<le> q" "q \<le> x + v"
      unfolding honest_kernel_def by metis
    have "fle (fadd (Fin t) (Fin q)) (budget_bound b v)"
      unfolding budget_bound_def using q(5) x(2,3) t(2,3) inv(2,3) by (intro spend_bound) auto
    then show ?thesis using q t account_ok_spend inv(5) by auto
  qed
qed

lemma after_step_budget_inv:
  assumes inv: "budget_inv b v os" and q: "snapshot_cost s = Fin q" "is_double (Fin q)" "0 \<le> q"
    and acc: "account_ok b v (fadd (chain_spent os (cs_chain_id s)) (Fin q))"
  shows "budget_inv b v (snd (after_step (default_pipeline n k pr m) sha a ck h s os))"
proof -
  let ?os = "snd (after_step (default_pipeline n k pr m) sha a ck h s os)"
  have old: "total_ok os" "account_ok b v (chain_spent os c)" for c using inv by (simp_all add: budget_inv_def)
  have "total_ok ?os \<and> (\<forall>c. account_ok b v (chain_spent ?os c))"
    using after_step_account [OF default_pipeline_sel(1) [of n k pr m] q(1),
        where os = os and sha = sha and a = a and ck = ck and h = h]
  proof (elim disjE conjE)
    assume "chain_spent ?os = chain_spent os" "os_total_spent_usd ?os = os_total_spent_usd os"
    then show ?thesis using old by (simp add: total_ok_frame [of ?os os])
  next
    assume spent: "chain_spent ?os = (\<lambda>c. if c = cs_chain_id s then fadd (chain_spent os c) (Fin q) else chain_spent os c)"
      "os_total_spent_usd ?os = fadd (os_total_spent_usd os) (Fin q)"
    have "total_ok ?os" by (rule total_ok_spend [OF old(1) q(3) spent q(2)])
    then show ?thesis using old(2) acc spent(1) by simp
  qed
  then show ?thesis using inv
    by (intro budget_inv_after [OF inv after_step_frame(1,2)]) (simp_all add: after_step_frame budget_inv_def)
qed

lemma step_budget_inv:
  assumes inv: "budget_inv b v os" "is_double (Fin b)" "0 \<le> b" "0 \<le> v" "isfinite (budget_bound b v)"
    and tot: "isfinite (bs_request_remaining_usd (budget_of os (si_chain_id i)))"
    and time: "\<And>h. denial_of os i = None \<Longrightarrow> fst (before_step (default_pipeline n k pr m) ck1 i os) = Inr h \<Longrightarrow>
      \<not> dm_degraded (sh_decision_meta h)"
    and kn: "honest_kernel v kn"
  shows "budget_inv b v (snd (step (default_pipeline n k pr m) kn sha audit ck1 ck2 i (\<lambda>h. run kn h fn) os))"
proof -
  let ?pp = "default_pipeline n k pr m :: (planner, pyfloat, memory_store, 'e) pipeline"
  let ?os1 = "snd (before_step ?pp ck1 i os)"
  note frame = before_step_frame(1-4) [of ?pp ck1 i os]
  have acc: "account_ok b v (chain_spent os c)" for c using inv(1) by (simp add: budget_inv_def)
  have inv1: "budget_inv b v ?os1"
    by (rule budget_inv_after [OF inv(1) frame(1,2) before_step_planner [OF inv(1)]])
      (use inv(1) in \<open>simp_all add: frame(3) acc total_ok_frame [OF frame(3,4)] budget_inv_def\<close>)
  show ?thesis
  proof (cases rule: step_cases [of ?pp kn sha audit ck1 ck2 i "\<lambda>h. run kn h fn" os])
    case stopped
    then show ?thesis using inv1 by simp
  next
    case (ran h ec)
    let ?s = "case kn_snapshot kn (snd (run kn h fn (kn_new kn ec (si_request_id i) (si_chain_id i)))) of
        Inr s \<Rightarrow> s | Inl _ \<Rightarrow> fallback_snapshot (kn_safety_event kn) (ck_now ck2) i ''snapshot_retrieval_failed''"
    have "cs_chain_id ?s = si_chain_id i \<and> (\<exists>q. snapshot_cost ?s = Fin q \<and> is_double (Fin q) \<and> 0 \<le> q \<and>
        account_ok b v (fadd (chain_spent os (si_chain_id i)) (Fin q)))"
    proof (cases "kn_snapshot kn (snd (run kn h fn (kn_new kn ec (si_request_id i) (si_chain_id i))))")
      case (Inl e)
      have "fadd (chain_spent os (si_chain_id i)) (Fin 0) = chain_spent os (si_chain_id i)"
        using acc by (intro fadd_0(1)) (simp add: account_ok_def)
      then show ?thesis unfolding Inl sum.case fallback_snapshot_cost using acc by (simp add: is_double_numeral)
    next
      case (Inr s)
      show ?thesis unfolding Inr sum.case
        using step_charge [OF ran(1,2) time [OF _ ran(1)] inv tot kn Inr] by blast
    qed
    then obtain q where s: "cs_chain_id ?s = si_chain_id i" "snapshot_cost ?s = Fin q" "is_double (Fin q)" "0 \<le> q"
      "account_ok b v (fadd (chain_spent os (si_chain_id i)) (Fin q))" by blast
    show ?thesis unfolding ran(3)
      by (rule after_step_budget_inv [OF inv1 s(2-4)]) (use s(1,5) frame(3) in simp)
  qed
qed

lemma normalize_intent_frame:
  "normalize_intent uuid i os = (i', os') \<Longrightarrow> budget_inv b v os' = budget_inv b v os"
  by (auto simp: normalize_intent_def budget_inv_def chain_spent_def total_ok_def split: if_splits)

text \<open>A new orchestrator, with every account at zero.\<close>

lemma new_os_budget_inv:
  assumes "sane_planner pl" "sane_org org" "0 \<le> b" "0 \<le> v"
  shows "budget_inv b v (new_os pl ar st em budgets (Fin b) org)"
proof -
  have "fle (Fin 0) (budget_bound b v)"
    unfolding budget_bound_def using assms(3,4) by (intro rnd_ge) (simp_all add: is_double_numeral)
  then show ?thesis using assms
    by (simp add: budget_inv_def new_os_def chain_spent_def account_ok_def total_ok_def is_double_numeral)
qed

lemma budgeted_run_inv:
  assumes "budgeted_run (default_pipeline n k pr m) kn sha os0 os"
    and "honest_kernel v kn" "budget_inv b v os0" "is_double (Fin b)" "0 \<le> b" "0 \<le> v" "isfinite (budget_bound b v)"
  shows "budget_inv b v os"
  using assms(1)
proof (induction rule: budgeted_run.induct)
  case br_start
  show ?case by (rule assms(3))
next
  case (br_step os uuid i i' os' ck1 audit ck2 fn)
  have "budget_inv b v os'" using br_step.IH normalize_intent_frame [OF br_step.hyps(2)] by simp
  then have "budget_inv b v (snd (step (default_pipeline n k pr m) kn sha audit ck1 ck2 i' (\<lambda>h. run kn h fn) os'))"
    using br_step.hyps(3,4) assms(2,4-7) by (intro step_budget_inv) auto
  then show ?case by (simp add: run_step_def br_step.hyps(2))
qed

section \<open>A chain that has spent more than the budget\<close>

lemma overspent_remaining:
  assumes inv: "budget_inv b v os" "is_double (Fin b)" "0 \<le> b"
    and over: "flt (Fin b) (chain_spent os c)"
    and tot: "isfinite (bs_request_remaining_usd (budget_of os c))"
  shows "flt (bs_chain_remaining_usd (budget_of os c)) (Fin 0)" "isfinite (bs_chain_remaining_usd (budget_of os c))"
    "is_double (bs_chain_remaining_usd (budget_of os c))"
    "flt (bs_request_remaining_usd (budget_of os c)) (Fin 0)" "is_double (bs_request_remaining_usd (budget_of os c))"
proof -
  obtain s where s: "chain_spent os c = Fin s" "0 \<le> s" "is_double (Fin s)"
    using inv(1) account_ok_Fin unfolding budget_inv_def by metis
  have t: "total_ok os" using inv(1) by (simp add: budget_inv_def)
  have eqs: "bs_chain_remaining_usd (budget_of os c) = rnd (b - s)"
    "bs_request_remaining_usd (budget_of os c) = fsub (Fin b) (os_total_spent_usd os)"
    using inv(1) s(1) by (simp_all add: budget_of_def budget_inv_def chain_spent_def fsub_def)
  obtain x where x: "os_total_spent_usd os = Fin x"
    using tot t eqs(2) by (cases "os_total_spent_usd os") (auto simp: total_ok_def fsub_def)
  have le: "s \<le> x" "is_double (Fin x)" using t s(1) unfolding total_ok_def x by (metis fle_Fin, simp)
  have lt: "b < s" using over s(1) by simp
  show "flt (bs_chain_remaining_usd (budget_of os c)) (Fin 0)"
    unfolding eqs(1) using inv(2) s(3) lt by (intro rnd_neg) (simp_all add: is_double_Fin)
  show "isfinite (bs_chain_remaining_usd (budget_of os c))"
    unfolding eqs(1) using s(2,3) lt inv(3) by (intro rnd_finite_bound [of _ s]) auto
  have "flt (rnd (b - x)) (Fin 0)" using inv(2) le lt by (intro rnd_neg) (simp_all add: is_double_Fin)
  then show "flt (bs_request_remaining_usd (budget_of os c)) (Fin 0)" by (simp add: eqs(2) x fsub_def)
  show "is_double (bs_chain_remaining_usd (budget_of os c))" "is_double (bs_request_remaining_usd (budget_of os c))"
    by (simp_all add: eqs x fsub_def)
qed

text \<open>Whether or not a stage was replaced by its fallback, what is desired is negative.\<close>

lemma overspent_desire:
  assumes h: "fst (before_step (default_pipeline n k pr m) ck i os) = Inr h" "denial_of os i = None"
    and inv: "budget_inv b v os" "is_double (Fin b)" "0 \<le> b"
    and over: "flt (Fin b) (chain_spent os (si_chain_id i))"
    and tot: "isfinite (bs_request_remaining_usd (budget_of os (si_chain_id i)))"
  shows "flt (dp_ceiling_usd (sh_desired h)) (Fin 0) \<and> isfinite (dp_ceiling_usd (sh_desired h)) \<and>
    is_double (dp_ceiling_usd (sh_desired h))"
proof -
  let ?b = "budget_of os (si_chain_id i)"
  note rem = overspent_remaining [OF inv over tot]
  have sane: "sane_planner (os_planner os)" "sane_org (os_org_policy os)"
    using inv(1) by (simp_all add: budget_inv_def)
  obtain cost ps where plan: "fst (plan_and_arbitrate (default_pipeline n k pr m) ck i (os_last_analysis os) cost os) = Inr ps"
    and d: "sh_desired h = ps_desired ps"
    using before_step_ok [OF h] by blast
  from plan_and_arbitrate_ok [OF plan] obtain d0 where
    d0: "clamp_and_name (os_org_policy os) i d0 = Inr (ps_desired ps)"
      "d0 = fst (simple_plan (os_planner os) (os_last_analysis os) cost ?b) \<or>
       d0 = fallback_desire i (bs_request_remaining_usd ?b)"
    by (auto simp: plan_total_fst)
  let ?x = "dp_ceiling_usd d0"
  have x: "isfinite ?x \<and> is_double ?x \<and> flt ?x (Fin 0)"
    using d0(2)
  proof
    assume eq: "d0 = fst (simple_plan (os_planner os) (os_last_analysis os) cost ?b)"
    have "fle ?x (bs_chain_remaining_usd ?b)"
      unfolding eq using sane(1) rem(2) by (intro simple.plan_le_remaining) (auto simp: sane_planner_def isfinite_notNaN)
    then have "flt ?x (Fin 0)" using rem(1) fle_flt_trans by blast
    then show ?thesis
      using simple_plan_finite [OF _ _ rem(2)] sane_simple_plan(2) [OF sane(1) rem(3)] sane(1)
      unfolding eq sane_planner_def by blast
  next
    assume eq: "d0 = fallback_desire i (bs_request_remaining_usd ?b)"
    then have "?x = bs_request_remaining_usd ?b"
      using rem(4) by (cases "bs_request_remaining_usd ?b") (auto simp: fallback_desire_def fmin_def)
    then show ?thesis using rem(4,5) tot by simp
  qed
  have "fle (dp_ceiling_usd (ps_desired ps)) ?x" using clamp_and_name_le [OF d0(1)] x by blast
  then have "flt (dp_ceiling_usd (ps_desired ps)) (Fin 0)" using x fle_flt_trans by blast
  moreover have "isfinite (dp_ceiling_usd (ps_desired ps)) \<and> is_double (dp_ceiling_usd (ps_desired ps))"
    using x sane(2) unfolding clamp_and_name_usd [OF d0(1)]
    by (auto simp: clamp_ceiling_def sane_org_def split: option.splits)
  ultimately show ?thesis by (simp add: d)
qed

text \<open>So a step the organization allows raises before a context is made.\<close>

lemma overspent_stops:
  assumes inv: "budget_inv b v os" "is_double (Fin b)" "0 \<le> b"
    and over: "flt (Fin b) (chain_spent os (si_chain_id i))"
    and tot: "isfinite (bs_request_remaining_usd (budget_of os (si_chain_id i)))"
    and den: "denial_of os i = None"
  shows "step (default_pipeline n k pr m) kn sha audit ck1 ck2 i body os =
    (Inl (case fst (before_step (default_pipeline n k pr m) ck1 i os) of Inl e \<Rightarrow> e | Inr _ \<Rightarrow> ValueError),
     snd (before_step (default_pipeline n k pr m) ck1 i os))"
proof (cases "fst (before_step (default_pipeline n k pr m) ck1 i os)")
  case (Inl e)
  then show ?thesis by (simp add: step_def case_prod_unfold Let_def)
next
  case (Inr h)
  note d = overspent_desire [OF Inr den inv over tot]
  obtain x where "pc_ceiling_usd (sh_policy h) = VFloat x" "fle x (dp_ceiling_usd (sh_desired h))"
    using passthrough_policy_le_desired [OF Inr den _ _ tot] d by (auto simp: plan_total_fst)
  then show ?thesis using negative_ceiling_step [OF Inr] d fle_flt_trans Inr by simp blast
qed

text \<open>A denied step is charged nothing.\<close>

lemma denied_step_free:
  assumes inv: "budget_inv b v os" and kn: "honest_kernel v kn" and den: "denial_of os i = Some r"
  shows "chain_spent (snd (step (default_pipeline n k pr m) kn sha audit ck1 ck2 i (\<lambda>h. run kn h fn) os)) = chain_spent os"
    "os_total_spent_usd (snd (step (default_pipeline n k pr m) kn sha audit ck1 ck2 i (\<lambda>h. run kn h fn) os)) =
       os_total_spent_usd os"
proof -
  let ?pp = "default_pipeline n k pr m :: (planner, pyfloat, memory_store, 'e) pipeline"
  let ?os = "snd (step ?pp kn sha audit ck1 ck2 i (\<lambda>h. run kn h fn) os)"
  let ?os1 = "snd (before_step ?pp ck1 i os)"
  note frame = before_step_frame(3,4) [of ?pp ck1 i os]
  have zero: "fadd (chain_spent os c) (Fin 0) = chain_spent os c" "fadd (os_total_spent_usd os) (Fin 0) = os_total_spent_usd os" for c
    using inv by (simp_all add: budget_inv_def account_ok_def total_ok_def)
  have "chain_spent ?os = chain_spent os \<and> os_total_spent_usd ?os = os_total_spent_usd os"
  proof (cases rule: step_cases [of ?pp kn sha audit ck1 ck2 i "\<lambda>h. run kn h fn" os])
    case stopped
    then show ?thesis using frame by simp
  next
    case (ran h ec)
    then have h: "h = denied_handle (ck_now ck1) i r" using den by (simp add: before_step_denied)
    let ?s = "case kn_snapshot kn (snd (run kn h fn (kn_new kn ec (si_request_id i) (si_chain_id i)))) of
        Inr s \<Rightarrow> s | Inl _ \<Rightarrow> fallback_snapshot (kn_safety_event kn) (ck_now ck2) i ''snapshot_retrieval_failed''"
    have "snapshot_cost ?s = Fin 0"
      using kn unfolding honest_kernel_def h denied_run snd_conv
      by (auto simp: fallback_snapshot_cost split: sum.split)
    from after_step_account [OF default_pipeline_sel(1) [of n k pr m] this,
        where os = ?os1 and sha = sha and a = audit and ck = ck2 and h = h]
    show ?thesis unfolding ran(3) frame zero if_cancel by metis
  qed
  then show "chain_spent ?os = chain_spent os" "os_total_spent_usd ?os = os_total_spent_usd os" by blast+
qed

text \<open>
  The collector reads the last node of the snapshot only: what the earlier calls of a step's body
  cost, and what the kernel accumulated, does not reach the account, the history or the event.
\<close>

lemma collect_last_node:
  "collect now (s\<lparr>cs_nodes := xs @ [n], cs_cost_usd_accumulated := z\<rparr>) = collect now (s\<lparr>cs_nodes := [n]\<rparr>)"
  by (simp add: collect_def Let_def)

lemma after_step_collect:
  "pp_collect pp s = pp_collect pp s' \<Longrightarrow> after_step pp sha a ck h s os = after_step pp sha a ck h s' os"
  by (simp add: after_step_def)

end
