(* ===== verification/Samples.thy ===== *)
theory Samples
  imports Policy_Types
begin

text \<open>
  Concrete inputs for the witnesses: an intent, a desired policy, an outcome, a history, a
  policy and an organization policy, with \<open>sample_defs\<close> to unfold them.
\<close>

named_theorems sample_defs "definitions of the concrete inputs"

definition sample_intent :: step_intent where [sample_defs]:
  "sample_intent = \<lparr>si_step_id = ''s1'', si_request_id = ''r1'', si_chain_id = ''c1'', si_kind = ''llm'',
     si_model = Some ''gpt-4'', si_tool_name = None, si_timeout_ms = Some 1000, si_metadata = []\<rparr>"

definition sample_desire :: desired_policy where [sample_defs]:
  "sample_desire = \<lparr>dp_chain_id = ''c1'', dp_ceiling_usd = Fin 4, dp_ceiling_steps = 100,
     dp_ceiling_tokens_out = 500, dp_on_exceed = ''halt'', dp_fallback_model = Some ''GPT-4'',
     dp_timeout_ms = Some 9000, dp_priority = 50\<rparr>"

definition sample_outcome :: step_outcome where [sample_defs]:
  "sample_outcome = \<lparr>so_step_id = ''s1'', so_request_id = ''r1'', so_chain_id = ''c1'', so_kind = ''llm'',
     so_status = ''ok'', so_cost_usd = Fin 1, so_tokens_in = 10, so_tokens_out = 20,
     so_elapsed_ms = Fin 5, so_model = Some ''gpt-4'', so_events = [], so_timestamp_ms = 7\<rparr>"

definition sample_analysis :: analysis_result where [sample_defs]:
  "sample_analysis = \<lparr>ar_signals = [], ar_risk_level = Nominal, ar_recommendation = Continue\<rparr>"

definition sample_policy :: policy_config where [sample_defs]:
  "sample_policy = new_policy_config ''c1'' (VFloat (Fin 2)) ''halt'' (VFloat (Fin 0))"

definition sample_org :: org_policy where [sample_defs]:
  "sample_org = new_org_policy (Some (Fin 1)) (Some 5000) [''gpt-4''] [''shell''] (Some 10)"

end
