(* ===== verification/Pipeline_Properties.thy ===== *)
theory Pipeline_Properties
  imports Budget_Run Samples
begin

text \<open>
  What the components of the execution pipeline guarantee: the organization policy, the
  analyzers, the planners, the in-memory store, the emitter, the arbiters and the shared budget.
  Each property is followed by a witness that applies it to a concrete input.
\<close>

section \<open>Organization policy\<close>

text \<open>C5: \<open>OrgPolicy.clamp\<close> returns a policy within every limit that is set (the ceiling, the
  timeout, the priority, no blocked fallback model), clamping it again changes nothing, and the
  chain, the step and token limits and \<open>on_exceed\<close> are those of the argument.\<close>

theorem org_clamp_enforces_limits:
  assumes "org_clamp org d = Inr d'"
  shows "within_org org d' \<and> org_clamp org d' = Inr d' \<and>
    dp_chain_id d' = dp_chain_id d \<and> dp_ceiling_steps d' = dp_ceiling_steps d \<and>
    dp_ceiling_tokens_out d' = dp_ceiling_tokens_out d \<and> dp_on_exceed d' = dp_on_exceed d"
  using org_clamp_within [OF assms] org_clamp_idem [OF assms] org_clamp_frame [OF assms] by blast

lemma casefold_gpt: "casefold ''GPT-4'' = ''gpt-4''" "casefold ''gpt-4'' = ''gpt-4''"
  by code_simp+

theorem org_clamp_enforces_limits_witness:
  "within_org sample_org (sample_desire\<lparr>dp_ceiling_usd := Fin 1, dp_timeout_ms := Some 5000,
     dp_priority := 10, dp_fallback_model := None\<rparr>)"
proof -
  have "org_clamp sample_org sample_desire =
      Inr (sample_desire\<lparr>dp_ceiling_usd := Fin 1, dp_timeout_ms := Some 5000,
        dp_priority := 10, dp_fallback_model := None\<rparr>)"
    by (simp add: sample_defs org_clamp_def clamp_timeout_def clamp_ceiling_def clamp_priority_def
        clamp_fallback_def named_in_def new_org_policy_def casefold_gpt)
  from org_clamp_enforces_limits [OF this] show ?thesis by blast
qed

section \<open>Analyzers\<close>

text \<open>\<open>HistoryAnalyzer\<close> composes its patterns so that the recommendation is \<open>halt\<close> exactly at
  depth 10, otherwise \<open>tighten\<close> when the step failed, the depth is 6, the cost accelerates or the
  loop score is high, otherwise \<open>loosen\<close> on a clean history; and the risk is critical exactly when
  the step was halted or the depth reached 10.\<close>

theorem history_analysis_decides:
  "ar_recommendation (history_analyze i out h) =
     (if 10 \<le> hv_depth h then Halt
      else if history_tightens out h then Tighten
      else if history_clean out h then Loosen else Continue) \<and>
   (ar_risk_level (history_analyze i out h) = CriticalRisk \<longleftrightarrow>
      so_status out = ''halted'' \<or> 10 \<le> hv_depth h)"
  by (simp add: history_recommendation history_risk_signals compose_risk_critical history_signals_critical)

section \<open>Planners\<close>

text \<open>Over any sequence of plans, with the planner's state carried from one to the next, neither
  planner ever asks for more than its maximum ceiling or than the chain's remaining budget, and
  after a \<open>halt\<close> recommendation the desired policy halts.\<close>

theorem planners_stay_in_budget:
  assumes "planner_ok p" "planner_ok (ap_planner q)" "i < length xs"
    and "bs_chain_remaining_usd (snd (snd (xs ! i))) \<noteq> NaN"
  shows "fle (dp_ceiling_usd (plan_all simple_plan p xs ! i)) (pl_max p) \<and>
    fle (dp_ceiling_usd (plan_all simple_plan p xs ! i)) (bs_chain_remaining_usd (snd (snd (xs ! i)))) \<and>
    fle (dp_ceiling_usd (plan_all adaptive_plan q xs ! i)) (pl_max (ap_planner q)) \<and>
    fle (dp_ceiling_usd (plan_all adaptive_plan q xs ! i)) (bs_chain_remaining_usd (snd (snd (xs ! i))))"
proof -
  have len: "length (plan_all pl s xs) = length xs"
    for pl :: "'s \<Rightarrow> analysis_result option \<Rightarrow> cost_estimate \<Rightarrow> budget_state \<Rightarrow> desired_policy \<times> 's" and s
    by (induction xs arbitrary: s) auto
  have "plan_all simple_plan p xs ! i \<in> set (plan_all simple_plan p xs)"
    "plan_all adaptive_plan q xs ! i \<in> set (plan_all adaptive_plan q xs)"
    using assms(3) by (simp_all add: len)
  then show ?thesis
    using simple.plan_all_le_cap [OF assms(1)] simple.plan_all_le_remaining [OF assms(1,3,4)]
      adaptive.plan_all_le_cap [OF assms(2)] adaptive.plan_all_le_remaining [OF assms(2,3,4)]
    by blast
qed

lemma default_planner_ok: "planner_ok default_planner"
proof -
  have "fle (flit (1 / 10)) (Fin 1)" by (rule flit_le_1) simp
  then have "fle (flit (1 / 10)) (Fin 10)" by (rule fle_trans) simp
  then show ?thesis by (simp add: planner_ok_def default_planner_def new_planner_def)
qed

definition sample_budget :: budget_state where [sample_defs]:
  "sample_budget = \<lparr>bs_request_remaining_usd = Fin 3, bs_chain_remaining_usd = Fin 2,
     bs_window_remaining_steps = 100\<rparr>"

definition sample_cost :: cost_estimate where [sample_defs]:
  "sample_cost = \<lparr>ce_estimated_usd = Fin 1, ce_confidence = Fin 1, ce_model_used = ''gpt-4'',
     ce_basis = ''table''\<rparr>"

theorem planners_stay_in_budget_witness:
  "fle (dp_ceiling_usd (plan_all adaptive_plan (new_adaptive_planner default_planner)
     [(None, sample_cost, sample_budget)] ! 0)) (Fin 2)"
  using planners_stay_in_budget [of default_planner "new_adaptive_planner default_planner" 0
      "[(None, sample_cost, sample_budget)]"] default_planner_ok
  by (simp add: new_adaptive_planner_def sample_budget_def)

text \<open>Between two adjustments of its ceiling \<open>AdaptivePlanner\<close> lets at least three plans pass,
  whatever the analyses recommend.\<close>

theorem adaptive_cooldown_separates:
  assumes "i < j" "j < length xs" "adjust_trace p xs ! i" "adjust_trace p xs ! j"
  shows "i + 4 \<le> j"
  using assms by (rule adjust_trace_gap)

definition tighten_input :: plan_input where [sample_defs]:
  "tighten_input = (Some (sample_analysis\<lparr>ar_recommendation := Tighten\<rparr>), sample_cost, sample_budget)"

lemma adjust_trace_sample:
  "adjust_trace (new_adaptive_planner default_planner) (replicate 5 tighten_input) =
     [True, False, False, False, True]"
proof -
  have step: "adjust_trace p (tighten_input # xs) =
      adjusts p (fst tighten_input) # adjust_trace (snd (adaptive_plan p (fst tighten_input) sample_cost sample_budget)) xs"
    for p xs by (simp add: tighten_input_def)
  have adj: "adjusts p (fst tighten_input) \<longleftrightarrow> cooldown p \<le> 0" for p
    by (simp add: adjusts_def tighten_input_def)
  have "cooldown (new_adaptive_planner default_planner) = 0"
    by (simp add: cooldown_def new_adaptive_planner_def)
  then show ?thesis
    by (simp add: numeral_eq_Suc step adj cooldown_next)
qed

theorem adaptive_cooldown_separates_witness: "(0::nat) + 4 \<le> 4"
  by (rule adaptive_cooldown_separates [of 0 4 "replicate 5 tighten_input" "new_adaptive_planner default_planner"])
    (simp_all add: adjust_trace_sample)

text \<open>\<open>AdaptivePlanner\<close> plans at least 1.5 times the estimated cost whenever its maximum and
  the chain's remaining budget allow that much.\<close>

theorem adaptive_covers_estimate:
  assumes "planner_ok (ap_planner p)" "adaptive_adjust p a \<noteq> NaN"
    and "fle (fmul (ce_estimated_usd c) COST_HEADROOM) (pl_max (ap_planner p))"
    and "fle (fmul (ce_estimated_usd c) COST_HEADROOM) (bs_chain_remaining_usd b)"
  shows "fle (fmul (ce_estimated_usd c) COST_HEADROOM) (dp_ceiling_usd (fst (adaptive_plan p a c b)))"
  using assms by (intro adaptive_headroom) auto

theorem adaptive_covers_estimate_witness:
  "fle (fmul (Fin 1) COST_HEADROOM)
     (dp_ceiling_usd (fst (adaptive_plan (new_adaptive_planner default_planner) None sample_cost sample_budget)))"
proof -
  have "rnd (3 / 2) = Fin (3 / 2)"
    by (rule rnd_dyadic [of _ 3 "-1"]) (simp_all add: pow2_powi)
  then have need: "fmul (Fin 1) COST_HEADROOM = Fin (3 / 2)"
    by (simp add: COST_HEADROOM_def)
  show ?thesis
    using adaptive_covers_estimate [of "new_adaptive_planner default_planner" None sample_cost sample_budget]
      default_planner_ok
    by (simp add: need sample_cost_def sample_budget_def new_adaptive_planner_def default_planner_def
        new_planner_def adaptive_adjust_def del: fmul.simps)
qed

lemma sample_chain_ok: "chain_id_ok ''c1''"
  by code_simp

section \<open>The emitter\<close>

text \<open>C13: under any interleaving of the emitter's lock sections every event sent is accounted for:
  it was drained, is still buffered, or was counted as dropped; what was drained and then what is
  buffered is a subsequence of what was sent, in order; the buffer holds the newest events and
  never exceeds its bound; an unbounded emitter drops nothing.\<close>

theorem emitter_conserves_events:
  assumes "em_reach maxlen (s, sent, got)"
  shows "length sent = dropped_total s + length got + length (emitter_snapshot s) \<and>
    subseq (got @ emitter_snapshot s) sent \<and> suffix (emitter_snapshot s) sent \<and>
    (case maxlen of None \<Rightarrow> dropped_total s = 0 | Some m \<Rightarrow> length (emitter_snapshot s) \<le> m)"
  using em_reach_inv [OF assms] unfolding em_inv_def prod.case dropped_total_def emitter_snapshot_def
  by (cases maxlen) (simp_all only: option.case simp_thms)

theorem emitter_conserves_events_witness:
  "let s = emit_append (2::nat) (emit_append 1 (new_emitter (Some 1) :: (nat, nat) emitter)) in
   length [1, 2 :: nat] = dropped_total s + length ([] :: nat list) + length (emitter_snapshot s)"
proof -
  have "em_reach (Some 1) (emit_append (2::nat) (emit_append 1 (new_emitter (Some 1) :: (nat, nat) emitter)),
      ([] @ [1]) @ [2], [])"
    by (rule em_reach.reach_step [OF em_reach.reach_step [OF em_reach.reach_init step_append] step_append])
  from emitter_conserves_events [OF this] show ?thesis
    unfolding Let_def append.simps by blast
qed

lemma some_if: "((if P then Some x else None) = Some x) = P"
  by simp

text \<open>C14: a subscriber stays subscribed through a sequence of emitted events exactly when its
  callback does not raise on three consecutive ones (failures counted before included), whatever
  the other subscribers do.\<close>

theorem emitter_drops_failing_subscriber:
  assumes "em_wf s" "dget (em_subscribers s) n = Some cb"
  shows "dget (em_subscribers (emit_all calls evs s)) n = Some cb \<longleftrightarrow>
    (\<nexists>xs ys. replicate (fail_count s n) False @ map (calls cb) evs = xs @ [False, False, False] @ ys)"
proof -
  have k: "fail_count s n < 3"
    using assms(1) by (auto simp: em_wf_def MAX_CONSECUTIVE_FAILURES_def)
  show ?thesis
    unfolding emit_all_survives [OF assms] survives_iff [OF k] some_if ..
qed

theorem emitter_drops_failing_subscriber_witness:
  "dget (em_subscribers (emit_all (\<lambda>cb ev. False) [1, 2, 3 :: nat]
     (subscribe ''a'' (0::nat) (new_emitter None)))) ''a'' \<noteq> Some 0"
proof -
  let ?s = "subscribe ''a'' (0::nat) (new_emitter None) :: (nat, nat) emitter"
  have "em_wf ?s" "dget (em_subscribers ?s) ''a'' = Some 0"
    by (rule subscribe_wf, rule new_emitter_wf) (simp add: subscribe_def)
  note iff = emitter_drops_failing_subscriber [OF this, of "\<lambda>cb ev. False" "[1, 2, 3]"]
  have "fail_count ?s ''a'' = 0" by (simp add: fail_count_def subscribe_def)
  then have "replicate (fail_count ?s ''a'') False @ map ((\<lambda>cb ev. False) (0::nat)) [1, 2, 3 :: nat] =
      [] @ [False, False, False] @ []"
    by simp
  then show ?thesis unfolding iff by blast
qed

section \<open>Arbiters\<close>

text \<open>Every policy \<open>PassthroughArbiter\<close> hands out belongs to one of the desires, carries its
  fields, and its ceiling is a number between zero and the desired ceiling, whatever the sum of
  the desires and the budget.\<close>

theorem passthrough_never_raises_ceiling:
  assumes "passthrough_arbitrate now ds b = Inr m" "dget m c = Some p"
    and "isfinite b" "nonneg_float b" "list_all sane_desire ds"
  shows "\<exists>d \<in> set ds. \<exists>x. dp_chain_id d = c \<and> carries d p \<and> pc_ceiling_usd p = VFloat x \<and>
    nonneg_float x \<and> fle x (dp_ceiling_usd d)"
  using assms by (intro passthrough_cap) (auto simp: sane_desire_def list_all_iff)

lemma sample_desire_sane: "sane_desire sample_desire"
  by (simp add: sane_desire_def sample_desire_def is_double_numeral)

lemma passthrough_sample:
  "passthrough_arbitrate (Fin 0) [sample_desire] (Fin 4) =
     Inr [(''c1'', config_of_desire sample_desire (Fin 4) (Fin 0) ''0.1.0'')]"
  by (simp add: passthrough_arbitrate_def passthrough_scale_def sample_desire_def fsum_def)

theorem passthrough_never_raises_ceiling_witness:
  "\<exists>d \<in> set [sample_desire]. \<exists>x. dp_chain_id d = ''c1'' \<and>
    carries d (config_of_desire sample_desire (Fin 4) (Fin 0) ''0.1.0'') \<and>
    pc_ceiling_usd (config_of_desire sample_desire (Fin 4) (Fin 0) ''0.1.0'') = VFloat x \<and>
    nonneg_float x \<and> fle x (dp_ceiling_usd d)"
  by (rule passthrough_never_raises_ceiling [OF passthrough_sample])
    (simp_all add: sample_desire_sane)

text \<open>C23: for desires whose ceilings are finite, not negative and representable, with priorities that sum
  to at most \<open>2 ^ 53\<close> (so that their ratios are exact to one rounding), and a finite budget: every
  policy \<open>ProportionalArbiter\<close> hands out belongs to a desire of positive priority. Under a budget that
  is not negative its ceiling is a finite number between zero and the larger of the desired ceiling
  and the minimum allocation of 0.01; under a negative one (already overspent) no ceiling is
  positive.\<close>

theorem proportional_stays_bounded:
  assumes "proportional_arbitrate now ds b = Inr m" "(c, p) \<in> set m"
    and "list_all sane_desire ds" "sum_list (map dp_priority (eligible ds)) \<le> 2 ^ 53"
    and "isfinite b" "is_double b"
  shows "\<exists>x. pc_ceiling_usd p = VFloat x \<and>
    (\<exists>d \<in> set ds. 0 < dp_priority d \<and> dp_chain_id d = c \<and>
       (if nonneg_float b
        then isfinite x \<and> nonneg_float x \<and> fle x (fmax (dp_ceiling_usd d) MIN_ALLOCATION_USD)
        else \<not> flt (Fin 0) x))"
proof (cases "nonneg_float b")
  case True
  obtain x d where x: "pc_ceiling_usd p = VFloat x" "isfinite x" "nonneg_float x" "d \<in> set ds" "0 < dp_priority d"
    "dp_chain_id d = c" "fle x (fmax (dp_ceiling_usd d) MIN_ALLOCATION_USD)"
    using proportional_bounds [OF assms(1,2) _ assms(4,5) True assms(6)] assms(3) by (auto simp: list_all_iff)
  then show ?thesis using True by auto
next
  case False
  then show ?thesis
    using proportional_negative [OF assms(1,2) _ assms(4,5) False] proportional_excludes [OF assms(1,2)] assms(3)
    by (fastforce simp: list_all_iff)
qed

lemma MIN_ALLOCATION_le_1: "fle MIN_ALLOCATION_USD (Fin 1)"
  unfolding MIN_ALLOCATION_USD_def by (rule flit_le_1) simp

lemma fmax_absorb: "fle y x \<Longrightarrow> fmax x y = x"
  by (cases x; cases y) (auto simp: fmax_def)

lemma proportional_sample:
  "proportional_arbitrate (Fin 0) [sample_desire] (Fin 4) =
     Inr [(''c1'', config_of_desire sample_desire (Fin 4) (Fin 0) ''0.2.0'')]"
proof -
  have pass: "pass2 (pass1 [sample_desire] (Fin 4)) = [(''c1'', Fin 4)]"
    using proportional_single [of sample_desire "Fin 4"]
    by (simp add: sample_desire_def is_double_numeral fmin_def)
  have low: "fle MIN_ALLOCATION_USD (Fin 4)"
    by (rule fle_trans [OF MIN_ALLOCATION_le_1]) simp
  then have top: "fmax (Fin 4) MIN_ALLOCATION_USD = Fin 4"
    by (rule fmax_absorb)
  have "fle (Fin 4) (fadd (Fin 4) ARB_EPS)"
    by (rule fadd_ge1) (simp_all add: is_double_numeral ARB_EPS_nonneg)
  then have total: "\<not> flt (fadd (Fin 4) ARB_EPS) (Fin 4)"
    by (cases "fadd (Fin 4) ARB_EPS") auto
  have alloc: "proportional_allocate [sample_desire] (Fin 4) = Inr [(''c1'', Fin 4)]"
    using total by (simp add: proportional_allocate_def pass raise_to_min_def low top clamp_total_def
        dvalues_def fsum_def)
  have "\<not> flt (Fin 50) ARB_EPS"
  proof -
    have "fle ARB_EPS (Fin 1)" unfolding ARB_EPS_def by (rule flit_le_1) simp
    then show ?thesis using flt_fle_trans [of "Fin 50" ARB_EPS "Fin 1"] by auto
  qed
  then show ?thesis
    unfolding proportional_arbitrate_def
    by (simp add: eligible_def sample_desire_def [THEN arg_cong [where f = dp_priority]] alloc desire_map_def)
      (simp add: sample_desire_def config_of_desire_def)
qed

theorem proportional_stays_bounded_witness:
  "\<exists>x. pc_ceiling_usd (config_of_desire sample_desire (Fin 4) (Fin 0) ''0.2.0'') = VFloat x \<and>
    isfinite x \<and> nonneg_float x \<and> fle x (fmax (Fin 4) MIN_ALLOCATION_USD)"
  using proportional_stays_bounded [OF proportional_sample, of "''c1''"
      "config_of_desire sample_desire (Fin 4) (Fin 0) ''0.2.0''"]
  by (simp add: sample_desire_sane is_double_numeral eligible_def) (simp add: sample_desire_def)

section \<open>The shared budget in Redis\<close>

text \<open>C6: under any interleaving of reservations, settlements and expiries of records on one shared
  Redis scope, for any keys and amounts, settlements that come before the first reservation and
  negative costs included, no money is created: what remains, what is reserved, what was charged
  and what expired records leaked add up to what the scope was given plus what settlements charged
  beyond what was there (the remainder is then clamped at zero). The scope was given the budget, which all processes
  are configured with and which is not negative, when a reservation was the first call on it, and
  nothing otherwise; and the remainder is never negative.\<close>

theorem redis_budget_conserved:
  assumes "redis_reach budget (s, l)" "0 \<le> budget"
  shows "case rs_remaining s of
      None \<Rightarrow> reserved_total s = 0 \<and> l = empty_ledger
    | Some n \<Rightarrow> 0 \<le> n \<and> 0 \<le> lg_written_off l \<and> lg_funded l \<in> {0, budget} \<and>
        n + reserved_total s + lg_charged l + lg_leaked l = lg_funded l + lg_written_off l"
  using redis_reach_inv [OF assms] unfolding redis_inv_def prod.case
  by (cases "rs_remaining s") (auto simp: reserved_total_def)

theorem redis_budget_conserved_witness:
  "let s = snd (lua_settle ''r:t'' 4 (snd (lua_reserve ''r:s'' 3 10 empty_redis))) in
   \<exists>n. rs_remaining s = Some n \<and> 0 \<le> n \<and> n + 3 + 4 = (10 :: int)"
proof -
  have "redis_reach 10 (snd (lua_reserve ''r:s'' 3 10 empty_redis), empty_ledger\<lparr>lg_funded := 10\<rparr>)"
    using redis_reach.rr_step [OF redis_reach.rr_init rs_reserve, of 10 "''r:s''" 3]
    by (simp add: empty_redis_def)
  from redis_reach.rr_step [OF this rs_settle, of "''r:t''" 4]
  have "redis_reach 10 (snd (lua_settle ''r:t'' 4 (snd (lua_reserve ''r:s'' 3 10 empty_redis))),
      empty_ledger\<lparr>lg_funded := 10, lg_charged := 4\<rparr>)"
    by (simp add: empty_redis_def empty_ledger_def lua_reserve_def settle_balance_def)
  from redis_budget_conserved [OF this] show ?thesis
    by (simp add: lua_settle_def lua_reserve_def empty_redis_def reserved_total_def dvalues_def empty_ledger_def)
qed

text \<open>A reservation repeated for the same request and step, whatever amount it asks for, returns
  the amount reserved first and takes nothing more from the budget.\<close>

theorem redis_reserve_idempotent:
  assumes "lua_reserve key r budget s = (Reserved q, s')"
  shows "lua_reserve key r' budget' s' = (Reserved q, s')"
  using assms by (rule lua_reserve_again)

theorem redis_reserve_idempotent_witness:
  "lua_reserve ''r:s'' 5 10 (snd (lua_reserve ''r:s'' 3 10 empty_redis)) =
     (Reserved 3, snd (lua_reserve ''r:s'' 3 10 empty_redis))"
proof -
  have "lua_reserve ''r:s'' 3 10 empty_redis = (Reserved 3, snd (lua_reserve ''r:s'' 3 10 empty_redis))"
    by (simp add: lua_reserve_def empty_redis_def)
  from redis_reserve_idempotent [OF this] show ?thesis .
qed

text \<open>A settlement that reaches Redis before any reservation (the first step of a process is
  denied, or reserved through the fallback arbiter) sets the remaining budget to zero instead of
  leaving it to be initialised, so that every later reservation is refused.\<close>

theorem redis_settle_first_empties_budget:
  "rs_remaining (snd (lua_settle key (int actual) empty_redis)) = Some 0 \<and>
   lua_reserve key' (int (Suc amount)) budget (snd (lua_settle key (int actual) empty_redis)) =
     (Insufficient 0 (int (Suc amount)), snd (lua_settle key (int actual) empty_redis))"
  by (simp add: lua_settle_def lua_reserve_def empty_redis_def)

section \<open>The orchestrator\<close>

definition sample_clock :: clock where [sample_defs]:
  "sample_clock = \<lparr>ck_now = Fin 0, ck_elapsed = (\<lambda>_. Fin 0)\<rparr>"

definition sample_pipeline :: "(planner, pyfloat, memory_store, unit) pipeline" where [sample_defs]:
  "sample_pipeline = default_pipeline 0 (\<lambda>_. False) (\<lambda>_ _ _. Fin 0) new_table_cost_model"

definition lenient_org :: org_policy where [sample_defs]:
  "lenient_org = new_org_policy (Some (Fin 3)) None [] [] None"

definition sample_os :: "org_policy \<Rightarrow> (planner, pyfloat, memory_store, unit) os" where [sample_defs]:
  "sample_os org = new_os (new_planner (Fin 4) (Fin 10) (Fin 0) 1000 ''halt'' None) (Fin 0)
     new_memory_store () None (Fin 5) (Some org)"

definition sample_kernel :: "(context_snapshot result, unit, unit) kernel" where [sample_defs]:
  "sample_kernel = \<lparr>kn_new = (\<lambda>_ _ _. Inl RuntimeError), kn_wrap_tool = (\<lambda>_ k. (Inr (), k)),
     kn_wrap_llm = (\<lambda>_ k. (Inr (), k)), kn_snapshot = (\<lambda>k. k), kn_safety_event = Inr\<rparr>"

text \<open>C1: a step the organization's policy denies never runs: its result and the final state are the
  same whatever the kernel's \<open>wrap_llm_call\<close> and \<open>wrap_tool_call\<close> and the function would do, and the
  step raises.\<close>

theorem denied_step_never_runs:
  assumes "denial_of os i = Some r"
  shows "step pp (kn\<lparr>kn_wrap_tool := wt, kn_wrap_llm := wl\<rparr>) sha audit ck1 ck2 i
       (\<lambda>h. run (kn\<lparr>kn_wrap_tool := wt, kn_wrap_llm := wl\<rparr>) h f') os =
     step pp kn sha audit ck1 ck2 i (\<lambda>h. run kn h f) os \<and>
   (\<exists>e. fst (step pp kn sha audit ck1 ck2 i (\<lambda>h. run kn h f) os) = Inl e)"
  by (rule conjI; rule denied_step [OF assms]) simp_all

theorem denied_step_never_runs_witness:
  "\<exists>e. fst (step sample_pipeline sample_kernel (\<lambda>_. []) [] sample_clock sample_clock sample_intent
     (\<lambda>h. run sample_kernel h ()) (sample_os sample_org)) = Inl e"
proof -
  have "denial_of (sample_os sample_org) sample_intent = Some (model_denial ''gpt-4'')"
    by (simp add: denial_of_def sample_defs new_os_def org_validate_def new_org_policy_def named_in_def
        casefold_gpt)
  from denied_step_never_runs [OF this, THEN conjunct2] show ?thesis .
qed

text \<open>C2: in the default pipeline the ceiling handed to the kernel is a number no larger than the
  organization's maximum, whatever the planner, the budget and the stage timeouts were.\<close>

theorem step_ceiling_within_org:
  assumes "fst (before_step (default_pipeline n known price model) ck i os) = Inr h"
    and "denial_of os i = None" "os_org_policy os = Some org" "op_max_ceiling_usd org = Some m" "isfinite m"
    and "isfinite (bs_request_remaining_usd (budget_of os (si_chain_id i)))"
    and "is_double (dp_ceiling_usd (sh_desired h))"
  shows "\<exists>x. pc_ceiling_usd (sh_policy h) = VFloat x \<and> fle x m"
proof -
  have d: "isfinite (dp_ceiling_usd (sh_desired h)) \<and> fle (dp_ceiling_usd (sh_desired h)) m"
    using step_desired_within_org [OF assms(1-5)] .
  obtain x where "pc_ceiling_usd (sh_policy h) = VFloat x" "fle x (dp_ceiling_usd (sh_desired h))"
    using passthrough_policy_le_desired [OF assms(1,2) _ _ assms(6) _ assms(7)] d
    by (auto simp: plan_total_fst)
  then show ?thesis using d fle_trans by blast
qed

lemma sample_history: "memory_build_history new_memory_store ''c1'' 50 = Inr (history_of ''c1'' [])"
  using sample_chain_ok by (simp add: memory_build_eq chain_outcomes_def new_memory_store_def take_last_def)

lemma sample_before_step:
  "\<exists>h. fst (before_step sample_pipeline sample_clock sample_intent (sample_os lenient_org)) = Inr h \<and>
     dp_ceiling_usd (sh_desired h) = Fin 3 \<and> \<not> dm_degraded (sh_decision_meta h)"
  by (simp add: sample_defs default_pipeline_def before_step_def decided_handle_def new_os_def org_validate_def
      new_org_policy_def named_in_def sample_history table_estimate_def guarded_def run_with_budget_def
      stage_budget_def DEFAULT_STAGE_BUDGETS_def Let_def plan_and_arbitrate_def simple_plan_def
      clamp_plan_def simple_adjust_def budget_of_def fsub_def planned_def new_planner_def
      clamp_and_name_def org_clamp_def clamp_timeout_def clamp_ceiling_def clamp_priority_def
      clamp_fallback_def passthrough_arbitrate_def passthrough_scale_def fsum_def fmin_def fmax_def
      unless_none_def)

lemma sample_os_facts:
  "denial_of (sample_os lenient_org) sample_intent = None"
  "os_org_policy (sample_os lenient_org) = Some lenient_org" "op_max_ceiling_usd lenient_org = Some (Fin 3)"
  "budget_of (sample_os lenient_org) c = \<lparr>bs_request_remaining_usd = Fin 5, bs_chain_remaining_usd = Fin 5,
     bs_window_remaining_steps = 100\<rparr>"
  "os_planner (sample_os lenient_org) = new_planner (Fin 4) (Fin 10) (Fin 0) 1000 ''halt'' None"
  by (simp_all add: denial_of_def sample_defs new_os_def org_validate_def new_org_policy_def named_in_def
      budget_of_def fsub_def)

theorem step_ceiling_within_org_witness:
  "\<exists>h x. fst (before_step sample_pipeline sample_clock sample_intent (sample_os lenient_org)) = Inr h \<and>
     pc_ceiling_usd (sh_policy h) = VFloat x \<and> fle x (Fin 3)"
proof -
  obtain h where h: "fst (before_step sample_pipeline sample_clock sample_intent (sample_os lenient_org)) = Inr h"
    "dp_ceiling_usd (sh_desired h) = Fin 3"
    using sample_before_step by blast
  have "\<exists>x. pc_ceiling_usd (sh_policy h) = VFloat x \<and> fle x (Fin 3)"
    by (rule step_ceiling_within_org [OF h(1) [unfolded sample_pipeline_def] sample_os_facts(1-3)])
      (simp_all add: sample_os_facts h(2) is_double_numeral)
  with h(1) show ?thesis by blast
qed

text \<open>In the default pipeline, when no stage was replaced by its fallback, the ceiling handed to
  the kernel is a number no larger than what is left of the chain's budget.\<close>

theorem step_ceiling_within_chain_budget:
  assumes "fst (before_step (default_pipeline n known price model) ck i os) = Inr h"
    and "denial_of os i = None" "\<not> dm_degraded (sh_decision_meta h)"
    and "planner_ok (os_planner os)" "isfinite (pl_min (os_planner os))" "isfinite (pl_max (os_planner os))"
    and "isfinite (bs_chain_remaining_usd (budget_of os (si_chain_id i)))"
    and "isfinite (bs_request_remaining_usd (budget_of os (si_chain_id i)))"
    and "isfinite (dp_ceiling_usd (sh_desired h))" "is_double (dp_ceiling_usd (sh_desired h))"
  shows "\<exists>x. pc_ceiling_usd (sh_policy h) = VFloat x \<and>
    fle x (bs_chain_remaining_usd (budget_of os (si_chain_id i)))"
  using assms by (rule default_step_chain_budget)

theorem step_ceiling_within_chain_budget_witness:
  "\<exists>h x. fst (before_step sample_pipeline sample_clock sample_intent (sample_os lenient_org)) = Inr h \<and>
     pc_ceiling_usd (sh_policy h) = VFloat x \<and> fle x (Fin 5)"
proof -
  obtain h where h: "fst (before_step sample_pipeline sample_clock sample_intent (sample_os lenient_org)) = Inr h"
    "dp_ceiling_usd (sh_desired h) = Fin 3" "\<not> dm_degraded (sh_decision_meta h)"
    using sample_before_step by blast
  have "\<exists>x. pc_ceiling_usd (sh_policy h) = VFloat x \<and>
      fle x (bs_chain_remaining_usd (budget_of (sample_os lenient_org) (si_chain_id sample_intent)))"
    by (rule step_ceiling_within_chain_budget [OF h(1) [unfolded sample_pipeline_def] sample_os_facts(1) h(3)])
      (simp_all add: sample_os_facts h(2) is_double_numeral planner_ok_def new_planner_def)
  with h(1) show ?thesis by (auto simp: sample_os_facts)
qed

text \<open>C3: the budget of a request bounds what its chains spend over a whole run: whatever steps run one
  after the other in the default pipeline, denied ones and failed snapshots included, a chain's
  account never passes the budget by more than one rounding error and the overrun \<open>v\<close> the kernel
  allows itself in one call beyond the ceiling it is given. The steps are on time (no stage replaced
  by its fallback) and what is left of the request's budget stays finite.\<close>

theorem chain_spend_within_budget:
  assumes "budgeted_run (default_pipeline n known price model) kn sha
      (new_os pl ar st em budgets (Fin b) org) os"
    and "honest_kernel v kn" "sane_planner pl" "sane_org org"
    and "is_double (Fin b)" "0 \<le> b" "0 \<le> v" "isfinite (budget_bound b v)"
  shows "fle (chain_spent os c) (budget_bound b v)"
  using budgeted_run_inv [OF assms(1,2) new_os_budget_inv [OF assms(3,4,6,7)] assms(5-8)]
  by (simp add: budget_inv_def account_ok_def)

definition thrifty_kernel :: "(exec_config \<times> string \<times> bool, unit, unit) kernel" where
  \<comment> \<open>charges three dollars when the ceiling allows it\<close>
  "thrifty_kernel = \<lparr>kn_new = (\<lambda>ec rid cid. (ec, cid, False)),
     kn_wrap_tool = (\<lambda>_ (ec, cid, _). (Inr (), ec, cid, True)),
     kn_wrap_llm = (\<lambda>_ (ec, cid, _). (Inr (), ec, cid, True)),
     kn_snapshot = (\<lambda>(ec, cid, called). Inr \<lparr>cs_chain_id = cid, cs_request_id = ''r1'', cs_step_count = 1,
       cs_cost_usd_accumulated = (if called \<and> val_lt (ec_max_cost_usd ec) (Fin 3) = Inr False then Fin 3 else Fin 0),
       cs_retries_used = 0, cs_aborted = False, cs_abort_reason = None, cs_elapsed_ms = Fin 1,
       cs_nodes = [], cs_events = []\<rparr>),
     kn_safety_event = Inr\<rparr>"

lemma thrifty_kernel_honest: "honest_kernel 0 thrifty_kernel"
  by (auto simp: honest_kernel_def thrifty_kernel_def snapshot_cost_def val_lt_def is_double_numeral)

theorem chain_spend_within_budget_witness:
  "fle (chain_spent (snd (run_step sample_pipeline thrifty_kernel (\<lambda>_. []) [] [] sample_clock sample_clock
     sample_intent () (sample_os lenient_org))) ''c1'') (budget_bound 5 0)"
proof -
  have norm: "normalize_intent [] sample_intent (sample_os lenient_org) = (sample_intent, sample_os lenient_org)"
    by (simp add: normalize_intent_def sample_intent_def)
  have run: "budgeted_run sample_pipeline thrifty_kernel (\<lambda>_. []) (sample_os lenient_org)
     (snd (run_step sample_pipeline thrifty_kernel (\<lambda>_. []) [] [] sample_clock sample_clock
       sample_intent () (sample_os lenient_org)))"
  proof (rule br_step [OF br_start norm])
    show "isfinite (bs_request_remaining_usd (budget_of (sample_os lenient_org) (si_chain_id sample_intent)))"
      by (simp add: sample_os_facts)
    show "\<forall>h. denial_of (sample_os lenient_org) sample_intent = None \<and>
        fst (before_step sample_pipeline sample_clock sample_intent (sample_os lenient_org)) = Inr h \<longrightarrow>
        \<not> dm_degraded (sh_decision_meta h)"
      using sample_before_step by auto
  qed
  have "isfinite (budget_bound 5 0)"
    unfolding budget_bound_def by (rule rnd_finite_bound [of _ 6]) (simp_all add: is_double_numeral)
  then show ?thesis
    by (intro chain_spend_within_budget [OF run [unfolded sample_pipeline_def sample_os_def] thrifty_kernel_honest,
        folded sample_pipeline_def sample_os_def])
      (simp_all add: sane_planner_def sane_org_def planner_ok_def new_planner_def is_double_numeral
        lenient_org_def new_org_policy_def)
qed

text \<open>C24: a step is accounted with its last call only: when its body called the kernel several times,
  the state after the step is the one the last call alone would give, whatever the earlier calls
  (the nodes \<open>xs\<close>) cost and whatever total the kernel accumulated.\<close>

theorem earlier_calls_unaccounted:
  "after_step (default_pipeline n known price model) sha audit ck h
     (s\<lparr>cs_nodes := xs @ [node], cs_cost_usd_accumulated := z\<rparr>) os =
   after_step (default_pipeline n known price model) sha audit ck h (s\<lparr>cs_nodes := [node]\<rparr>) os"
  by (rule after_step_collect) (simp only: default_pipeline_sel collect_last_node)

text \<open>C4: the orchestrator's accounts are exact: after any sequence of finished steps the total spent
  is the sum, in the order of the steps, of the finite costs of the outcomes recorded, and a
  chain's account is that of the outcomes recorded for the chain.\<close>

theorem spend_accounts_are_sums:
  "os_total_spent_usd (snd (after_all pp sha fs os)) =
     foldl fadd (os_total_spent_usd os) (map finite_cost (fst (after_all pp sha fs os))) \<and>
   chain_spent (snd (after_all pp sha fs os)) c =
     foldl fadd (chain_spent os c)
       (map finite_cost (filter (\<lambda>out. so_chain_id out = c) (fst (after_all pp sha fs os))))"
  by (rule after_all_spend) simp

text \<open>When the enforced ceiling is negative (a request budget already overspent, for instance)
  the step raises \<open>ValueError\<close> before the kernel is created and \<open>after_step\<close> does not run: the
  state is that after \<open>before_step\<close>.\<close>

theorem negative_ceiling_skips_after_step:
  assumes "fst (before_step pp ck1 i os) = Inr h" "pc_ceiling_usd (sh_policy h) = VFloat x" "flt x (Fin 0)"
  shows "step pp kn sha audit ck1 ck2 i body os = (Inl ValueError, snd (before_step pp ck1 i os))"
  using assms by (rule negative_ceiling_step)

lemma overspent_before_step:
  "\<exists>h. fst (before_step sample_pipeline sample_clock sample_intent
       (sample_os lenient_org\<lparr>os_chain_spent_usd := [(''c1'', Fin 7)]\<rparr>)) = Inr h \<and>
     pc_ceiling_usd (sh_policy h) = VFloat (Fin (- 2)) \<and> \<not> dm_degraded (sh_decision_meta h)"
  by (simp add: sample_defs default_pipeline_def before_step_def decided_handle_def new_os_def org_validate_def
      new_org_policy_def named_in_def sample_history table_estimate_def guarded_def run_with_budget_def
      stage_budget_def DEFAULT_STAGE_BUDGETS_def Let_def plan_and_arbitrate_def simple_plan_def
      clamp_plan_def simple_adjust_def budget_of_def fsub_def planned_def new_planner_def
      clamp_and_name_def org_clamp_def clamp_timeout_def clamp_ceiling_def clamp_priority_def
      clamp_fallback_def passthrough_arbitrate_def passthrough_scale_def fsum_def fmin_def fmax_def
      unless_none_def)

theorem negative_ceiling_skips_after_step_witness:
  "fst (step sample_pipeline sample_kernel (\<lambda>_. []) [] sample_clock sample_clock sample_intent
     (\<lambda>h. run sample_kernel h ()) (sample_os lenient_org\<lparr>os_chain_spent_usd := [(''c1'', Fin 7)]\<rparr>)) = Inl ValueError"
proof -
  obtain h where h: "fst (before_step sample_pipeline sample_clock sample_intent
       (sample_os lenient_org\<lparr>os_chain_spent_usd := [(''c1'', Fin 7)]\<rparr>)) = Inr h"
    "pc_ceiling_usd (sh_policy h) = VFloat (Fin (- 2))"
    using overspent_before_step by blast
  show ?thesis by (subst negative_ceiling_skips_after_step [OF h]) simp_all
qed



end
