(* ===== verification/File_Store.thy ===== *)
theory File_Store
  imports Stores Analyzers
begin

text \<open>
  \<open>FileStore\<close> (\<open>veronica/file_store.py\<close>): one JSONL file per chain with a single rotated generation,
  moving averages and streaks in memory, flushed to a stats file now and then. The data directory
  is a dictionary from file names to lines; a line is a record of the shape \<open>commit\<close> writes (its
  numbers of any JSON type, since the file may have been edited) or text the reader skips, and
  \<open>json.loads\<close> is taken to undo \<open>json.dumps\<close> on such records. Whether a call to the file system
  raises \<open>OSError\<close> is a parameter for the calls that write (append, rotation, the stats file); reading a
  data file that exists is taken to succeed, and a failed append to leave no part of a line behind.
  The store keeps the promise of \<open>store_contract\<close> for the chains
  whose name does not end in \<open>.1\<close>; the active file of such a chain is the rotated file of another.
\<close>

section \<open>Moving averages and statistics\<close>

definition EMA_ALPHA :: pyfloat where "EMA_ALPHA = flit (3 / 10)"
definition EMA_EPS :: pyfloat where "EMA_EPS = flit (1 / 10 ^ 12)"
definition FILE_MAX_CHAINS :: nat where "FILE_MAX_CHAINS = 10000"
definition MAX_MODELS_PER_CHAIN :: nat where "MAX_MODELS_PER_CHAIN = 1000"
definition MAX_HISTORY_LIMIT :: nat where "MAX_HISTORY_LIMIT = 50000"

definition ema :: "pyfloat \<Rightarrow> pyfloat \<Rightarrow> pyfloat" where
  "ema prev current =
     (if flt prev EMA_EPS then current
      else fadd (fmul EMA_ALPHA current) (fmul (fsub (Fin 1) EMA_ALPHA) prev))"

record chain_stats =
  ct_cost_ema :: pyfloat
  ct_cost_by_model :: "(string, pyfloat) pydict"
  ct_latency_by_model :: "(string, pyfloat) pydict"
  ct_success_streak :: nat
  ct_failure_streak :: nat
  ct_total_commits :: nat
  ct_headroom :: pyfloat
  ct_since_rotate :: nat

definition new_chain_stats :: chain_stats where
  "new_chain_stats = \<lparr>ct_cost_ema = Fin 0, ct_cost_by_model = [], ct_latency_by_model = [],
     ct_success_streak = 0, ct_failure_streak = 0, ct_total_commits = 0, ct_headroom = Fin 1,
     ct_since_rotate = 0\<rparr>"

text \<open>
  The object in a stats file: every key may be missing, the floats may have any JSON type, the
  counters are natural numbers and the averages by model objects.
\<close>

record stats_data =
  sd_cost_ema :: "pyval option"
  sd_cost_by_model :: "(string, pyval) pydict option"
  sd_latency_by_model :: "(string, pyval) pydict option"
  sd_success_streak :: "nat option"
  sd_failure_streak :: "nat option"
  sd_total_commits :: "nat option"
  sd_headroom :: "pyval option"
  sd_since_rotate :: "nat option"

definition float_values :: "(string, pyfloat) pydict \<Rightarrow> (string, pyval) pydict" where
  "float_values d = map (\<lambda>(k, v). (k, VFloat v)) d"

definition stats_to_dict :: "chain_stats \<Rightarrow> stats_data" where
  "stats_to_dict st =
     \<lparr>sd_cost_ema = Some (VFloat (ct_cost_ema st)),
      sd_cost_by_model = Some (float_values (ct_cost_by_model st)),
      sd_latency_by_model = Some (float_values (ct_latency_by_model st)),
      sd_success_streak = Some (ct_success_streak st), sd_failure_streak = Some (ct_failure_streak st),
      sd_total_commits = Some (ct_total_commits st), sd_headroom = Some (VFloat (ct_headroom st)),
      sd_since_rotate = Some (ct_since_rotate st)\<rparr>"

definition or_else :: "'a option \<Rightarrow> 'a \<Rightarrow> 'a" where
  "or_else x d = (case x of None \<Rightarrow> d | Some y \<Rightarrow> y)"

definition safe_float :: "pyval \<Rightarrow> pyfloat \<Rightarrow> pyfloat result" where
  "safe_float v d =
     (case to_float v of
        Inl e \<Rightarrow> if e = TypeError \<or> e = ValueError then Inr d else Inl e
      | Inr x \<Rightarrow> Inr (if isfinite x then x else d))"

definition safe_floats :: "(string, pyval) pydict \<Rightarrow> (string, pyfloat) pydict result" where
  "safe_floats d = rmap (\<lambda>(k, v). rbind (safe_float v (Fin 0)) (\<lambda>x. Inr (k, x))) d"

definition stats_from_dict :: "stats_data \<Rightarrow> chain_stats result" where
  "stats_from_dict d =
     rbind (safe_float (or_else (sd_cost_ema d) (VFloat (Fin 0))) (Fin 0)) (\<lambda>cost.
     rbind (safe_floats (or_else (sd_cost_by_model d) [])) (\<lambda>costs.
     rbind (safe_floats (or_else (sd_latency_by_model d) [])) (\<lambda>latencies.
     rbind (safe_float (or_else (sd_headroom d) (VFloat (Fin 1))) (Fin 1)) (\<lambda>headroom.
       Inr \<lparr>ct_cost_ema = cost, ct_cost_by_model = costs, ct_latency_by_model = latencies,
            ct_success_streak = or_else (sd_success_streak d) 0,
            ct_failure_streak = or_else (sd_failure_streak d) 0,
            ct_total_commits = or_else (sd_total_commits d) 0, ct_headroom = headroom,
            ct_since_rotate = or_else (sd_since_rotate d) 0\<rparr>))))"

section \<open>The data directory\<close>

record jsonl_record =
  jr_step_id :: string
  jr_request_id :: string
  jr_chain_id :: string
  jr_kind :: string
  jr_status :: string
  jr_cost_usd :: pyval
  jr_tokens_in :: pyval
  jr_tokens_out :: pyval
  jr_elapsed_ms :: pyval
  jr_model :: "string option"
  jr_timestamp_ms :: pyval
  jr_risk_level :: risk_level
  jr_recommendation :: recommendation

datatype jsonl_line = Unreadable | NotAnObject | Line jsonl_record
  \<comment> \<open>\<open>Unreadable\<close>: blank, not JSON, without an outcome, or with a key of the outcome missing;
    \<open>NotAnObject\<close>: JSON, but a list, a number or a string\<close>

datatype stats_file = CorruptStats | StatsNotAnObject | Stats stats_data

type_synonym jsonl_files = "(string, jsonl_line list) pydict"

definition active_name :: "string \<Rightarrow> string" where "active_name c = c @ ''.jsonl''"
definition rotated_name :: "string \<Rightarrow> string" where "rotated_name c = c @ ''.1.jsonl''"

definition record_of :: "step_outcome \<Rightarrow> analysis_result \<Rightarrow> jsonl_record" where
  "record_of out a =
     \<lparr>jr_step_id = so_step_id out, jr_request_id = so_request_id out, jr_chain_id = so_chain_id out,
      jr_kind = so_kind out, jr_status = so_status out, jr_cost_usd = VFloat (so_cost_usd out),
      jr_tokens_in = VInt (so_tokens_in out), jr_tokens_out = VInt (so_tokens_out out),
      jr_elapsed_ms = VFloat (so_elapsed_ms out), jr_model = so_model out,
      jr_timestamp_ms = VInt (so_timestamp_ms out), jr_risk_level = ar_risk_level a,
      jr_recommendation = ar_recommendation a\<rparr>"

definition read_record :: "jsonl_record \<Rightarrow> step_outcome result" where
  "read_record r =
     rbind (to_float (jr_cost_usd r)) (\<lambda>cost.
     rbind (to_float (jr_elapsed_ms r)) (\<lambda>elapsed.
     rbind (to_float (jr_timestamp_ms r)) (\<lambda>timestamp.
     rbind (to_int (jr_tokens_in r)) (\<lambda>tokens_in.
     rbind (to_int (jr_tokens_out r)) (\<lambda>tokens_out.
     rbind (ftrunc (safe_cost timestamp)) (\<lambda>ms.
       Inr \<lparr>so_step_id = jr_step_id r, so_request_id = jr_request_id r, so_chain_id = jr_chain_id r,
            so_kind = jr_kind r, so_status = jr_status r, so_cost_usd = fmax (Fin 0) (safe_cost cost),
            so_tokens_in = max 0 tokens_in, so_tokens_out = max 0 tokens_out,
            so_elapsed_ms = fmax (Fin 0) (safe_cost elapsed), so_model = jr_model r, so_events = [],
            so_timestamp_ms = ms\<rparr>))))))"

fun read_lines :: "jsonl_line list \<Rightarrow> step_outcome list result" where
  "read_lines [] = Inr []"
| "read_lines (Unreadable # ls) = read_lines ls"
| "read_lines (NotAnObject # ls) = Inl AttributeError" \<comment> \<open>\<open>rec.get\<close>\<close>
| "read_lines (Line r # ls) =
     (case read_record r of
        Inr out \<Rightarrow> rbind (read_lines ls) (\<lambda>outs. Inr (out # outs))
      | Inl e \<Rightarrow> if e = KeyError \<or> e = TypeError \<or> e = ValueError then read_lines ls else Inl e)"

definition read_jsonl :: "jsonl_files \<Rightarrow> string \<Rightarrow> step_outcome list result" where
  "read_jsonl files name = read_lines (dget_default files name [])"

definition load_recent :: "jsonl_files \<Rightarrow> string \<Rightarrow> nat \<Rightarrow> step_outcome list result" where
  "load_recent files c limit =
     rbind (read_jsonl files (active_name c)) (\<lambda>outs.
       if length outs < limit \<and> dget files (rotated_name c) \<noteq> None
       then rbind (read_jsonl files (rotated_name c)) (\<lambda>older. Inr (take_last limit (older @ outs)))
       else Inr (take_last limit outs))"

text \<open>Which calls to the file system succeed.\<close>

record file_io =
  io_append :: bool
  io_unlink :: bool
  io_rename :: bool
  io_flush :: bool

definition rotate_file :: "file_io \<Rightarrow> string \<Rightarrow> jsonl_files \<Rightarrow> bool \<times> jsonl_files" where
  "rotate_file io c files =
     (if dget files (rotated_name c) \<noteq> None \<and> \<not> io_unlink io then (False, files)
      else
        (let files1 = ddel files (rotated_name c) in
         case dget files1 (active_name c) of
           None \<Rightarrow> (True, files1)
         | Some ls \<Rightarrow>
             if \<not> io_rename io then (False, files1)
             else (True, dput (ddel files1 (active_name c)) (rotated_name c) ls)))"

section \<open>The store\<close>

record file_store =
  fs_flush_interval :: nat
  fs_max_lines :: int
  fs_chain_stats :: "(string, chain_stats) pydict"
  fs_budget_ceiling :: "pyfloat option"
  fs_budget_remaining :: "pyfloat option"
  fs_files :: jsonl_files
  fs_stats_files :: "(string, stats_file) pydict"
    \<comment> \<open>\<open>{chain_id}_stats.json\<close>, by the chain\<close>

fun load_existing_stats :: "(string, stats_file) pydict \<Rightarrow> (string, chain_stats) pydict result" where
  "load_existing_stats [] = Inr []"
| "load_existing_stats ((c, f) # fs) =
     (if \<not> chain_id_ok c then load_existing_stats fs
      else case f of
        CorruptStats \<Rightarrow> load_existing_stats fs
      | StatsNotAnObject \<Rightarrow> Inl AttributeError \<comment> \<open>\<open>data.get\<close>, which is not caught\<close>
      | Stats d \<Rightarrow>
          (case stats_from_dict d of
             Inr st \<Rightarrow> rbind (load_existing_stats fs) (\<lambda>m. Inr ((c, st) # m))
           | Inl e \<Rightarrow> if e = KeyError \<or> e = ValueError \<or> e = OSError then load_existing_stats fs else Inl e))"

definition open_file_store ::
  "int \<Rightarrow> int \<Rightarrow> jsonl_files \<Rightarrow> (string, stats_file) pydict \<Rightarrow> file_store result" where
  "open_file_store flush_interval max_lines files stats_files =
     rbind (load_existing_stats stats_files) (\<lambda>m.
       Inr \<lparr>fs_flush_interval = nat (max 1 flush_interval), fs_max_lines = max_lines,
            fs_chain_stats = m, fs_budget_ceiling = None, fs_budget_remaining = None,
            fs_files = files, fs_stats_files = stats_files\<rparr>)"

definition set_budget_context :: "file_store \<Rightarrow> pyfloat \<Rightarrow> pyfloat \<Rightarrow> file_store" where
  "set_budget_context s ceiling_usd remaining_usd =
     s\<lparr>fs_budget_ceiling := Some ceiling_usd, fs_budget_remaining := Some remaining_usd\<rparr>"

definition update_models :: "step_outcome \<Rightarrow> chain_stats \<Rightarrow> chain_stats" where
  "update_models out st =
     (let key = take 128 (model_key (so_model out)) in
      if length (ct_cost_by_model st) < MAX_MODELS_PER_CHAIN \<or> dget (ct_cost_by_model st) key \<noteq> None
      then st\<lparr>ct_cost_by_model := dput (ct_cost_by_model st) key
                (ema (dget_default (ct_cost_by_model st) key (Fin 0)) (safe_cost (so_cost_usd out))),
              ct_latency_by_model := dput (ct_latency_by_model st) key
                (ema (dget_default (ct_latency_by_model st) key (Fin 0)) (safe_cost (so_elapsed_ms out)))\<rparr>
      else st)"

definition update_streaks :: "step_outcome \<Rightarrow> chain_stats \<Rightarrow> chain_stats" where
  "update_streaks out st =
     (if so_status out = ''ok''
      then st\<lparr>ct_success_streak := ct_success_streak st + 1, ct_failure_streak := 0\<rparr>
      else st\<lparr>ct_failure_streak := ct_failure_streak st + 1, ct_success_streak := 0\<rparr>)"

definition update_headroom :: "pyfloat option \<Rightarrow> pyfloat option \<Rightarrow> chain_stats \<Rightarrow> chain_stats" where
  "update_headroom limit remaining st =
     (case (limit, remaining) of
        (Some c, Some r) \<Rightarrow>
          if isfinite r \<and> isfinite c \<and> flt EMA_EPS c then st\<lparr>ct_headroom := fquot r c\<rparr> else st
      | _ \<Rightarrow> st)"

definition update_stats :: "step_outcome \<Rightarrow> pyfloat option \<Rightarrow> pyfloat option \<Rightarrow> chain_stats \<Rightarrow> chain_stats" where
  \<comment> \<open>steps 2 and 3 of \<open>commit\<close>, and the budget context\<close>
  "update_stats out limit remaining st =
     (let st1 = update_models out (st\<lparr>ct_cost_ema := ema (ct_cost_ema st) (safe_cost (so_cost_usd out))\<rparr>);
          st2 = update_streaks out st1 in
      update_headroom limit remaining (st2\<lparr>ct_total_commits := ct_total_commits st2 + 1\<rparr>))"

definition rotation_check :: "file_io \<Rightarrow> int \<Rightarrow> string \<Rightarrow> chain_stats \<Rightarrow> jsonl_files \<Rightarrow> chain_stats \<times> jsonl_files" where
  \<comment> \<open>step 5: a rotation that fails is tried again at the next commit\<close>
  "rotation_check io max_lines c st files =
     (let st1 = st\<lparr>ct_since_rotate := ct_since_rotate st + 1\<rparr> in
      if max_lines \<le> int (ct_since_rotate st1)
      then (let (rotated, files') = rotate_file io c files in
            (if rotated then st1\<lparr>ct_since_rotate := 0\<rparr> else st1, files'))
      else (st1, files))"

definition file_commit ::
  "file_store \<Rightarrow> step_outcome \<Rightarrow> analysis_result \<times> file_io \<Rightarrow> unit result \<times> file_store" where
  "file_commit s out x =
     (let (a, io) = x; c = so_chain_id out in
      case validate_chain_id c of
        Inl e \<Rightarrow> (Inl e, s)
      | Inr _ \<Rightarrow>
          if dget (fs_chain_stats s) c = None \<and> FILE_MAX_CHAINS \<le> length (fs_chain_stats s)
          then (Inl ValueError, s)
          else if \<not> io_append io then (Inl OSError, s)
          else
            (let files = dput (fs_files s) (active_name c)
                   (dget_default (fs_files s) (active_name c) [] @ [Line (record_of out a)]);
                 st = update_stats out (fs_budget_ceiling s) (fs_budget_remaining s)
                   (dget_default (fs_chain_stats s) c new_chain_stats);
                 flush = (ct_total_commits st mod fs_flush_interval s = 0);
                 (st', files') = rotation_check io (fs_max_lines s) c st files in
             (Inr (),
              s\<lparr>fs_files := files', fs_chain_stats := dput (fs_chain_stats s) c st',
                fs_budget_ceiling := None, fs_budget_remaining := None,
                fs_stats_files :=
                  (if flush \<and> io_flush io
                   then dput (fs_stats_files s) c (Stats (stats_to_dict st)) else fs_stats_files s)\<rparr>)))"

definition loop_key :: "step_outcome \<Rightarrow> string \<times> string \<times> string" where
  "loop_key out = (so_kind out,
     (case so_model out of None \<Rightarrow> so_kind out | Some m \<Rightarrow> if m = [] then so_kind out else m), so_status out)"

definition loop_score :: "step_outcome list \<Rightarrow> pyfloat" where
  "loop_score outs =
     (if length outs < 3 then Fin 0
      else (let keys = map loop_key (take_last 10 outs);
                most_common = fold max (map (count_list keys) keys) 0 in
            rnd (of_nat most_common / of_nat (length keys))))"

definition file_history :: "string \<Rightarrow> chain_stats \<Rightarrow> step_outcome list \<Rightarrow> history_view" where
  "file_history c st last_n =
     \<lparr>hv_chain_id = c, hv_last_n = last_n,
      hv_rolling_cost_usd = fsum (map (safe_cost \<circ> so_cost_usd) last_n),
      hv_failure_streak = ct_failure_streak st, hv_depth = length last_n,
      hv_loop_score = loop_score last_n, hv_success_streak = ct_success_streak st,
      hv_cost_per_step_ema = ct_cost_ema st, hv_cost_per_step_ema_by_model = ct_cost_by_model st,
      hv_latency_ema_ms = ct_latency_by_model st, hv_budget_headroom_ratio = ct_headroom st\<rparr>"

definition file_build_history :: "file_store \<Rightarrow> string \<Rightarrow> int \<Rightarrow> history_view result" where
  "file_build_history s c limit =
     rbind (validate_chain_id c) (\<lambda>_.
     rbind (load_recent (fs_files s) c (clamp_limit limit MAX_HISTORY_LIMIT)) (\<lambda>last_n.
       Inr (file_history c (dget_default (fs_chain_stats s) c new_chain_stats) last_n)))"

definition file_close :: "(string \<Rightarrow> bool) \<Rightarrow> file_store \<Rightarrow> file_store" where
  \<comment> \<open>\<open>written c\<close>: the stats file of chain \<open>c\<close> could be written\<close>
  "file_close written s =
     s\<lparr>fs_stats_files := fold (\<lambda>(c, st) fs. if written c then dput fs c (Stats (stats_to_dict st)) else fs)
         (fs_chain_stats s) (fs_stats_files s)\<rparr>"

section \<open>What is read back\<close>

definition file_names :: "string \<Rightarrow> bool" where
  "file_names c \<longleftrightarrow> chain_id_ok c \<and> \<not> suffix ''.1'' c"

definition file_admits :: "step_outcome \<Rightarrow> bool" where
  \<comment> \<open>the timestamp in milliseconds fits a float\<close>
  "file_admits out \<longleftrightarrow> file_names (so_chain_id out) \<and> is_ok (float_of_int (so_timestamp_ms out))"

definition file_norm :: "step_outcome \<Rightarrow> step_outcome" where
  "file_norm out =
     out\<lparr>so_cost_usd := fmax (Fin 0) (safe_cost (so_cost_usd out)),
         so_tokens_in := max 0 (so_tokens_in out), so_tokens_out := max 0 (so_tokens_out out),
         so_elapsed_ms := fmax (Fin 0) (safe_cost (so_elapsed_ms out)), so_events := [],
         so_timestamp_ms := projr (rbind (float_of_int (so_timestamp_ms out)) ftrunc)\<rparr>"

definition readable_line :: "jsonl_line \<Rightarrow> bool" where
  "readable_line l \<longleftrightarrow> (\<exists>r out. l = Line r \<and> read_record r = Inr out)"

fun line_outcomes :: "jsonl_line list \<Rightarrow> step_outcome list" where
  "line_outcomes [] = []"
| "line_outcomes (Unreadable # ls) = line_outcomes ls"
| "line_outcomes (NotAnObject # ls) = line_outcomes ls"
| "line_outcomes (Line r # ls) = projr (read_record r) # line_outcomes ls"

lemma read_back:
  assumes "file_admits out"
  shows "read_record (record_of out a) = Inr (file_norm out)"
proof -
  obtain x where x: "float_of_int (so_timestamp_ms out) = Inr x"
    using assms by (auto simp: file_admits_def is_ok_iff)
  then obtain q where "x = Fin q"
    by (cases "rnd (of_int (so_timestamp_ms out))") (auto simp: float_of_int_def)
  with x show ?thesis
    by (simp add: read_record_def record_of_def file_norm_def safe_cost_def)
qed

lemma read_lines_readable: "list_all readable_line ls \<Longrightarrow> read_lines ls = Inr (line_outcomes ls)"
  by (induction ls rule: line_outcomes.induct) (auto simp: readable_line_def)

lemma length_line_outcomes: "list_all readable_line ls \<Longrightarrow> length (line_outcomes ls) = length ls"
  by (induction ls rule: line_outcomes.induct) (auto simp: readable_line_def)

lemma line_outcomes_snoc [simp]:
  "line_outcomes (ls @ [Line r]) = line_outcomes ls @ [projr (read_record r)]"
  by (induction ls rule: line_outcomes.induct) auto

section \<open>Files of a chain\<close>

abbreviation active_lines :: "jsonl_files \<Rightarrow> string \<Rightarrow> jsonl_line list" where
  "active_lines files c \<equiv> dget_default files (active_name c) []"

abbreviation rotated_lines :: "jsonl_files \<Rightarrow> string \<Rightarrow> jsonl_line list" where
  "rotated_lines files c \<equiv> dget_default files (rotated_name c) []"

lemma own_names [simp]: "active_name c \<noteq> rotated_name c" "rotated_name c \<noteq> active_name c"
  by (auto simp: active_name_def rotated_name_def)

lemma active_name_inj [simp]: "active_name c = active_name d \<longleftrightarrow> c = d"
  by (simp add: active_name_def)

lemma rotated_name_inj [simp]: "rotated_name c = rotated_name d \<longleftrightarrow> c = d"
  by (simp add: rotated_name_def)

lemma rotated_is_active: "rotated_name c = active_name d \<longleftrightarrow> d = c @ ''.1''"
proof -
  have "rotated_name c = (c @ ''.1'') @ ''.jsonl''" by (simp add: rotated_name_def)
  then show ?thesis by (auto simp: active_name_def)
qed

lemma names_not_rotated: "file_names d \<Longrightarrow> rotated_name c \<noteq> active_name d \<and> active_name d \<noteq> rotated_name c"
  by (metis file_names_def rotated_is_active suffixI)

text \<open>A rotation, and the check that calls it, in terms of the lines of the chain's two files.\<close>

lemma rotate_file_effect:
  assumes "rotate_file io c files = (ok, files')"
  shows "(\<forall>n. n \<noteq> active_name c \<longrightarrow> n \<noteq> rotated_name c \<longrightarrow> dget files' n = dget files n) \<and>
    (if ok then active_lines files' c = [] \<and> rotated_lines files' c = active_lines files c
     else active_lines files' c = active_lines files c \<and>
       rotated_lines files' c \<in> {rotated_lines files c, []})"
  using assms by (auto simp: rotate_file_def Let_def split: if_splits option.splits)

lemma rotation_check_effect:
  assumes "rotation_check io m c st files = (st', files')"
  shows "(\<forall>n. n \<noteq> active_name c \<longrightarrow> n \<noteq> rotated_name c \<longrightarrow> dget files' n = dget files n) \<and>
    (st' = st\<lparr>ct_since_rotate := ct_since_rotate st + 1\<rparr> \<and> active_lines files' c = active_lines files c \<and>
       (rotated_lines files' c = rotated_lines files c \<or>
        m \<le> int (ct_since_rotate st + 1) \<and> rotated_lines files' c = []) \<or>
     st' = st\<lparr>ct_since_rotate := 0\<rparr> \<and> m \<le> int (ct_since_rotate st + 1) \<and>
       active_lines files' c = [] \<and> rotated_lines files' c = active_lines files c)"
proof (cases "m \<le> int (ct_since_rotate st + 1)")
  case True
  obtain ok files1 where r: "rotate_file io c files = (ok, files1)" by (cases "rotate_file io c files")
  then have "files' = files1"
    "st' = (if ok then st\<lparr>ct_since_rotate := 0\<rparr> else st\<lparr>ct_since_rotate := ct_since_rotate st + 1\<rparr>)"
    using assms True by (auto simp: rotation_check_def Let_def)
  with True rotate_file_effect [OF r] show ?thesis by (cases ok) auto
next
  case False
  then show ?thesis using assms by (simp add: rotation_check_def Let_def)
qed

lemma rotation_check_readable:
  assumes "rotation_check io m c st files = (st', files')" "dget files' n = Some ls"
  shows "ls = [] \<or> (\<exists>n. dget files n = Some ls)"
  using assms by (auto simp: rotation_check_def rotate_file_def Let_def split: if_splits option.splits)

section \<open>The store's promise\<close>

abbreviation stats_of :: "file_store \<Rightarrow> string \<Rightarrow> chain_stats" where
  "stats_of s c \<equiv> dget_default (fs_chain_stats s) c new_chain_stats"

definition file_inv :: "int \<Rightarrow> file_store \<Rightarrow> bool" where
  "file_inv m s \<longleftrightarrow> fs_max_lines s = m \<and>
     (\<forall>n ls. dget (fs_files s) n = Some ls \<longrightarrow> list_all readable_line ls) \<and>
     (\<forall>c. file_names c \<longrightarrow>
        ct_since_rotate (dget_default (fs_chain_stats s) c new_chain_stats) = length (active_lines (fs_files s) c))"

lemma file_inv_readable:
  "file_inv m s \<Longrightarrow> list_all readable_line (dget_default (fs_files s) n [])"
  by (auto simp: file_inv_def split: option.splits)

lemma load_recent_view:
  assumes "file_inv m s"
  shows "load_recent (fs_files s) c k =
    Inr (take_last k (line_outcomes (rotated_lines (fs_files s) c) @ line_outcomes (active_lines (fs_files s) c)))"
proof -
  have "read_jsonl (fs_files s) n = Inr (line_outcomes (dget_default (fs_files s) n []))" for n
    unfolding read_jsonl_def by (rule read_lines_readable [OF file_inv_readable [OF assms]])
  moreover have "take_last k (xs @ ys) = take_last k ys" if "k \<le> length ys" for xs ys :: "step_outcome list"
    using that by (simp add: take_last_def)
  ultimately show ?thesis
    by (auto simp: load_recent_def not_less)
qed

lemma file_build_view:
  assumes "file_inv m s" "chain_id_ok c"
  shows "file_build_history s c l = Inr (file_history c (dget_default (fs_chain_stats s) c new_chain_stats)
    (take_last (clamp_limit l MAX_HISTORY_LIMIT)
      (line_outcomes (rotated_lines (fs_files s) c) @ line_outcomes (active_lines (fs_files s) c))))"
  using assms by (simp add: file_build_history_def validate_chain_id_def load_recent_view)

text \<open>A commit that is accepted, in terms of the lines and the statistics of the chain.\<close>

lemma since_rotate_update [simp]: "ct_since_rotate (update_stats out l r st) = ct_since_rotate st"
  by (simp add: update_stats_def update_models_def update_streaks_def update_headroom_def Let_def
      split: option.splits)

lemma file_commit_effect:
  assumes "fst (file_commit s out (a, io)) = Inr ()"
  obtains st' files' where
    "rotation_check io (fs_max_lines s) (so_chain_id out)
       (update_stats out (fs_budget_ceiling s) (fs_budget_remaining s)
          (dget_default (fs_chain_stats s) (so_chain_id out) new_chain_stats))
       (dput (fs_files s) (active_name (so_chain_id out))
          (active_lines (fs_files s) (so_chain_id out) @ [Line (record_of out a)])) = (st', files')"
    and "fs_files (snd (file_commit s out (a, io))) = files'"
    and "fs_chain_stats (snd (file_commit s out (a, io))) = dput (fs_chain_stats s) (so_chain_id out) st'"
    and "fs_max_lines (snd (file_commit s out (a, io))) = fs_max_lines s"
    and "chain_id_ok (so_chain_id out)"
proof -
  obtain st' files' where r: "rotation_check io (fs_max_lines s) (so_chain_id out)
       (update_stats out (fs_budget_ceiling s) (fs_budget_remaining s)
          (dget_default (fs_chain_stats s) (so_chain_id out) new_chain_stats))
       (dput (fs_files s) (active_name (so_chain_id out))
          (active_lines (fs_files s) (so_chain_id out) @ [Line (record_of out a)])) = (st', files')"
    by fastforce
  show ?thesis
    using assms by (intro that [OF r])
      (auto simp: file_commit_def validate_chain_id_def r [unfolded dget_default.simps] Let_def split: if_splits)
qed

lemma file_commit_fail: "fst (file_commit s out x) = Inl e \<Longrightarrow> snd (file_commit s out x) = s"
  by (auto simp: file_commit_def Let_def split: sum.splits if_splits prod.splits)

lemma file_commit_lines:
  assumes "file_inv m s" "file_admits out" "fst (file_commit s out (a, io)) = Inr ()"
  defines "c \<equiv> so_chain_id out" and "s' \<equiv> snd (file_commit s out (a, io))"
  shows "(\<forall>d. file_names d \<longrightarrow> d \<noteq> c \<longrightarrow>
      active_lines (fs_files s') d = active_lines (fs_files s) d \<and>
      rotated_lines (fs_files s') d = rotated_lines (fs_files s) d \<and>
      dget (fs_chain_stats s') d = dget (fs_chain_stats s) d) \<and>
    ct_since_rotate (dget_default (fs_chain_stats s') c new_chain_stats) = length (active_lines (fs_files s') c) \<and>
    (let new = active_lines (fs_files s) c @ [Line (record_of out a)];
         R = rotated_lines (fs_files s') c; A = active_lines (fs_files s') c in
      A = new \<and> R = rotated_lines (fs_files s) c \<or>
      m \<le> int (length new) \<and> R @ A = new \<and> (R = [] \<or> A = []))"
proof -
  have c: "file_names c" and m: "fs_max_lines s = m"
    using assms(1,2) by (simp_all add: file_admits_def c_def file_inv_def)
  have since: "ct_since_rotate (dget_default (fs_chain_stats s) c new_chain_stats) = length (active_lines (fs_files s) c)"
    using assms(1) c by (simp add: file_inv_def)
  obtain st' files' where r: "rotation_check io m c
       (update_stats out (fs_budget_ceiling s) (fs_budget_remaining s)
          (dget_default (fs_chain_stats s) c new_chain_stats))
       (dput (fs_files s) (active_name c) (active_lines (fs_files s) c @ [Line (record_of out a)])) = (st', files')"
    and s': "fs_files s' = files'" "fs_chain_stats s' = dput (fs_chain_stats s) c st'"
    using file_commit_effect [OF assms(3)] unfolding c_def s'_def m by metis
  have other: "active_lines files' d = active_lines (fs_files s) d \<and>
      rotated_lines files' d = rotated_lines (fs_files s) d"
    if "file_names d" "d \<noteq> c" for d
    using rotation_check_effect [OF r] that names_not_rotated [OF c] names_not_rotated [OF that(1)] by simp
  show ?thesis
    using rotation_check_effect [OF r] since other
    unfolding s' by (auto simp: Let_def simp del: dget_default.simps) simp_all
qed

lemma file_commit_readable:
  assumes "file_inv m s" "file_admits out" "fst (file_commit s out (a, io)) = Inr ()"
    and "dget (fs_files (snd (file_commit s out (a, io)))) n = Some ls"
  shows "list_all readable_line ls"
proof -
  have new: "readable_line (Line (record_of out a))"
    using read_back [OF assms(2)] by (simp add: readable_line_def)
  from file_commit_effect [OF assms(3)] rotation_check_readable assms(4)
  consider "ls = []" | n where "dget (dput (fs_files s) (active_name (so_chain_id out))
          (active_lines (fs_files s) (so_chain_id out) @ [Line (record_of out a)])) n = Some ls"
    by metis
  then show ?thesis
    using new file_inv_readable [OF assms(1), of "active_name (so_chain_id out)"] assms(1)
    by cases (auto simp: file_inv_def split: if_splits)
qed

lemma file_commit_inv:
  assumes "file_inv m s" "file_admits out"
  shows "file_inv m (snd (file_commit s out x))"
proof (cases "fst (file_commit s out x)")
  case (Inl e)
  then show ?thesis using assms(1) by (simp add: file_commit_fail)
next
  case (Inr u)
  obtain a io where x: "x = (a, io)" by (cases x)
  have ok: "fst (file_commit s out (a, io)) = Inr ()" using Inr x by simp
  show ?thesis
    unfolding x file_inv_def
  proof (intro conjI allI impI)
    show "fs_max_lines (snd (file_commit s out (a, io))) = m"
      using file_commit_effect [OF ok] assms(1) by (metis file_inv_def)
    show "list_all readable_line ls"
      if "dget (fs_files (snd (file_commit s out (a, io)))) n = Some ls" for n ls
      using file_commit_readable [OF assms ok that] .
    show "ct_since_rotate (dget_default (fs_chain_stats (snd (file_commit s out (a, io)))) d new_chain_stats) =
        length (active_lines (fs_files (snd (file_commit s out (a, io)))) d)" if "file_names d" for d
      using file_commit_lines [OF assms ok] assms(1) that
      by (cases "d = so_chain_id out") (auto simp: file_inv_def)
  qed
qed

lemma take_last_recent:
  "k \<le> length ys \<Longrightarrow> take_last k (xs @ ys) = take_last k ys"
  by (simp add: take_last_def)

lemma file_commit_view:
  assumes "file_inv m s" "file_admits out" "fst (file_commit s out x) = Inr ()"
    and "int (clamp_limit l MAX_HISTORY_LIMIT) \<le> m"
    and "file_build_history s (so_chain_id out) l = Inr h"
  shows "\<exists>h'. file_build_history (snd (file_commit s out x)) (so_chain_id out) l = Inr h' \<and>
    hv_last_n h' = take_last (clamp_limit l MAX_HISTORY_LIMIT) (hv_last_n h @ [file_norm out])"
proof -
  obtain a io where x: "x = (a, io)" by (cases x)
  let ?c = "so_chain_id out" and ?k = "clamp_limit l MAX_HISTORY_LIMIT"
    and ?s = "snd (file_commit s out (a, io))"
  have ok: "fst (file_commit s out (a, io)) = Inr ()" using assms(3) x by simp
  have c: "chain_id_ok ?c" using assms(2) by (simp add: file_admits_def file_names_def)
  let ?R = "line_outcomes (rotated_lines (fs_files s) ?c)" and ?A = "line_outcomes (active_lines (fs_files s) ?c)"
  let ?R' = "line_outcomes (rotated_lines (fs_files ?s) ?c)" and ?A' = "line_outcomes (active_lines (fs_files ?s) ?c)"
  have norm: "projr (read_record (record_of out a)) = file_norm out"
    by (simp add: read_back [OF assms(2)])
  have len: "length ?A = length (active_lines (fs_files s) ?c)"
    by (rule length_line_outcomes [OF file_inv_readable [OF assms(1)]])
  have new: "take_last ?k (?R' @ ?A') = take_last ?k ((?R @ ?A) @ [file_norm out])"
    using file_commit_lines [OF assms(1,2) ok] assms(4) len norm
      take_last_recent [of ?k "?A @ [file_norm out]" ?R]
    by (auto simp: Let_def simp del: dget_default.simps)
  have "hv_last_n h = take_last ?k (?R @ ?A)"
    using assms(5) file_build_view [OF assms(1) c] by (auto simp: file_history_def)
  then show ?thesis
    using new file_build_view [OF file_commit_inv [OF assms(1,2)] c, of x l]
    by (simp add: x file_history_def take_last_append_take_last)
qed

lemma file_commit_other:
  assumes "file_inv m s" "file_admits out" "file_names c" "c \<noteq> so_chain_id out"
  shows "file_build_history (snd (file_commit s out x)) c l = file_build_history s c l"
proof (cases "fst (file_commit s out x)")
  case (Inl e)
  then show ?thesis by (simp add: file_commit_fail)
next
  case (Inr u)
  obtain a io where x: "x = (a, io)" by (cases x)
  have ok: "fst (file_commit s out (a, io)) = Inr ()" using Inr x by simp
  have c: "chain_id_ok c" using assms(3) by (simp add: file_names_def)
  show ?thesis
    using file_commit_lines [OF assms(1,2) ok] assms(3,4)
    unfolding x file_build_view [OF assms(1) c] file_build_view [OF file_commit_inv [OF assms(1,2)] c]
    by simp
qed

interpretation jsonl: store_contract file_commit file_build_history "file_inv m"
    "\<lambda>out out'. out' = file_norm out" file_admits file_names "\<lambda>l. clamp_limit l MAX_HISTORY_LIMIT"
    "\<lambda>l. int (clamp_limit l MAX_HISTORY_LIMIT) \<le> m"
proof (unfold_locales, goal_cases)
  case (1 s out x)
  then show ?case by (rule file_commit_inv)
next
  case (2 s out x e c l)
  then show ?case by (simp add: file_commit_fail)
next
  case (3 s out x l h)
  from file_commit_view [OF this] show ?case by blast
next
  case (4 s out c l x)
  then show ?case by (intro file_commit_other)
next
  case (5 s c l)
  then show ?case by (simp add: file_names_def file_build_view file_history_def)
next
  case (6 out)
  then show ?case by (simp add: file_admits_def)
qed

section \<open>Rotation and the chain named after it\<close>

lemma rotate_file_ok:
  "io_unlink io \<Longrightarrow> io_rename io \<Longrightarrow> fst (rotate_file io c files) \<and>
     active_lines (snd (rotate_file io c files)) c = [] \<and>
     rotated_lines (snd (rotate_file io c files)) c = active_lines files c"
  by (auto simp: rotate_file_def Let_def split: option.splits)

lemma rotation_takes_sibling:
  assumes "file_inv m s" "file_admits out" "fst (file_commit s out (a, io)) = Inr ()"
    and "io_unlink io" "io_rename io" "m \<le> int (length (active_lines (fs_files s) (so_chain_id out)) + 1)"
  shows "active_lines (fs_files (snd (file_commit s out (a, io)))) (so_chain_id out @ ''.1'') =
    active_lines (fs_files s) (so_chain_id out) @ [Line (record_of out a)]"
proof -
  let ?c = "so_chain_id out"
  have c: "file_names ?c" and m: "fs_max_lines s = m"
    using assms(1,2) by (simp_all add: file_admits_def file_inv_def)
  have since: "ct_since_rotate (stats_of s ?c) = length (active_lines (fs_files s) ?c)"
    using assms(1) c by (simp add: file_inv_def)
  let ?files = "dput (fs_files s) (active_name ?c) (active_lines (fs_files s) ?c @ [Line (record_of out a)])"
  obtain st' files' where r: "rotation_check io m ?c
         (update_stats out (fs_budget_ceiling s) (fs_budget_remaining s) (stats_of s ?c)) ?files = (st', files')"
    and s': "fs_files (snd (file_commit s out (a, io))) = files'"
    using file_commit_effect [OF assms(3)] unfolding m by metis
  have "files' = snd (rotate_file io ?c ?files)"
    using r assms(6) since by (auto simp: rotation_check_def Let_def case_prod_beta)
  then have "rotated_lines files' ?c = active_lines ?files ?c"
    using rotate_file_ok [OF assms(4,5)] by simp
  moreover have "rotated_name ?c = active_name (?c @ ''.1'')"
    by (simp add: rotated_is_active)
  ultimately show ?thesis by (simp add: s')
qed

text \<open>
  When every call to the file system succeeds no file of a chain grows beyond the limit, so a
  chain keeps at most twice as many outcomes on disk.
\<close>

definition files_bounded :: "int \<Rightarrow> jsonl_files \<Rightarrow> string \<Rightarrow> bool" where
  "files_bounded m files c \<longleftrightarrow> int (length (active_lines files c)) < m \<and> int (length (rotated_lines files c)) \<le> m"

lemma rotation_check_bounded:
  assumes "rotation_check io m c st files = (st', files')" "io_unlink io" "io_rename io"
    and "int (length (active_lines files c)) \<le> m" "int (length (rotated_lines files c)) \<le> m" "0 < m"
    and "length (active_lines files c) = ct_since_rotate st + 1"
  shows "files_bounded m files' c"
  using assms rotate_file_ok [OF assms(2,3), of c files]
  by (auto simp: rotation_check_def files_bounded_def Let_def case_prod_beta split: if_splits)

lemma file_commit_bounded:
  assumes "file_inv m s" "file_admits out" "0 < m" "file_names c"
    and "io_unlink io" "io_rename io" "files_bounded m (fs_files s) c"
  shows "files_bounded m (fs_files (snd (file_commit s out (a, io)))) c"
proof (cases "fst (file_commit s out (a, io))")
  case (Inl e)
  then show ?thesis using assms(7) by (simp add: file_commit_fail)
next
  case (Inr u)
  then have ok: "fst (file_commit s out (a, io)) = Inr ()" by simp
  show ?thesis
  proof (cases "c = so_chain_id out")
    case False
    then show ?thesis
      using file_commit_lines [OF assms(1,2) ok] assms(4,7) by (simp add: files_bounded_def)
  next
    case True
    have m: "fs_max_lines s = m"
      and since: "ct_since_rotate (stats_of s c) = length (active_lines (fs_files s) c)"
      using assms(1,4) by (simp_all add: file_inv_def)
    obtain st' files' where r: "rotation_check io m c
         (update_stats out (fs_budget_ceiling s) (fs_budget_remaining s) (stats_of s c))
         (dput (fs_files s) (active_name c) (active_lines (fs_files s) c @ [Line (record_of out a)])) = (st', files')"
      and s': "fs_files (snd (file_commit s out (a, io))) = files'"
      using file_commit_effect [OF ok] unfolding m True by metis
    show ?thesis
      unfolding s' using assms(3,7) since
      by (intro rotation_check_bounded [OF r assms(5,6)]) (auto simp: files_bounded_def)
  qed
qed

end
