(* ===== verification/File_Statistics.thy ===== *)
theory File_Statistics
  imports File_Store
begin

text \<open>
  What the statistics of \<open>FileStore\<close> mean: they are those of every outcome a chain was ever
  committed, not only of the outcomes still on disk; they survive closing and opening the store;
  and the loop score crosses the threshold of \<open>HistoryAnalyzer\<close> exactly when one kind of step makes
  up seven tenths of the last ten.
\<close>

section \<open>The statistics are those of the whole chain\<close>

definition stats_key :: "step_outcome \<Rightarrow> string" where
  "stats_key out = take 128 (model_key (so_model out))"

definition cost_average :: "step_outcome list \<Rightarrow> pyfloat" where
  "cost_average outs = foldl ema (Fin 0) (map (safe_cost \<circ> so_cost_usd) outs)"

definition models_exact :: "(string, pyfloat) pydict \<Rightarrow> step_outcome list \<Rightarrow> bool" where
  "models_exact m outs \<longleftrightarrow> wf_dict m \<and> fst ` set m = stats_key ` set outs \<and>
     (\<forall>k \<in> stats_key ` set outs. dget m k = Some (cost_average (filter (\<lambda>out. stats_key out = k) outs)))"

definition stats_exact :: "chain_stats \<Rightarrow> step_outcome list \<Rightarrow> bool" where
  "stats_exact st outs \<longleftrightarrow>
     ct_total_commits st = length outs \<and> ct_failure_streak st = trailing failed_outcome outs \<and>
     ct_success_streak st = trailing (Not \<circ> failed_outcome) outs \<and> ct_cost_ema st = cost_average outs \<and>
     (card (stats_key ` set outs) \<le> MAX_MODELS_PER_CHAIN \<longrightarrow> models_exact (ct_cost_by_model st) outs)"

lemma cost_average_snoc [simp]:
  "cost_average (outs @ [out]) = ema (cost_average outs) (safe_cost (so_cost_usd out))"
  "cost_average [] = Fin 0"
  by (simp_all add: cost_average_def)

lemma stats_exact_new: "stats_exact new_chain_stats []"
  by (simp add: stats_exact_def new_chain_stats_def models_exact_def)

lemma wf_dict_length: "wf_dict m \<Longrightarrow> length m = card (fst ` set m)"
  by (metis distinct_card length_map list.set_map wf_dict_def)

lemma models_exact_update:
  assumes "models_exact (ct_cost_by_model st) outs" "card (stats_key ` set (outs @ [out])) \<le> MAX_MODELS_PER_CHAIN"
  shows "models_exact (ct_cost_by_model (update_models out st)) (outs @ [out])"
proof -
  let ?m = "ct_cost_by_model st" and ?k = "stats_key out"
  have keys: "fst ` set ?m = stats_key ` set outs" "wf_dict ?m"
    and vals: "\<And>k. k \<in> stats_key ` set outs \<Longrightarrow>
      dget ?m k = Some (cost_average (filter (\<lambda>out. stats_key out = k) outs))"
    using assms(1) by (auto simp: models_exact_def)
  have "card (stats_key ` set outs) < MAX_MODELS_PER_CHAIN" if "?k \<notin> stats_key ` set outs"
    using assms(2) that by simp
  then have room: "length ?m < MAX_MODELS_PER_CHAIN \<or> dget ?m ?k \<noteq> None"
    using keys by (auto simp: wf_dict_length map_of_eq_None_iff)
  have prev: "dget_default ?m ?k (Fin 0) = cost_average (filter (\<lambda>o'. stats_key o' = ?k) outs)"
  proof (cases "?k \<in> stats_key ` set outs")
    case False
    then have "filter (\<lambda>o'. stats_key o' = ?k) outs = []"
      by (metis (mono_tags, lifting) filter_False image_eqI)
    moreover have "dget ?m ?k = None"
      using False keys by (simp add: map_of_eq_None_iff)
    ultimately show ?thesis by simp
  qed (simp add: vals)
  have upd: "ct_cost_by_model (update_models out st) =
      dput ?m ?k (ema (dget_default ?m ?k (Fin 0)) (safe_cost (so_cost_usd out)))"
    using room by (simp add: update_models_def stats_key_def Let_def)
  show ?thesis
    unfolding models_exact_def upd prev using keys vals
    by (auto simp: keys_dput)
qed

lemma stats_exact_update:
  assumes "stats_exact st outs"
  shows "stats_exact (update_stats out l r st) (outs @ [out])"
proof -
  let ?st = "update_stats out l r st"
  have models: "ct_cost_by_model ?st =
      ct_cost_by_model (update_models out (st\<lparr>ct_cost_ema := ema (ct_cost_ema st) (safe_cost (so_cost_usd out))\<rparr>))"
    by (simp add: update_stats_def update_streaks_def update_headroom_def Let_def split: option.splits)
  have "card (stats_key ` set outs) \<le> card (stats_key ` set (outs @ [out]))"
    by (rule card_mono) auto
  then have "models_exact (ct_cost_by_model ?st) (outs @ [out])"
    if "card (stats_key ` set (outs @ [out])) \<le> MAX_MODELS_PER_CHAIN"
    unfolding models using assms that by (intro models_exact_update) (auto simp: stats_exact_def)
  moreover have "ct_total_commits ?st = ct_total_commits st + 1"
    "ct_cost_ema ?st = ema (ct_cost_ema st) (safe_cost (so_cost_usd out))"
    "ct_failure_streak ?st = (if so_status out = ''ok'' then 0 else ct_failure_streak st + 1)"
    "ct_success_streak ?st = (if so_status out = ''ok'' then ct_success_streak st + 1 else 0)"
    by (auto simp: update_stats_def update_models_def update_streaks_def update_headroom_def Let_def
        split: option.splits)
  ultimately show ?thesis
    using assms by (auto simp: stats_exact_def failed_outcome_def)
qed

lemma stats_exact_since [simp]: "stats_exact (st\<lparr>ct_since_rotate := n\<rparr>) outs = stats_exact st outs"
  by (simp add: stats_exact_def)

lemma file_run_stats:
  assumes "\<forall>c. stats_exact (stats_of s c) (before c)"
  shows "stats_exact (stats_of (snd (commit_all file_commit s xs)) c)
    (before c @ filter (\<lambda>out. so_chain_id out = c) (fst (commit_all file_commit s xs)))"
  using assms
proof (induction xs arbitrary: s before)
  case Nil
  then show ?case by simp
next
  case (Cons y xs)
  obtain out a io where y: "y = (out, a, io)" by (cases y)
  let ?s = "snd (file_commit s out (a, io))" and ?c = "so_chain_id out"
  show ?case
  proof (cases "fst (file_commit s out (a, io))")
    case (Inl e)
    then show ?thesis
      using Cons.IH [OF Cons.prems] file_commit_fail [OF Inl]
      by (simp add: y case_prod_beta Let_def)
  next
    case (Inr u)
    then have ok: "fst (file_commit s out (a, io)) = Inr ()" by simp
    obtain st' files' where r: "rotation_check io (fs_max_lines s) ?c
         (update_stats out (fs_budget_ceiling s) (fs_budget_remaining s) (stats_of s ?c))
         (dput (fs_files s) (active_name ?c) (active_lines (fs_files s) ?c @ [Line (record_of out a)])) = (st', files')"
      and s': "fs_chain_stats ?s = dput (fs_chain_stats s) ?c st'"
      using file_commit_effect [OF ok] by metis
    have "stats_exact st' (before ?c @ [out])"
      using rotation_check_effect [OF r] stats_exact_update Cons.prems by (metis stats_exact_since)
    then have "\<forall>d. stats_exact (stats_of ?s d) ((before(?c := before ?c @ [out])) d)"
      using Cons.prems by (simp add: s')
    from Cons.IH [OF this] show ?thesis
      using ok by (cases "?c = c") (auto simp: y case_prod_beta Let_def)
  qed
qed

section \<open>Closing and opening again\<close>

definition finite_stats :: "chain_stats \<Rightarrow> bool" where
  "finite_stats st \<longleftrightarrow> isfinite (ct_cost_ema st) \<and> isfinite (ct_headroom st) \<and>
     list_all (isfinite \<circ> snd) (ct_cost_by_model st) \<and> list_all (isfinite \<circ> snd) (ct_latency_by_model st)"

lemma safe_floats_values: "list_all (isfinite \<circ> snd) d \<Longrightarrow> safe_floats (float_values d) = Inr d"
  by (induction d) (auto simp: safe_floats_def float_values_def safe_float_def)

lemma stats_dict_roundtrip: "finite_stats st \<Longrightarrow> stats_from_dict (stats_to_dict st) = Inr st"
  by (simp add: stats_from_dict_def stats_to_dict_def finite_stats_def or_else_def safe_floats_values)
    (simp add: safe_float_def)

definition skipped_error :: "py_error \<Rightarrow> bool" where
  "skipped_error e \<longleftrightarrow> e = KeyError \<or> e = ValueError \<or> e = OSError"

definition loads :: "stats_file \<Rightarrow> chain_stats option" where
  "loads f = (case f of CorruptStats \<Rightarrow> None | StatsNotAnObject \<Rightarrow> None
     | Stats d \<Rightarrow> (case stats_from_dict d of Inr st \<Rightarrow> Some st | Inl _ \<Rightarrow> None))"

definition loadable :: "stats_file \<Rightarrow> bool" where
  "loadable f \<longleftrightarrow> (case f of CorruptStats \<Rightarrow> True | StatsNotAnObject \<Rightarrow> False
     | Stats d \<Rightarrow> (case stats_from_dict d of Inr _ \<Rightarrow> True | Inl e \<Rightarrow> skipped_error e))"

lemma load_existing_stats_ok:
  assumes "wf_dict fs" "\<forall>c f. dget fs c = Some f \<longrightarrow> chain_id_ok c \<longrightarrow> loadable f"
  shows "\<exists>m. load_existing_stats fs = Inr m \<and>
    (\<forall>c. dget m c = (if chain_id_ok c then Option.bind (dget fs c) loads else None))"
  using assms
proof (induction fs)
  case (Cons x fs)
  obtain c f where x: "x = (c, f)" by (cases x)
  have wf: "wf_dict fs" and fresh: "dget fs c = None"
    using Cons.prems(1) x by (auto simp: wf_dict_def map_of_eq_None_iff)
  have rest: "loadable g" if "dget fs d = Some g" "chain_id_ok d" for d g
    using Cons.prems(2) [rule_format, of d g] that fresh x by (cases "d = c") auto
  with Cons.IH wf obtain m where
    m: "load_existing_stats fs = Inr m"
      "\<forall>c. dget m c = (if chain_id_ok c then Option.bind (dget fs c) loads else None)"
    by blast
  have own: "chain_id_ok c \<Longrightarrow> loadable f" using Cons.prems(2) [rule_format, of c f] x by simp
  show ?case
  proof (cases "chain_id_ok c")
    case False
    then show ?thesis using m x by auto
  next
    case True
    show ?thesis
    proof (cases f)
      case CorruptStats
      then show ?thesis using m True fresh x by (auto simp: loads_def)
    next
      case StatsNotAnObject
      then show ?thesis using own True by (simp add: loadable_def)
    next
      case (Stats d)
      then show ?thesis
        using m True fresh own x
        by (cases "stats_from_dict d") (auto simp: loads_def loadable_def skipped_error_def)
    qed
  qed
qed simp

text \<open>The stats files and the statistics in memory, at every moment between opening and closing.\<close>

definition stats_inv :: "file_store \<Rightarrow> bool" where
  "stats_inv s \<longleftrightarrow> wf_dict (fs_stats_files s) \<and> wf_dict (fs_chain_stats s) \<and>
     (\<forall>c st. dget (fs_chain_stats s) c = Some st \<longrightarrow> chain_id_ok c) \<and>
     (\<forall>c f. dget (fs_stats_files s) c = Some f \<longrightarrow> chain_id_ok c \<longrightarrow> dget (fs_chain_stats s) c = None \<longrightarrow>
        loadable f \<and> loads f = None)"

lemma stats_inv_commit:
  assumes "stats_inv s"
  shows "stats_inv (snd (file_commit s out x))"
proof (cases "fst (file_commit s out x)")
  case (Inl e)
  then show ?thesis using assms by (simp add: file_commit_fail)
next
  case (Inr u)
  obtain a io where x: "x = (a, io)" by (cases x)
  have ok: "fst (file_commit s out (a, io)) = Inr ()" using Inr x by simp
  obtain st where st: "fs_chain_stats (snd (file_commit s out (a, io))) =
      dput (fs_chain_stats s) (so_chain_id out) st" and c: "chain_id_ok (so_chain_id out)"
    using file_commit_effect [OF ok] by metis
  have "\<exists>d. fs_stats_files (snd (file_commit s out (a, io))) \<in>
      {fs_stats_files s, dput (fs_stats_files s) (so_chain_id out) (Stats d)}"
    using ok by (auto simp: file_commit_def Let_def split: sum.splits if_splits prod.splits)
  then show ?thesis
    using assms c unfolding x stats_inv_def st by (auto split: if_splits)
qed

lemma stats_inv_run: "stats_inv s \<Longrightarrow> stats_inv (snd (commit_all file_commit s xs))"
proof (induction xs arbitrary: s)
  case (Cons y xs)
  obtain out x where "y = (out, x)" by (cases y)
  then show ?case
    using Cons.IH [OF stats_inv_commit [OF Cons.prems, of out x]]
    by (simp add: case_prod_beta Let_def)
qed simp

lemma load_existing_stats_fail:
  assumes "load_existing_stats fs = Inr m" "(c, f) \<in> set fs" "chain_id_ok c"
  shows "loadable f"
  using assms
proof (induction fs arbitrary: m rule: load_existing_stats.induct)
  case (2 c' f' fs)
  show ?case
  proof (cases "(c, f) = (c', f')")
    case True
    then show ?thesis
      using "2.prems" by (auto simp: loadable_def skipped_error_def rbind_Inr_iff
          split: stats_file.splits sum.splits if_splits)
  next
    case False
    then have "(c, f) \<in> set fs" using "2.prems"(2) by auto
    then show ?thesis
      using "2.IH" "2.prems"(1,3)
      by (auto simp: rbind_Inr_iff split: stats_file.splits sum.splits if_splits)
  qed
qed simp

lemma load_existing_stats_cons:
  assumes "load_existing_stats ((c, f) # fs) = Inr m"
  obtains m' where "load_existing_stats fs = Inr m'" "m = m' \<or> (\<exists>st. m = (c, st) # m')"
  using assms by (auto simp: rbind_Inr_iff split: stats_file.splits sum.splits if_splits)

lemma load_existing_stats_wf:
  "load_existing_stats fs = Inr m \<Longrightarrow> wf_dict fs \<Longrightarrow> wf_dict m \<and> fst ` set m \<subseteq> fst ` set fs"
proof (induction fs arbitrary: m)
  case (Cons x fs)
  obtain c f where x: "x = (c, f)" by (cases x)
  from Cons.prems(1) [unfolded x] obtain m' where
    m': "load_existing_stats fs = Inr m'" "m = m' \<or> (\<exists>st. m = (c, st) # m')"
    by (rule load_existing_stats_cons)
  have "wf_dict fs" "c \<notin> fst ` set fs" using Cons.prems(2) x by (auto simp: wf_dict_def)
  with Cons.IH [OF m'(1)] have sub: "wf_dict m'" "fst ` set m' \<subseteq> fst ` set fs" "c \<notin> fst ` set m'"
    by auto
  have "fst ` set m \<subseteq> insert c (fst ` set m')" "wf_dict m"
    using m'(2) sub(1,3) by (auto simp: wf_dict_def)
  moreover have "insert c (fst ` set m') \<subseteq> fst ` set ((c, f) # fs)"
    using subset_insertI2 [OF sub(2)] by simp
  ultimately show ?case unfolding x by (meson order_trans)
qed simp

lemma open_stats_inv:
  assumes "open_file_store f m files sf = Inr s" "wf_dict sf"
  shows "stats_inv s"
proof -
  obtain d where d: "load_existing_stats sf = Inr d" and s: "fs_chain_stats s = d" "fs_stats_files s = sf"
    using assms(1) by (auto simp: open_file_store_def rbind_Inr_iff)
  have ok: "\<forall>c g. dget sf c = Some g \<longrightarrow> chain_id_ok c \<longrightarrow> loadable g"
    using load_existing_stats_fail [OF d dget_in_set] by blast
  from load_existing_stats_ok [OF assms(2) ok] d have
    "\<forall>c. dget d c = (if chain_id_ok c then Option.bind (dget sf c) loads else None)" by auto
  then show ?thesis
    using load_existing_stats_wf [OF d assms(2)] assms(2) ok
    unfolding stats_inv_def s by (auto split: if_splits)
qed

lemma close_stats_files:
  assumes "wf_dict d"
  shows "dget (fold (\<lambda>(c, st) fs. dput fs c (Stats (stats_to_dict st))) d fs) c =
    (case dget d c of None \<Rightarrow> dget fs c | Some st \<Rightarrow> Some (Stats (stats_to_dict st)))"
  using assms
proof (induction d arbitrary: fs)
  case (Cons x d)
  obtain k st where x: "x = (k, st)" by (cases x)
  have wf: "wf_dict d" "dget d k = None"
    using Cons.prems x by (auto simp: wf_dict_def map_of_eq_None_iff)
  show ?case
    using Cons.IH [OF wf(1), of "dput fs k (Stats (stats_to_dict st))"] wf(2)
    by (auto simp: x split: option.splits)
qed simp

lemma close_stats_wf: "wf_dict fs \<Longrightarrow> wf_dict (fold (\<lambda>(c, st) fs. dput fs c (Stats (stats_to_dict st))) d fs)"
  by (induction d arbitrary: fs) auto

lemma reopen_after_close:
  assumes "stats_inv s" "\<And>c st. dget (fs_chain_stats s) c = Some st \<Longrightarrow> finite_stats st"
  shows "\<exists>s'. open_file_store f m (fs_files s) (fs_stats_files (file_close (\<lambda>_. True) s)) = Inr s' \<and>
    (\<forall>c l. file_build_history s' c l = file_build_history s c l)"
proof -
  let ?sf = "fs_stats_files (file_close (\<lambda>_. True) s)"
  have sf: "?sf = fold (\<lambda>(c, st) fs. dput fs c (Stats (stats_to_dict st))) (fs_chain_stats s) (fs_stats_files s)"
    by (simp add: file_close_def)
  have get: "dget ?sf c = (case dget (fs_chain_stats s) c of None \<Rightarrow> dget (fs_stats_files s) c
      | Some st \<Rightarrow> Some (Stats (stats_to_dict st)))" for c
    unfolding sf using assms(1) by (intro close_stats_files) (simp add: stats_inv_def)
  have wf: "wf_dict ?sf"
    unfolding sf using assms(1) by (intro close_stats_wf) (simp add: stats_inv_def)
  have written: "loadable (Stats (stats_to_dict st)) \<and> loads (Stats (stats_to_dict st)) = Some st"
    if "dget (fs_chain_stats s) c = Some st" for c st
    using stats_dict_roundtrip [OF assms(2) [OF that]] by (simp add: loadable_def loads_def)
  have old: "loadable g \<and> loads g = None"
    if "dget (fs_stats_files s) c = Some g" "chain_id_ok c" "dget (fs_chain_stats s) c = None" for c g
    using assms(1) that by (auto simp: stats_inv_def)
  have "\<forall>c g. dget ?sf c = Some g \<longrightarrow> chain_id_ok c \<longrightarrow> loadable g"
    using written old by (auto simp: get split: option.splits)
  from load_existing_stats_ok [OF wf this] obtain d where
    d: "load_existing_stats ?sf = Inr d"
      "\<And>c. dget d c = (if chain_id_ok c then Option.bind (dget ?sf c) loads else None)"
    by auto
  have "dget d c = dget (fs_chain_stats s) c" for c
  proof (cases "dget (fs_chain_stats s) c")
    case None
    then show ?thesis using old [of c] by (cases "dget (fs_stats_files s) c") (auto simp: d(2) get)
  next
    case (Some st)
    then show ?thesis using written [OF Some] assms(1) by (auto simp: d(2) get stats_inv_def)
  qed
  then show ?thesis
    by (simp add: open_file_store_def d(1) file_build_history_def)
qed

section \<open>The loop score\<close>

lemma fold_max_iff: "k \<le> fold max xs (n :: nat) \<longleftrightarrow> k \<le> n \<or> (\<exists>x \<in> set xs. k \<le> x)"
  by (induction xs arbitrary: n) (auto simp: le_max_iff_disj)

lemma loop_ratio:
  assumes "0 < b" "b \<le> (10 :: nat)" "10 * a < 7 * b"
  shows "rat_of_nat a / of_nat b \<le> 11 / 16"
proof -
  have "b = 1 \<or> b = 2 \<or> b = 3 \<or> b = 4 \<or> b = 5 \<or> b = 6 \<or> b = 7 \<or> b = 8 \<or> b = 9 \<or> b = 10"
    using assms(1,2) by presburger
  then have "3 * a \<le> 2 * b" using assms(3) by auto
  then have "rat_of_nat (3 * a) \<le> of_nat (2 * b)" by (rule of_nat_mono)
  then have "3 * rat_of_nat a \<le> 2 * of_nat b" by simp
  then have "rat_of_nat a / of_nat b \<le> 2 / 3"
    using assms(1) by (simp add: divide_le_eq)
  then show ?thesis by linarith
qed

lemma rnd_grid: "rnd (11 / 16) = Fin (11 / 16)" "rnd (89 / 128) = Fin (89 / 128)"
  by (rule rnd_dyadic [of _ 11 "- 4"], simp_all add: pow2_def)
    (rule rnd_dyadic [of _ 89 "- 7"], simp_all add: pow2_def)

lemma loop_threshold_iff:
  assumes "0 < b" "b \<le> (10 :: nat)"
  shows "fle LOOP_THRESHOLD (rnd (of_nat a / of_nat b)) \<longleftrightarrow> 7 * b \<le> 10 * a"
proof
  assume le: "fle LOOP_THRESHOLD (rnd (of_nat a / of_nat b))"
  have above: "fle (Fin (89 / 128)) LOOP_THRESHOLD"
    unfolding LOOP_THRESHOLD_def flit_def rnd_grid(2) [symmetric] by (rule rnd_mono) simp
  show "7 * b \<le> 10 * a"
  proof (rule ccontr)
    assume "\<not> 7 * b \<le> 10 * a"
    then have "rat_of_nat a / of_nat b \<le> 11 / 16"
      using assms by (intro loop_ratio) auto
    then have "fle (rnd (of_nat a / of_nat b)) (Fin (11 / 16))"
      unfolding rnd_grid(1) [symmetric] by (rule rnd_mono)
    with above le have "fle (Fin (89 / 128)) (Fin (11 / 16))" by (blast intro: fle_trans)
    then show False by simp
  qed
next
  assume "7 * b \<le> 10 * a"
  then have "rat_of_nat (7 * b) \<le> of_nat (10 * a)" by (rule of_nat_mono)
  then have "7 / 10 \<le> rat_of_nat a / of_nat b" using assms(1) by (simp add: le_divide_eq)
  then show "fle LOOP_THRESHOLD (rnd (of_nat a / of_nat b))"
    unfolding LOOP_THRESHOLD_def flit_def by (rule rnd_mono)
qed

lemma max_count_iff:
  assumes "keys \<noteq> []" "0 < j"
  shows "j \<le> i * fold max (map (count_list keys) keys) 0 \<longleftrightarrow> (\<exists>k. j \<le> i * count_list keys k)"
proof
  let ?m = "fold max (map (count_list keys) keys) 0"
  assume m: "j \<le> i * ?m"
  have "?m \<le> 0 \<or> (\<exists>x \<in> set (map (count_list keys) keys). ?m \<le> x)"
    using fold_max_iff [of ?m "map (count_list keys) keys" 0] by simp
  moreover have "\<not> ?m \<le> 0" using m assms(2) by (cases ?m) auto
  ultimately obtain k where "?m \<le> count_list keys k" by auto
  then have "i * ?m \<le> i * count_list keys k" by (rule mult_le_mono2)
  with m show "\<exists>k. j \<le> i * count_list keys k" by (blast intro: le_trans)
next
  let ?m = "fold max (map (count_list keys) keys) 0"
  assume "\<exists>k. j \<le> i * count_list keys k"
  then obtain k where k: "j \<le> i * count_list keys k" by blast
  have "count_list keys k \<noteq> 0"
    using k assms(2) by (intro notI) simp
  then have "k \<in> set keys" using count_list_0_iff by metis
  then have "count_list keys k \<le> ?m" unfolding fold_max_iff by auto
  then have "i * count_list keys k \<le> i * ?m" by (rule mult_le_mono2)
  with k show "j \<le> i * ?m" by (rule le_trans)
qed

lemma loop_detection_share:
  "fle LOOP_THRESHOLD (loop_score outs) \<longleftrightarrow>
     3 \<le> length outs \<and> (\<exists>k. 7 * length (take_last 10 outs) \<le> 10 * count_list (map loop_key (take_last 10 outs)) k)"
proof (cases "length outs < 3")
  case True
  have "\<not> fle LOOP_THRESHOLD (Fin 0)"
    using loop_threshold_iff [of 1 0] by simp
  then show ?thesis using True by (simp add: loop_score_def)
next
  case False
  let ?keys = "map loop_key (take_last 10 outs)"
  have len: "0 < length ?keys" "length ?keys \<le> 10" using False by auto
  have "fle LOOP_THRESHOLD (loop_score outs) \<longleftrightarrow> 7 * length ?keys \<le> 10 * fold max (map (count_list ?keys) ?keys) 0"
    using False loop_threshold_iff [OF len] by (simp add: loop_score_def Let_def)
  also have "\<dots> \<longleftrightarrow> (\<exists>k. 7 * length ?keys \<le> 10 * count_list ?keys k)"
  proof (rule max_count_iff)
    show "?keys \<noteq> []" using len(1) by blast
    show "0 < 7 * length ?keys" using len(1) by linarith
  qed
  finally show ?thesis using False by (simp only: length_map not_less simp_thms)
qed

end
