(* ===== verification/Pg_Store.thy ===== *)
theory Pg_Store
  imports Stores Cost_Models
begin

text \<open>
  \<open>PgStore\<close> (\<open>veronica/pg_store.py\<close>): the events table of a PostgreSQL database. The database is the
  list of the table's rows and the sequence of its \<open>SERIAL\<close> column; whether a statement fails, and
  the time the database stamps on a row, are parameters. The text in \<open>metadata_json\<close> is the object it
  encodes, or nothing when it does not parse. A commit that fails has inserted nothing: a transaction
  the server applied although its report was lost is not represented here (\<open>ensure_schema\<close> in
  \<open>Pg_Connection\<close> does represent it). Third implementation of \<open>store_contract\<close>: unlike the
  others it normalises an outcome when it is read, not when it is written.
\<close>

section \<open>The table\<close>

record pg_meta =
  pm_kind :: "pyval option"
  pm_status :: "pyval option"
  pm_model :: "string option"
  pm_elapsed_ms :: pyfloat
  pm_risk_level :: risk_level
  pm_recommendation :: recommendation
  pm_estimated_usd :: pyfloat
  pm_confidence :: pyfloat
  pm_degraded :: bool
  pm_org_denial :: "string option"

record pg_row =
  pr_id :: nat
  pr_chain_id :: string
  pr_step_id :: string
  pr_decision :: recommendation
  pr_reason :: "string + recommendation"
  pr_cost_usd :: "pyfloat option"
  pr_tokens_in :: "int option"
  pr_tokens_out :: "int option"
  pr_duration_ms :: "pyfloat option"
  pr_policy_hash :: string
  pr_audit_id :: string
  pr_created_ms :: "int option"
  pr_metadata :: "pg_meta option"

record pg_store =
  pg_rows :: "pg_row list"
  pg_next_id :: nat
  pg_closed :: bool

definition new_pg_store :: pg_store where
  "new_pg_store = \<lparr>pg_rows = [], pg_next_id = 1, pg_closed = False\<rparr>"

definition PG_MAX_OUTCOMES :: nat where "PG_MAX_OUTCOMES = 50000"

text \<open>What else a commit depends on: the arguments beside the outcome, and the database.\<close>

record pg_write =
  pw_analysis :: analysis_result
  pw_cost :: cost_estimate
  pw_meta :: decision_meta
  pw_created_ms :: int
  pw_ok :: bool

section \<open>Commit\<close>

definition outcome_to_meta :: "step_outcome \<Rightarrow> analysis_result \<Rightarrow> cost_estimate \<Rightarrow> decision_meta \<Rightarrow> pg_meta" where
  "outcome_to_meta out a cost meta =
     \<lparr>pm_kind = Some (VStr (so_kind out)), pm_status = Some (VStr (so_status out)),
      pm_model = so_model out, pm_elapsed_ms = so_elapsed_ms out, pm_risk_level = ar_risk_level a,
      pm_recommendation = ar_recommendation a, pm_estimated_usd = ce_estimated_usd cost,
      pm_confidence = ce_confidence cost, pm_degraded = dm_degraded meta,
      pm_org_denial = dm_org_denial meta\<rparr>"

definition pg_reason :: "decision_meta \<Rightarrow> analysis_result \<Rightarrow> string + recommendation" where
  \<comment> \<open>\<open>meta.org_denial or analysis.recommendation\<close>\<close>
  "pg_reason meta a =
     (case dm_org_denial meta of
        None \<Rightarrow> Inr (ar_recommendation a)
      | Some d \<Rightarrow> if d = [] then Inr (ar_recommendation a) else Inl d)"

definition pg_row_of :: "nat \<Rightarrow> step_outcome \<Rightarrow> pg_write \<Rightarrow> pg_row" where
  "pg_row_of i out w =
     \<lparr>pr_id = i, pr_chain_id = so_chain_id out, pr_step_id = so_step_id out,
      pr_decision = ar_recommendation (pw_analysis w), pr_reason = pg_reason (pw_meta w) (pw_analysis w),
      pr_cost_usd = Some (safe_cost (so_cost_usd out)), pr_tokens_in = Some (so_tokens_in out),
      pr_tokens_out = Some (so_tokens_out out), pr_duration_ms = Some (so_elapsed_ms out),
      pr_policy_hash = dm_policy_hash (pw_meta w), pr_audit_id = dm_audit_id (pw_meta w),
      pr_created_ms = Some (pw_created_ms w),
      pr_metadata = Some (outcome_to_meta out (pw_analysis w) (pw_cost w) (pw_meta w))\<rparr>"

definition pg_commit :: "pg_store \<Rightarrow> step_outcome \<Rightarrow> pg_write \<Rightarrow> unit result \<times> pg_store" where
  \<comment> \<open>a failed insert leaves a gap in the sequence\<close>
  "pg_commit s out w =
     (if pg_closed s then (Inl DatabaseError, s)
      else if \<not> pw_ok w then (Inl DatabaseError, s\<lparr>pg_next_id := pg_next_id s + 1\<rparr>)
      else (Inr (), s\<lparr>pg_rows := pg_rows s @ [pg_row_of (pg_next_id s) out w],
                      pg_next_id := pg_next_id s + 1\<rparr>))"

section \<open>History\<close>

definition select_recent :: "pg_store \<Rightarrow> string \<Rightarrow> nat \<Rightarrow> pg_row list" where
  \<comment> \<open>\<open>WHERE chain_id = c ORDER BY id DESC LIMIT k\<close>\<close>
  "select_recent s c k = take k (rev (sort_key pr_id (filter (\<lambda>r. pr_chain_id r = c) (pg_rows s))))"

definition known_or :: "string list \<Rightarrow> string \<Rightarrow> string \<Rightarrow> pyval option \<Rightarrow> string" where
  \<comment> \<open>the value of a key (\<open>absent\<close> without the key), replaced by \<open>other\<close> when it is not a known one\<close>
  "known_or known absent other v =
     (case v of
        None \<Rightarrow> absent
      | Some (VStr x) \<Rightarrow> if x \<in> set known then x else other
      | Some _ \<Rightarrow> other)"

definition PG_STATUSES :: "string list" where
  "PG_STATUSES = [''ok'', ''halted'', ''error'', ''timeout'']"

definition PG_KINDS :: "string list" where
  "PG_KINDS = [''llm'', ''tool'', ''system'']"

definition outcome_of_row :: "string \<Rightarrow> pg_row \<Rightarrow> step_outcome" where
  "outcome_of_row c r =
     \<lparr>so_step_id = pr_step_id r, so_request_id = [], so_chain_id = c,
      so_kind = known_or PG_KINDS ''system'' ''system'' (Option.bind (pr_metadata r) pm_kind),
      so_status = known_or PG_STATUSES ''ok'' ''error'' (Option.bind (pr_metadata r) pm_status),
      so_cost_usd = (case pr_cost_usd r of None \<Rightarrow> Fin 0 | Some x \<Rightarrow> safe_cost x),
      so_tokens_in = (case pr_tokens_in r of None \<Rightarrow> 0 | Some n \<Rightarrow> n),
      so_tokens_out = (case pr_tokens_out r of None \<Rightarrow> 0 | Some n \<Rightarrow> n),
      so_elapsed_ms = (case pr_duration_ms r of None \<Rightarrow> Fin 0 | Some x \<Rightarrow> x),
      so_model = Option.bind (pr_metadata r) pm_model, so_events = [],
      so_timestamp_ms = (case pr_created_ms r of None \<Rightarrow> 0 | Some t \<Rightarrow> t)\<rparr>"

definition pg_history :: "string \<Rightarrow> step_outcome list \<Rightarrow> history_view" where
  "pg_history c last_n =
     \<lparr>hv_chain_id = c, hv_last_n = last_n,
      hv_rolling_cost_usd = fsum (filter isfinite (map so_cost_usd last_n)),
      hv_failure_streak = trailing failed_outcome last_n, hv_depth = length last_n,
      hv_loop_score = Fin 0, hv_success_streak = 0, hv_cost_per_step_ema = Fin 0,
      hv_cost_per_step_ema_by_model = [], hv_latency_ema_ms = [],
      hv_budget_headroom_ratio = Fin 1\<rparr>"

definition pg_build_history :: "bool \<Rightarrow> pg_store \<Rightarrow> string \<Rightarrow> int \<Rightarrow> history_view result" where
  "pg_build_history ok s c limit =
     (if pg_closed s \<or> \<not> ok then Inl DatabaseError
      else Inr (pg_history c
        (map (outcome_of_row c) (rev (select_recent s c (clamp_limit limit PG_MAX_OUTCOMES))))))"

definition pg_close :: "pg_store \<Rightarrow> pg_store" where
  "pg_close s = s\<lparr>pg_closed := True\<rparr>"

section \<open>The store's promise\<close>

definition pg_norm :: "step_outcome \<Rightarrow> step_outcome" where
  "pg_norm out =
     out\<lparr>so_request_id := [], so_kind := (if so_kind out \<in> set PG_KINDS then so_kind out else ''system''),
         so_status := (if so_status out \<in> set PG_STATUSES then so_status out else ''error''),
         so_cost_usd := safe_cost (so_cost_usd out), so_events := []\<rparr>"

definition pg_reads :: "step_outcome \<Rightarrow> step_outcome \<Rightarrow> bool" where
  \<comment> \<open>the time is the database's\<close>
  "pg_reads out out' \<longleftrightarrow> out' = (pg_norm out)\<lparr>so_timestamp_ms := so_timestamp_ms out'\<rparr>"

definition pg_inv :: "pg_store \<Rightarrow> bool" where
  "pg_inv s \<longleftrightarrow> \<not> pg_closed s \<and> sorted_wrt (<) (map pr_id (pg_rows s)) \<and>
     (\<forall>r \<in> set (pg_rows s). pr_id r < pg_next_id s)"

definition pg_outcomes :: "pg_store \<Rightarrow> string \<Rightarrow> step_outcome list" where
  "pg_outcomes s c = map (outcome_of_row c) (filter (\<lambda>r. pr_chain_id r = c) (pg_rows s))"

lemma select_recent_rows:
  assumes "pg_inv s"
  shows "rev (select_recent s c k) = take_last k (filter (\<lambda>r. pr_chain_id r = c) (pg_rows s))"
proof -
  let ?rows = "filter (\<lambda>r. pr_chain_id r = c) (pg_rows s)"
  have "sorted_wrt (\<lambda>a b. pr_id a \<le> pr_id b) (pg_rows s)"
    using assms by (auto simp: pg_inv_def sorted_wrt_map intro: sorted_wrt_mono_rel [rotated])
  then have "sorted_wrt (\<lambda>a b. pr_id a \<le> pr_id b) ?rows"
    by (rule sorted_wrt_filter)
  then have "sort_key pr_id ?rows = ?rows"
    by (intro sort_key_id_if_sorted) (simp add: sorted_wrt_map)
  then show ?thesis by (simp add: select_recent_def take_last_def rev_take)
qed

lemma pg_build_view:
  "pg_inv s \<Longrightarrow> pg_build_history True s c l =
     Inr (pg_history c (take_last (clamp_limit l PG_MAX_OUTCOMES) (pg_outcomes s c)))"
  by (simp add: pg_build_history_def pg_inv_def [of s] select_recent_rows pg_outcomes_def
      take_last_def drop_map)

lemma pg_read_back: "pg_reads out (outcome_of_row (so_chain_id out) (pg_row_of i out w))"
  by (simp add: pg_reads_def pg_norm_def outcome_of_row_def pg_row_of_def outcome_to_meta_def
      known_or_def safe_cost_def)

lemma pg_commit_outcomes:
  "fst (pg_commit s out w) = Inr () \<Longrightarrow>
   pg_outcomes (snd (pg_commit s out w)) c =
     (if so_chain_id out = c then pg_outcomes s c @ [outcome_of_row c (pg_row_of (pg_next_id s) out w)]
      else pg_outcomes s c)"
  by (auto simp: pg_commit_def pg_outcomes_def pg_row_of_def split: if_splits)

lemma pg_commit_fail: "fst (pg_commit s out w) = Inl e \<Longrightarrow> pg_outcomes (snd (pg_commit s out w)) c = pg_outcomes s c"
  by (auto simp: pg_commit_def pg_outcomes_def split: if_splits)

lemma pg_commit_inv: "pg_inv s \<Longrightarrow> pg_inv (snd (pg_commit s out w))"
  by (auto simp: pg_commit_def pg_inv_def sorted_wrt_append pg_row_of_def)

interpretation pg: store_contract pg_commit "pg_build_history True" pg_inv pg_reads
    "\<lambda>_. True" "\<lambda>_. True" "\<lambda>l. clamp_limit l PG_MAX_OUTCOMES" "\<lambda>_. True"
proof (unfold_locales, goal_cases)
  case (1 s out w)
  then show ?case by (intro pg_commit_inv)
next
  case (2 s out w e c l)
  then show ?case by (simp add: pg_build_view pg_commit_inv pg_commit_fail)
next
  case (3 s out w l h)
  then show ?case
    using pg_read_back [of out "pg_next_id s" w]
    by (auto simp: pg_build_view pg_commit_inv pg_commit_outcomes pg_history_def
        take_last_append_take_last)
next
  case (4 s out c l w)
  then show ?case
    by (cases "fst (pg_commit s out w)")
      (simp_all add: pg_build_view pg_commit_inv pg_commit_outcomes pg_commit_fail)
next
  case (5 s c l)
  then show ?case by (simp add: pg_build_view pg_history_def)
qed simp

end
