(* ===== verification/Pg_Connection.thy ===== *)
theory Pg_Connection
  imports Pg_Store
begin

text \<open>
  The life of a \<open>PgStore\<close> (\<open>__init__\<close>, \<open>_ensure_schema\<close> and \<open>close\<close> of \<open>veronica/pg_store.py\<close>): the
  connection pool it opens, the two tables it creates in one transaction, and what the application's
  start makes of the outcome. The driver (\<open>psycopg_pool\<close>) and what the database answers to each
  statement are parameters; the database itself outlives the stores opened on it.
\<close>

section \<open>The database\<close>

record pg_policy_row =
  pp_chain_id :: string
  pp_config_json :: string
  pp_version :: int
  pp_policy_hash :: string
  pp_created_ms :: int
  pp_updated_ms :: int

record pg_database =
  db_policies :: "pg_policy_row list option" \<comment> \<open>\<open>None\<close>: no such table\<close>
  db_events :: "(pg_row list \<times> nat) option" \<comment> \<open>the rows and the sequence\<close>
  db_events_index :: bool

definition empty_database :: pg_database where
  "empty_database = \<lparr>db_policies = None, db_events = None, db_events_index = False\<rparr>"

definition create_policies :: "pg_database \<Rightarrow> pg_database" where
  "create_policies db =
     db\<lparr>db_policies := (case db_policies db of None \<Rightarrow> Some [] | Some rows \<Rightarrow> Some rows)\<rparr>"

definition create_events :: "pg_database \<Rightarrow> pg_database" where
  "create_events db =
     db\<lparr>db_events := (case db_events db of None \<Rightarrow> Some ([], 1) | Some t \<Rightarrow> Some t),
        db_events_index := True\<rparr>"

text \<open>The answers of the database: a commit whose report fails may or may not have been applied.\<close>

record schema_run =
  sr_connection :: bool
  sr_policies :: bool
  sr_events :: bool
  sr_commit :: bool
  sr_applied :: bool

definition ensure_schema :: "schema_run \<Rightarrow> pg_database \<Rightarrow> unit result \<times> pg_database" where
  "ensure_schema run db =
     (if \<not> sr_connection run then (Inl DatabaseError, db)
      else if \<not> sr_policies run then (Inl DatabaseError, db)
      else if \<not> sr_events run then (Inl DatabaseError, db)
      else (let db' = create_events (create_policies db) in
        if sr_commit run then (Inr (), db')
        else (Inl DatabaseError, if sr_applied run then db' else db)))"

section \<open>Opening and closing\<close>

record pg_pool =
  pl_conninfo :: string
  pl_min_size :: int
  pl_max_size :: int

record pg_driver =
  dr_open :: "string \<Rightarrow> int \<Rightarrow> int \<Rightarrow> unit result"
  dr_close :: "unit result"

definition store_on :: "pg_database \<Rightarrow> pg_store" where
  "store_on db =
     (case db_events db of
        Some (rows, next_id) \<Rightarrow> \<lparr>pg_rows = rows, pg_next_id = next_id, pg_closed = False\<rparr>
      | None \<Rightarrow> new_pg_store)"

definition pg_init ::
  "pg_driver option \<Rightarrow> schema_run \<Rightarrow> string \<Rightarrow> int \<Rightarrow> int \<Rightarrow> pg_database \<Rightarrow>
   pg_store result \<times> pg_pool option \<times> pg_database" where
  \<comment> \<open>the store, the pool that is left open, and the database\<close>
  "pg_init driver run dsn min_size max_size db =
     (case driver of
        None \<Rightarrow> (Inl ImportError, None, db)
      | Some d \<Rightarrow>
          (case dr_open d dsn min_size max_size of
             Inl e \<Rightarrow> (Inl e, None, db)
           | Inr _ \<Rightarrow>
               (let pool = \<lparr>pl_conninfo = dsn, pl_min_size = min_size, pl_max_size = max_size\<rparr> in
                case ensure_schema run db of
                  (Inr _, db') \<Rightarrow> (Inr (store_on db'), Some pool, db')
                | (Inl e, db') \<Rightarrow>
                    (case dr_close d of
                       Inr _ \<Rightarrow> (Inl e, None, db')
                     | Inl e' \<Rightarrow> (Inl e', Some pool, db')))))"

definition database_of :: "pg_store \<Rightarrow> pg_database \<Rightarrow> pg_database" where
  \<comment> \<open>what a store that was opened on a database leaves in it\<close>
  "database_of s db = db\<lparr>db_events := Some (pg_rows s, pg_next_id s)\<rparr>"

text \<open>What \<open>_lifespan\<close> distinguishes.\<close>

datatype connection = Connected pg_store | DriverMissing | ConnectFailed

definition connection_of :: "pg_store result \<Rightarrow> connection" where
  "connection_of r =
     (case r of
        Inr s \<Rightarrow> Connected s
      | Inl ImportError \<Rightarrow> DriverMissing
      | Inl _ \<Rightarrow> ConnectFailed)"

section \<open>Lemmas\<close>

lemma create_idempotent:
  "create_policies (create_policies db) = create_policies db"
  "create_events (create_events db) = create_events db"
  by (simp_all add: create_policies_def create_events_def split: option.splits)

lemma create_keeps [simp]:
  "db_events (create_policies db) = db_events db"
  "db_policies (create_events db) = db_policies db"
  "db_events db = Some t \<Longrightarrow> db_events (create_events db) = Some t"
  "db_policies db = Some rows \<Longrightarrow> db_policies (create_policies db) = Some rows"
  by (simp_all add: create_policies_def create_events_def)

lemma created [simp]:
  "db_events (create_events db) \<noteq> None" "db_policies (create_policies db) \<noteq> None"
  by (simp_all add: create_policies_def create_events_def split: option.splits)

lemma ensure_schema_ok:
  "fst (ensure_schema run db) = Inr () \<longleftrightarrow> sr_connection run \<and> sr_policies run \<and> sr_events run \<and> sr_commit run"
  by (simp add: ensure_schema_def Let_def)

lemma ensure_schema_database:
  "snd (ensure_schema run db) = db \<or> snd (ensure_schema run db) = create_events (create_policies db)"
  by (simp add: ensure_schema_def Let_def)

lemma ensure_schema_applied:
  "fst (ensure_schema run db) = Inr () \<Longrightarrow> snd (ensure_schema run db) = create_events (create_policies db)"
  by (auto simp: ensure_schema_def Let_def split: if_splits)

lemma store_on_database: "\<not> pg_closed s \<Longrightarrow> store_on (database_of s db) = s"
  by (simp add: store_on_def database_of_def)

lemma store_on_created: "store_on (create_events (create_policies db)) = store_on db"
  by (cases "db_events db") (simp_all add: store_on_def create_events_def create_policies_def new_pg_store_def)

definition pg_opens :: "pg_driver option \<Rightarrow> schema_run \<Rightarrow> string \<Rightarrow> int \<Rightarrow> int \<Rightarrow> bool" where
  "pg_opens driver run dsn mn mx \<longleftrightarrow>
     (case driver of None \<Rightarrow> False | Some d \<Rightarrow> is_ok (dr_open d dsn mn mx)) \<and>
     sr_connection run \<and> sr_policies run \<and> sr_events run \<and> sr_commit run"

lemma pg_init_opens:
  "pg_opens driver run dsn mn mx \<Longrightarrow> pg_init driver run dsn mn mx db =
     (Inr (store_on db), Some \<lparr>pl_conninfo = dsn, pl_min_size = mn, pl_max_size = mx\<rparr>,
      create_events (create_policies db))"
  by (auto simp: pg_init_def pg_opens_def is_ok_iff ensure_schema_def Let_def store_on_created split: option.splits)

lemma pg_init_refused:
  assumes "\<not> pg_opens driver run dsn mn mx"
  shows "\<not> is_ok (fst (pg_init driver run dsn mn mx db))"
    and "snd (snd (pg_init driver run dsn mn mx db)) \<in> {db, create_events (create_policies db)}"
    and "\<forall>d. driver = Some d \<longrightarrow> is_ok (dr_close d) \<Longrightarrow> fst (snd (pg_init driver run dsn mn mx db)) = None"
  using assms ensure_schema_database [of run db] ensure_schema_ok [of run db]
  by (auto simp: pg_init_def pg_opens_def is_ok_iff Let_def split: option.splits sum.splits prod.splits)

lemma pg_init_ok_iff: "is_ok (fst (pg_init driver run dsn mn mx db)) \<longleftrightarrow> pg_opens driver run dsn mn mx"
  using pg_init_opens pg_init_refused(1) by (cases "pg_opens driver run dsn mn mx") auto

section \<open>Sessions\<close>

text \<open>
  A session is one run of the process: a start on the database, and when it succeeds the commits
  made before the store is closed. The commits of a session whose start failed go elsewhere.
\<close>

type_synonym pg_session = "pg_driver option \<times> schema_run \<times> (step_outcome \<times> pg_write) list"

fun run_session :: "string \<Rightarrow> pg_session \<Rightarrow> pg_database \<Rightarrow> pg_database" where
  "run_session dsn (driver, run, ws) db =
     (case pg_init driver run dsn 1 5 db of
        (Inr s, _, db') \<Rightarrow> database_of (pg_close (snd (commit_all pg_commit s ws))) db'
      | (Inl _, _, db') \<Rightarrow> db')"

fun session_commits :: "string \<Rightarrow> pg_session \<Rightarrow> (step_outcome \<times> pg_write) list" where
  "session_commits dsn (driver, run, ws) = (if pg_opens driver run dsn 1 5 then ws else [])"

lemma commit_all_next:
  "snd (commit_all commit s (x # xs)) = snd (commit_all commit (snd (commit s (fst x) (snd x))) xs)"
  by (cases x) (simp add: case_prod_beta Let_def)

lemma commit_all_append:
  "snd (commit_all commit s (xs @ ys)) = snd (commit_all commit (snd (commit_all commit s xs)) ys)"
  by (induction xs arbitrary: s) (simp_all add: commit_all_next del: commit_all.simps(2))

lemma commit_all_closed: "pg_closed (snd (commit_all pg_commit s ws)) = pg_closed s"
  by (induction ws arbitrary: s) (simp_all add: commit_all_next pg_commit_def del: commit_all.simps(2))

lemma store_on_open [simp]: "\<not> pg_closed (store_on db)"
  by (simp add: store_on_def new_pg_store_def split: option.splits prod.splits)

lemma store_on_reopened: "\<not> pg_closed s \<Longrightarrow> store_on (database_of (pg_close s) db) = s"
  by (simp add: store_on_def database_of_def pg_close_def)

lemma store_on_session:
  "store_on (run_session dsn ses db) = snd (commit_all pg_commit (store_on db) (session_commits dsn ses))"
proof -
  obtain driver run ws where ses: "ses = (driver, run, ws)" by (metis prod_cases3)
  show ?thesis
  proof (cases "pg_opens driver run dsn 1 5")
    case True
    then show ?thesis
      by (simp add: ses pg_init_opens store_on_reopened commit_all_closed)
  next
    case False
    from pg_init_refused(1,2) [OF this, of db] obtain e pool db' where
      "pg_init driver run dsn 1 5 db = (Inl e, pool, db')" "store_on db' = store_on db"
      by (cases "pg_init driver run dsn 1 5 db"; cases "fst (pg_init driver run dsn 1 5 db)")
        (auto simp: store_on_created)
    with False show ?thesis by (simp add: ses)
  qed
qed

lemma store_on_sessions:
  "store_on (fold (run_session dsn) ss db) =
   snd (commit_all pg_commit (store_on db) (concat (map (session_commits dsn) ss)))"
  by (induction ss arbitrary: db) (simp_all add: store_on_session commit_all_append)

lemma store_on_empty: "store_on empty_database = new_pg_store"
  by (simp add: store_on_def empty_database_def)

end
