(* ===== verification/Cp_Events.thy ===== *)
theory Cp_Events
  imports Policy_Types
begin

text \<open>
  The control plane's event schema (\<open>schemas/events.py\<close>): \<open>StepOutcome\<close> and
  \<open>PolicyDecision\<close> with their conversion to and from dictionaries. \<open>repr_of\<close> stands for the
  text \<open>str\<close> gives a float or a container.
\<close>

record cp_outcome =
  co_step_id :: string
  co_chain_id :: string
  co_operation_name :: string
  co_decision :: string
  co_cost_usd :: pyfloat
  co_tokens :: int
  co_duration_ms :: pyfloat
  co_policy_hash :: string
  co_audit_id :: string
  co_timestamp :: pyfloat
  co_schema_version :: string
  co_reason_code :: "string option"

definition VALID_DECISIONS :: "string list" where
  "VALID_DECISIONS = [''allow'', ''halt'', ''degrade'', ''retry'', ''quarantine'', ''queue'', ''unknown'']"

definition VALID_VERDICTS :: "string list" where
  "VALID_VERDICTS = [''ALLOW'', ''HALT'', ''DEGRADE'']"

fun py_str :: "(pyval \<Rightarrow> string) \<Rightarrow> pyval \<Rightarrow> string" where
  "py_str repr_of (VStr s) = s"
| "py_str repr_of VNone = ''None''"
| "py_str repr_of (VBool b) = (if b then ''True'' else ''False'')"
| "py_str repr_of (VInt n) = show_int n"
| "py_str repr_of v = repr_of v"

definition item :: "(string, pyval) pydict \<Rightarrow> string \<Rightarrow> pyval result" where
  \<comment> \<open>\<open>data[key]\<close>\<close>
  "item d k = (case dget d k of None \<Rightarrow> Inl KeyError | Some v \<Rightarrow> Inr v)"

definition opt_val :: "string option \<Rightarrow> pyval" where
  "opt_val s = (case s of None \<Rightarrow> VNone | Some x \<Rightarrow> VStr x)"

definition reject_unless :: "bool \<Rightarrow> unit result" where
  "reject_unless b = (if b then Inr () else Inl ValueError)"

lemma reject_unless_ok [simp]: "reject_unless b = Inr () \<longleftrightarrow> b"
  by (simp add: reject_unless_def)

section \<open>Step outcomes\<close>

definition outcome_to_dict :: "cp_outcome \<Rightarrow> (string, pyval) pydict" where
  "outcome_to_dict x =
     [(''step_id'', VStr (co_step_id x)), (''chain_id'', VStr (co_chain_id x)),
      (''operation_name'', VStr (co_operation_name x)), (''decision'', VStr (co_decision x)),
      (''cost_usd'', VFloat (co_cost_usd x)), (''tokens'', VInt (co_tokens x)),
      (''duration_ms'', VFloat (co_duration_ms x)), (''policy_hash'', VStr (co_policy_hash x)),
      (''audit_id'', VStr (co_audit_id x)), (''timestamp'', VFloat (co_timestamp x)),
      (''schema_version'', VStr (co_schema_version x)), (''reason_code'', opt_val (co_reason_code x))]"

definition outcome_from_dict :: "(pyval \<Rightarrow> string) \<Rightarrow> pyfloat \<Rightarrow> (string, pyval) pydict \<Rightarrow> cp_outcome result" where
  "outcome_from_dict rp now d =
     (let ts = dget_default d ''timestamp'' VNone in
      rbind (item d ''decision'') (\<lambda>dv. let decision = py_str rp dv in
      rbind (reject_unless (decision \<in> set VALID_DECISIONS)) (\<lambda>_.
      rbind (rbind (item d ''cost_usd'') to_float) (\<lambda>cost.
      rbind (rbind (item d ''duration_ms'') to_float) (\<lambda>duration.
      rbind (if ts = VNone then Inr now else to_float ts) (\<lambda>timestamp.
      rbind (reject_unless (isfinite cost)) (\<lambda>_.
      rbind (reject_unless (isfinite duration)) (\<lambda>_.
      rbind (reject_unless (isfinite timestamp)) (\<lambda>_.
      let raw = dget_default d ''reason_code'' VNone;
          reason = (if raw = VNone then None else Some (py_str rp raw)) in
      rbind (item d ''step_id'') (\<lambda>step.
      rbind (item d ''chain_id'') (\<lambda>chain.
      rbind (item d ''operation_name'') (\<lambda>op.
      rbind (rbind (item d ''tokens'') to_int) (\<lambda>tokens.
      rbind (item d ''policy_hash'') (\<lambda>hash.
      rbind (item d ''audit_id'') (\<lambda>audit.
      Inr \<lparr>co_step_id = py_str rp step, co_chain_id = py_str rp chain, co_operation_name = py_str rp op,
           co_decision = decision, co_cost_usd = cost, co_tokens = max 0 tokens,
           co_duration_ms = duration, co_policy_hash = py_str rp hash, co_audit_id = py_str rp audit,
           co_timestamp = timestamp,
           co_schema_version = py_str rp (dget_default d ''schema_version'' (VStr ''1.0'')),
           co_reason_code = reason\<rparr>)))))))))))))))"

definition valid_outcome :: "cp_outcome \<Rightarrow> bool" where
  "valid_outcome x \<longleftrightarrow> co_decision x \<in> set VALID_DECISIONS \<and> isfinite (co_cost_usd x) \<and>
     isfinite (co_duration_ms x) \<and> isfinite (co_timestamp x) \<and> 0 \<le> co_tokens x"

lemma outcome_from_dict_valid: "outcome_from_dict rp now d = Inr x \<Longrightarrow> valid_outcome x"
  unfolding outcome_from_dict_def Let_def rbind_Inr_iff valid_outcome_def by auto

lemma outcome_item:
  "item (outcome_to_dict x) ''step_id'' = Inr (VStr (co_step_id x))"
  "item (outcome_to_dict x) ''chain_id'' = Inr (VStr (co_chain_id x))"
  "item (outcome_to_dict x) ''operation_name'' = Inr (VStr (co_operation_name x))"
  "item (outcome_to_dict x) ''decision'' = Inr (VStr (co_decision x))"
  "item (outcome_to_dict x) ''cost_usd'' = Inr (VFloat (co_cost_usd x))"
  "item (outcome_to_dict x) ''tokens'' = Inr (VInt (co_tokens x))"
  "item (outcome_to_dict x) ''duration_ms'' = Inr (VFloat (co_duration_ms x))"
  "item (outcome_to_dict x) ''policy_hash'' = Inr (VStr (co_policy_hash x))"
  "item (outcome_to_dict x) ''audit_id'' = Inr (VStr (co_audit_id x))"
  "dget_default (outcome_to_dict x) ''timestamp'' v = VFloat (co_timestamp x)"
  "dget_default (outcome_to_dict x) ''schema_version'' v = VStr (co_schema_version x)"
  "dget_default (outcome_to_dict x) ''reason_code'' v = opt_val (co_reason_code x)"
  by (simp_all add: item_def outcome_to_dict_def)

lemma outcome_roundtrip:
  assumes "valid_outcome x"
  shows "outcome_from_dict rp now (outcome_to_dict x) = Inr x"
proof -
  have r: "(if opt_val (co_reason_code x) = VNone then None else Some (py_str rp (opt_val (co_reason_code x)))) = co_reason_code x"
    by (simp add: opt_val_def split: option.split)
  have m: "max 0 (co_tokens x) = co_tokens x" using assms by (simp add: valid_outcome_def)
  show ?thesis
    using assms unfolding valid_outcome_def outcome_from_dict_def Let_def outcome_item r
    by (simp add: reject_unless_def m)
qed

section \<open>Policy decisions\<close>

record policy_decision =
  pd_decision_id :: string
  pd_policy_id :: string
  pd_policy_hash :: string
  pd_rule_matched :: string
  pd_verdict :: string
  pd_reason :: string
  pd_context :: "(string, pyval) pydict"
  pd_timestamp :: pyfloat

definition safe_context :: "pyval \<Rightarrow> (string, pyval) pydict result" where
  "safe_context v = (case v of VNone \<Rightarrow> Inr [] | VDict d \<Rightarrow> Inr d | _ \<Rightarrow> Inl ValueError)"

definition decision_to_dict :: "policy_decision \<Rightarrow> (string, pyval) pydict" where
  "decision_to_dict x =
     [(''decision_id'', VStr (pd_decision_id x)), (''policy_id'', VStr (pd_policy_id x)),
      (''policy_hash'', VStr (pd_policy_hash x)), (''rule_matched'', VStr (pd_rule_matched x)),
      (''verdict'', VStr (pd_verdict x)), (''reason'', VStr (pd_reason x)),
      (''context'', VDict (pd_context x)), (''timestamp'', VFloat (pd_timestamp x))]"

definition decision_from_dict :: "(pyval \<Rightarrow> string) \<Rightarrow> pyfloat \<Rightarrow> (string, pyval) pydict \<Rightarrow> policy_decision result" where
  "decision_from_dict rp now d =
     (let ts = dget_default d ''timestamp'' VNone in
      rbind (item d ''verdict'') (\<lambda>vv. let verdict = py_str rp vv in
      rbind (reject_unless (verdict \<in> set VALID_VERDICTS)) (\<lambda>_.
      rbind (if ts = VNone then Inr now else to_float ts) (\<lambda>timestamp.
      rbind (reject_unless (isfinite timestamp)) (\<lambda>_.
      rbind (item d ''decision_id'') (\<lambda>did.
      rbind (item d ''policy_id'') (\<lambda>pid.
      rbind (item d ''policy_hash'') (\<lambda>hash.
      rbind (item d ''rule_matched'') (\<lambda>rule.
      rbind (item d ''reason'') (\<lambda>reason.
      rbind (safe_context (dget_default d ''context'' VNone)) (\<lambda>ctx.
      Inr \<lparr>pd_decision_id = py_str rp did, pd_policy_id = py_str rp pid, pd_policy_hash = py_str rp hash,
           pd_rule_matched = py_str rp rule, pd_verdict = verdict, pd_reason = py_str rp reason,
           pd_context = ctx, pd_timestamp = timestamp\<rparr>)))))))))))"

lemma decision_item:
  "item (decision_to_dict x) ''decision_id'' = Inr (VStr (pd_decision_id x))"
  "item (decision_to_dict x) ''policy_id'' = Inr (VStr (pd_policy_id x))"
  "item (decision_to_dict x) ''policy_hash'' = Inr (VStr (pd_policy_hash x))"
  "item (decision_to_dict x) ''rule_matched'' = Inr (VStr (pd_rule_matched x))"
  "item (decision_to_dict x) ''verdict'' = Inr (VStr (pd_verdict x))"
  "item (decision_to_dict x) ''reason'' = Inr (VStr (pd_reason x))"
  "dget_default (decision_to_dict x) ''context'' v = VDict (pd_context x)"
  "dget_default (decision_to_dict x) ''timestamp'' v = VFloat (pd_timestamp x)"
  by (simp_all add: item_def decision_to_dict_def)

lemma decision_roundtrip:
  assumes "pd_verdict x \<in> set VALID_VERDICTS" "isfinite (pd_timestamp x)"
  shows "decision_from_dict rp now (decision_to_dict x) = Inr x"
  using assms unfolding decision_from_dict_def Let_def decision_item
  by (simp add: reject_unless_def safe_context_def)

lemma decision_from_dict_valid:
  "decision_from_dict rp now d = Inr x \<Longrightarrow> pd_verdict x \<in> set VALID_VERDICTS \<and> isfinite (pd_timestamp x)"
  unfolding decision_from_dict_def Let_def rbind_Inr_iff by auto

end
