(* ===== verification/Metrics.thy ===== *)
theory Metrics
  imports Cp_Events Emitter
begin

text \<open>
  The two metrics subscribers of the emitter: \<open>PrometheusSubscriber\<close>
  (\<open>veronica/metrics/prometheus_subscriber.py\<close>) and \<open>MetricsSubscriber\<close>
  (\<open>veronica/metrics_subscriber.py\<close>). The client library is a parameter: for each call, what it
  raises. The state keeps the calls that were made, in order, and the chains seen.
\<close>

section \<open>Calls to the client\<close>

datatype metric_call =
    Labels string "(string \<times> pyval) list"
  | Inc string "(string \<times> pyval) list" int
  | Observe string "(string \<times> pyval) list" pyfloat

record metrics_state =
  me_calls :: "metric_call list"
  me_seen_chains :: "string list"

type_synonym client = "metric_call \<Rightarrow> unit result"
type_synonym handler = "metrics_state \<Rightarrow> unit result \<times> metrics_state"

definition call_client :: "client \<Rightarrow> metric_call \<Rightarrow> handler" where
  "call_client cl m s =
     (case cl m of Inl e \<Rightarrow> (Inl e, s) | Inr _ \<Rightarrow> (Inr (), s\<lparr>me_calls := me_calls s @ [m]\<rparr>))"

definition done_with :: "unit result \<Rightarrow> handler" where
  "done_with r s = (r, s)"

definition then_do :: "handler \<Rightarrow> handler \<Rightarrow> handler" where
  "then_do f g s = (let (r, s1) = f s in case r of Inl e \<Rightarrow> (Inl e, s1) | Inr _ \<Rightarrow> g s1)"

definition swallow :: "py_error list \<Rightarrow> handler \<Rightarrow> handler" where
  "swallow es f s = (let (r, s1) = f s in
     case r of Inl e \<Rightarrow> (if e \<in> set es then Inr () else Inl e, s1) | Inr _ \<Rightarrow> (Inr (), s1))"

definition labelled_inc :: "client \<Rightarrow> string \<Rightarrow> (string \<times> pyval) list \<Rightarrow> handler" where
  "labelled_inc cl name ls = then_do (call_client cl (Labels name ls)) (call_client cl (Inc name ls 1))"

definition with_value :: "'a result \<Rightarrow> ('a \<Rightarrow> handler) \<Rightarrow> handler" where
  "with_value r f = (case r of Inl e \<Rightarrow> done_with (Inl e) | Inr x \<Rightarrow> f x)"

section \<open>PrometheusSubscriber\<close>

definition PROM_DECISIONS :: "string list" where
  "PROM_DECISIONS = [''allow'', ''halt'', ''halted'', ''degrade'', ''deny'', ''denied'', ''retry'',
     ''quarantine'', ''queue'', ''error'', ''ok'', ''unknown'']"

definition MAX_CHAIN_IDS :: nat where "MAX_CHAIN_IDS = 1000"
definition CHAIN_ID_MAX_LEN :: nat where "CHAIN_ID_MAX_LEN = 32"

definition safe_get :: "(pyval \<Rightarrow> string) \<Rightarrow> (string, pyval) pydict \<Rightarrow> string \<Rightarrow> string" where
  "safe_get rp payload key =
     (case dget_default payload key VNone of
        VNone \<Rightarrow> ''unknown''
      | v \<Rightarrow> if v = VStr [] then ''unknown'' else py_str rp v)"

definition normalize_decision :: "string \<Rightarrow> string" where
  "normalize_decision v = (if v \<in> set PROM_DECISIONS then v else ''unknown'')"

definition track_chain :: "client \<Rightarrow> string \<Rightarrow> metrics_state \<Rightarrow> string result \<times> metrics_state" where
  "track_chain cl c s =
     (if c = ''unknown'' then (Inr c, s)
      else if c \<in> set (me_seen_chains s) then (Inr c, s)
      else if MAX_CHAIN_IDS \<le> length (me_seen_chains s) then (Inr ''overflow'', s)
      else (let (r, s1) = call_client cl (Inc ''active_chains'' [] 1)
                  (s\<lparr>me_seen_chains := me_seen_chains s @ [c]\<rparr>) in
            case r of Inl e \<Rightarrow> (Inl e, s1) | Inr _ \<Rightarrow> (Inr c, s1)))"

definition with_chain :: "client \<Rightarrow> string \<Rightarrow> (string \<Rightarrow> handler) \<Rightarrow> handler" where
  "with_chain cl raw f s = (let (r, s1) = track_chain cl raw s in
     case r of Inl e \<Rightarrow> (Inl e, s1) | Inr c \<Rightarrow> f c s1)"

definition raw_chain :: "(pyval \<Rightarrow> string) \<Rightarrow> (string, pyval) pydict \<Rightarrow> string" where
  "raw_chain rp payload = take CHAIN_ID_MAX_LEN (safe_get rp payload ''chain_id'')"

definition observe_duration :: "client \<Rightarrow> string \<Rightarrow> (string, pyval) pydict \<Rightarrow> handler" where
  "observe_duration cl c payload =
     swallow [KeyError, TypeError, ValueError]
       (with_value (rbind (item payload ''elapsed_ms'') to_float) (\<lambda>elapsed.
          then_do (call_client cl (Labels ''step_duration_seconds'' [(''chain_id'', VStr c)]))
            (call_client cl (Observe ''step_duration_seconds'' [(''chain_id'', VStr c)]
               (fquot elapsed (Fin 1000))))))"

definition prom_step_completed :: "(pyval \<Rightarrow> string) \<Rightarrow> client \<Rightarrow> (string, pyval) pydict \<Rightarrow> handler" where
  "prom_step_completed rp cl payload =
     (let status = safe_get rp payload ''status'' in
      with_chain cl (raw_chain rp payload) (\<lambda>c.
        then_do (labelled_inc cl ''step_completed_total''
            [(''chain_id'', VStr c), (''decision_type'', VStr (normalize_decision status))])
       (then_do (if status = ''halted'' then labelled_inc cl ''halt_total'' [(''chain_id'', VStr c)]
                 else done_with (Inr ()))
       (then_do (if truthy (dget_default payload ''degraded'' VNone)
                 then labelled_inc cl ''degrade_total'' [(''chain_id'', VStr c)] else done_with (Inr ()))
          (observe_duration cl c payload)))))"

definition prom_step_denied :: "(pyval \<Rightarrow> string) \<Rightarrow> client \<Rightarrow> (string, pyval) pydict \<Rightarrow> handler" where
  "prom_step_denied rp cl payload =
     with_chain cl (raw_chain rp payload) (\<lambda>c.
       labelled_inc cl ''step_denied_total''
         [(''chain_id'', VStr c), (''decision_type'', VStr (normalize_decision (safe_get rp payload ''status'')))])"

definition prometheus_call :: "(pyval \<Rightarrow> string) \<Rightarrow> client \<Rightarrow> string \<Rightarrow> (string, pyval) pydict \<Rightarrow> handler" where
  \<comment> \<open>every exception is swallowed\<close>
  "prometheus_call rp cl event_type payload s =
     (Inr (), snd ((if event_type = ''step_completed'' then prom_step_completed rp cl payload
                    else if event_type = ''step_denied'' then prom_step_denied rp cl payload
                    else done_with (Inr ())) s))"

section \<open>MetricsSubscriber\<close>

definition METRIC_STAGES :: "string list" where
  "METRIC_STAGES = [''collector'', ''analyzer'', ''cost_model'', ''planner'', ''arbiter'', ''store'', ''emit'',
     ''org_policy'']"

definition METRICS_MICRO :: pyfloat where "METRICS_MICRO = Fin 1000000"

definition or_unknown :: "(string, pyval) pydict \<Rightarrow> string \<Rightarrow> string \<times> pyval" where
  "or_unknown payload key = (key, dget_default payload key (VStr ''unknown''))"

definition metrics_step_denied :: "client \<Rightarrow> (string, pyval) pydict \<Rightarrow> handler" where
  "metrics_step_denied cl payload = labelled_inc cl ''denied_total'' [or_unknown payload ''kind'']"

fun observe_stages :: "client \<Rightarrow> (string, pyval) pydict \<Rightarrow> handler" where
  "observe_stages cl [] = done_with (Inr ())"
| "observe_stages cl ((stage, ms) # d) =
     then_do
       (if stage \<notin> set METRIC_STAGES then done_with (Inr ())
        else swallow [TypeError, ValueError]
          (then_do (call_client cl (Labels ''stage_elapsed_ms'' [(''stage'', VStr stage)]))
            (with_value (to_float ms) (\<lambda>x.
               call_client cl (Observe ''stage_elapsed_ms'' [(''stage'', VStr stage)] x)))))
       (observe_stages cl d)"

fun dict_items :: "pyval \<Rightarrow> (string, pyval) pydict result" where
  \<comment> \<open>\<open>.items()\<close>\<close>
  "dict_items (VDict d) = Inr d"
| "dict_items _ = Inl AttributeError"

definition cost_micros :: "(string, pyval) pydict \<Rightarrow> int result" where
  \<comment> \<open>\<open>round(float(payload["cost_usd"]) * _MICRO)\<close>\<close>
  "cost_micros payload =
     rbind (rbind (item payload ''cost_usd'') to_float) (\<lambda>x. fround (fmul x METRICS_MICRO))"

definition metrics_step_completed :: "client \<Rightarrow> (string, pyval) pydict \<Rightarrow> handler" where
  "metrics_step_completed cl payload =
     then_do (labelled_inc cl ''steps_total''
         (map (or_unknown payload) [''status'', ''kind'', ''recommendation'', ''risk_level'']))
    (then_do (swallow [KeyError, TypeError, ValueError]
         (then_do (call_client cl (Labels ''step_elapsed_ms'' [or_unknown payload ''kind'']))
           (with_value (rbind (item payload ''elapsed_ms'') to_float) (\<lambda>x.
              call_client cl (Observe ''step_elapsed_ms'' [or_unknown payload ''kind''] x)))))
    (then_do (with_value (dict_items (dget_default payload ''stage_time_ms'' (VDict []))) (observe_stages cl))
    (then_do (swallow [KeyError, TypeError, ValueError]
         (with_value (cost_micros payload) (\<lambda>n. call_client cl (Inc ''cost_microusd_total'' [] n))))
      (if truthy (dget_default payload ''degraded'' VNone)
       then (let reason = dget_default payload ''degrade_reason'' (VStr ''other'') in
             if truthy reason then labelled_inc cl ''degrade_total'' [(''degrade_reason'', reason)]
             else done_with (Inr ()))
       else done_with (Inr ())))))"

definition metrics_call :: "client \<Rightarrow> string \<Rightarrow> (string, pyval) pydict \<Rightarrow> handler" where
  "metrics_call cl event_type payload =
     (if event_type = ''step_completed'' then metrics_step_completed cl payload
      else if event_type = ''step_denied'' then metrics_step_denied cl payload
      else done_with (Inr ()))"

section \<open>Bounded label values\<close>

text \<open>
  An invariant of handlers: the calls so far use only known decisions and the chains seen (or one
  of the two stand-ins), and every chain seen was counted once unless the client refused.
\<close>

definition labels_of :: "metric_call \<Rightarrow> (string \<times> pyval) list" where
  "labels_of m = (case m of Labels _ ls \<Rightarrow> ls | Inc _ ls _ \<Rightarrow> ls | Observe _ ls _ \<Rightarrow> ls)"

definition prom_labels_ok :: "metrics_state \<Rightarrow> bool" where
  "prom_labels_ok s \<longleftrightarrow> distinct (me_seen_chains s) \<and> length (me_seen_chains s) \<le> MAX_CHAIN_IDS \<and>
     (\<forall>c \<in> set (me_seen_chains s). length c \<le> CHAIN_ID_MAX_LEN) \<and>
     (\<forall>m \<in> set (me_calls s). \<forall>(k, v) \<in> set (labels_of m).
        k = ''chain_id'' \<and> v \<in> VStr ` (set (me_seen_chains s) \<union> {''unknown'', ''overflow''}) \<or>
        k = ''decision_type'' \<and> v \<in> VStr ` set PROM_DECISIONS)"

definition keeps :: "(metrics_state \<Rightarrow> bool) \<Rightarrow> handler \<Rightarrow> bool" where
  "keeps P f \<longleftrightarrow> (\<forall>s. P s \<longrightarrow> P (snd (f s)))"

lemma keeps_then [intro]: "keeps P f \<Longrightarrow> keeps P g \<Longrightarrow> keeps P (then_do f g)"
  by (auto simp: keeps_def then_do_def Let_def split: prod.splits sum.splits)

lemma keeps_swallow [intro]: "keeps P f \<Longrightarrow> keeps P (swallow es f)"
  by (auto simp: keeps_def swallow_def Let_def split: prod.splits sum.splits)

lemma keeps_done [simp, intro]: "keeps P (done_with r)"
  by (simp add: keeps_def done_with_def)

lemma keeps_with_value [intro]: "(\<And>x. keeps P (f x)) \<Longrightarrow> keeps P (with_value r f)"
  by (simp add: with_value_def split: sum.splits)

definition prom_ok :: "string \<Rightarrow> metrics_state \<Rightarrow> bool" where
  "prom_ok c s \<longleftrightarrow> prom_labels_ok s \<and> c \<in> set (me_seen_chains s) \<union> {''unknown'', ''overflow''}"

lemma keeps_call:
  assumes "\<forall>(k, v) \<in> set (labels_of m). k = ''chain_id'' \<and> v = VStr c \<or>
    k = ''decision_type'' \<and> v \<in> VStr ` set PROM_DECISIONS"
  shows "keeps (prom_ok c) (call_client cl m)"
  using assms by (auto simp: keeps_def prom_ok_def prom_labels_ok_def call_client_def split: sum.splits)

lemma keeps_inc:
  assumes "\<forall>(k, v) \<in> set ls. k = ''chain_id'' \<and> v = VStr c \<or>
    k = ''decision_type'' \<and> v \<in> VStr ` set PROM_DECISIONS"
  shows "keeps (prom_ok c) (labelled_inc cl name ls)"
  unfolding labelled_inc_def using assms by (intro keeps_then keeps_call) (simp_all add: labels_of_def)

lemma normalize_known [simp]: "VStr (normalize_decision v) \<in> VStr ` set PROM_DECISIONS"
  by (auto simp: normalize_decision_def PROM_DECISIONS_def)

lemma prom_labels_ok_more:
  assumes "prom_labels_ok s" "c \<notin> set (me_seen_chains s)" "length (me_seen_chains s) < MAX_CHAIN_IDS"
    and "length c \<le> CHAIN_ID_MAX_LEN"
  shows "prom_labels_ok (s\<lparr>me_seen_chains := me_seen_chains s @ [c]\<rparr>)"
  using assms unfolding prom_labels_ok_def by (fastforce simp: image_Un)

lemma keeps_gauge: "keeps (prom_ok c) (call_client cl (Inc name [] n))"
  by (rule keeps_call) (simp add: labels_of_def)

lemma track_chain_ok:
  assumes "prom_labels_ok s" "length c \<le> CHAIN_ID_MAX_LEN"
  shows "prom_labels_ok (snd (track_chain cl c s)) \<and>
    (\<forall>c'. fst (track_chain cl c s) = Inr c' \<longrightarrow> prom_ok c' (snd (track_chain cl c s)))"
proof (cases "c = ''unknown'' \<or> c \<in> set (me_seen_chains s) \<or> MAX_CHAIN_IDS \<le> length (me_seen_chains s)")
  case True
  then show ?thesis using assms(1) by (auto simp: track_chain_def prom_ok_def)
next
  case False
  let ?s = "s\<lparr>me_seen_chains := me_seen_chains s @ [c]\<rparr>"
  have "prom_ok c ?s"
    using prom_labels_ok_more [OF assms(1) _ _ assms(2)] False by (simp add: prom_ok_def)
  then have ok: "prom_ok c (snd (call_client cl (Inc ''active_chains'' [] 1) ?s))"
    using keeps_gauge unfolding keeps_def by blast
  have "track_chain cl c s =
      (case fst (call_client cl (Inc ''active_chains'' [] 1) ?s) of Inl e \<Rightarrow> Inl e | Inr _ \<Rightarrow> Inr c,
       snd (call_client cl (Inc ''active_chains'' [] 1) ?s))"
    using False by (simp add: track_chain_def case_prod_beta Let_def split: sum.splits)
  with ok show ?thesis by (auto simp: prom_ok_def split: sum.splits)
qed

lemma keeps_with_chain:
  assumes "length c \<le> CHAIN_ID_MAX_LEN" "\<And>c. keeps (prom_ok c) (f c)"
  shows "keeps prom_labels_ok (with_chain cl c f)"
  unfolding keeps_def
proof (intro allI impI)
  fix s assume "prom_labels_ok s"
  note t = track_chain_ok [OF this assms(1), of cl]
  show "prom_labels_ok (snd (with_chain cl c f s))"
  proof (cases "fst (track_chain cl c s)")
    case (Inl e)
    then show ?thesis using t by (simp add: with_chain_def case_prod_beta)
  next
    case (Inr c')
    then have "prom_ok c' (snd (f c' (snd (track_chain cl c s))))"
      using t assms(2) by (auto simp: keeps_def)
    then show ?thesis using Inr by (simp add: with_chain_def case_prod_beta prom_ok_def)
  qed
qed

lemma prometheus_keeps: "prom_labels_ok s \<Longrightarrow> prom_labels_ok (snd (prometheus_call rp cl t payload s))"
proof -
  have "keeps (prom_ok c) (observe_duration cl c payload)" for c
    unfolding observe_duration_def
    by (intro keeps_swallow keeps_with_value keeps_then keeps_call) (simp_all add: labels_of_def)
  then have "keeps prom_labels_ok (prom_step_completed rp cl payload)"
    unfolding prom_step_completed_def Let_def
    by (intro keeps_with_chain keeps_then) (auto intro!: keeps_inc simp: raw_chain_def)
  moreover have "keeps prom_labels_ok (prom_step_denied rp cl payload)"
    unfolding prom_step_denied_def
    by (intro keeps_with_chain keeps_inc) (auto simp: raw_chain_def)
  ultimately show "prom_labels_ok s \<Longrightarrow> ?thesis"
    by (simp add: prometheus_call_def keeps_def done_with_def)
qed

fun prometheus_all :: "(pyval \<Rightarrow> string) \<Rightarrow> client \<Rightarrow> (string \<times> (string, pyval) pydict) list \<Rightarrow> metrics_state \<Rightarrow> metrics_state" where
  "prometheus_all rp cl [] s = s"
| "prometheus_all rp cl ((t, payload) # evs) s = prometheus_all rp cl evs (snd (prometheus_call rp cl t payload s))"

lemma prometheus_all_keeps: "prom_labels_ok s \<Longrightarrow> prom_labels_ok (prometheus_all rp cl evs s)"
  by (induction rp cl evs s rule: prometheus_all.induct) (simp_all add: prometheus_keeps)

definition no_metrics :: metrics_state where
  "no_metrics = \<lparr>me_calls = [], me_seen_chains = []\<rparr>"

definition label_values :: "string \<Rightarrow> metric_call list \<Rightarrow> pyval set" where
  "label_values key ms = {v. \<exists>m \<in> set ms. (key, v) \<in> set (labels_of m)}"

lemma prom_chain_labels:
  assumes "prom_labels_ok s"
  shows "finite (label_values ''chain_id'' (me_calls s)) \<and> card (label_values ''chain_id'' (me_calls s)) \<le> 1002 \<and>
    label_values ''decision_type'' (me_calls s) \<subseteq> VStr ` set PROM_DECISIONS"
proof -
  let ?L = "VStr ` (set (me_seen_chains s) \<union> {''unknown'', ''overflow''})"
  have calls: "\<forall>m \<in> set (me_calls s). \<forall>x \<in> set (labels_of m).
      fst x = ''chain_id'' \<and> snd x \<in> ?L \<or> fst x = ''decision_type'' \<and> snd x \<in> VStr ` set PROM_DECISIONS"
    using assms unfolding prom_labels_ok_def case_prod_beta by blast
  then have sub: "label_values ''chain_id'' (me_calls s) \<subseteq> ?L"
    and dec: "label_values ''decision_type'' (me_calls s) \<subseteq> VStr ` set PROM_DECISIONS"
    unfolding label_values_def by fastforce+
  have "card ?L \<le> card (set (me_seen_chains s) \<union> {''unknown'', ''overflow''})"
    by (rule card_image_le) simp
  also have "\<dots> \<le> card (set (me_seen_chains s)) + card {''unknown'', ''overflow''}"
    by (rule card_Un_le)
  also have "\<dots> \<le> 1002"
    using assms by (simp add: prom_labels_ok_def distinct_card MAX_CHAIN_IDS_def)
  finally show ?thesis
    using card_mono [OF _ sub] finite_subset [OF sub] dec by simp
qed

section \<open>Costs that cannot be counted\<close>

lemma then_do_error: "fst (f s) = Inl e \<Longrightarrow> then_do f g s = (Inl e, snd (f s))"
  by (simp add: then_do_def case_prod_beta)

text \<open>
  An infinite cost makes \<open>round\<close> raise \<open>OverflowError\<close>, which the handler does not catch: the
  callback fails (if not earlier).
\<close>

lemma infinite_cost_raises:
  assumes "dget payload ''cost_usd'' = Some (VFloat PInf)"
  shows "\<exists>e. fst (metrics_call cl ''step_completed'' payload s) = Inl e"
proof -
  have "cost_micros payload = Inl OverflowError"
    using assms by (simp add: cost_micros_def item_def METRICS_MICRO_def finf_def)
  then have fails: "\<exists>e. fst (then_do (swallow [KeyError, TypeError, ValueError]
      (with_value (cost_micros payload) (\<lambda>n. call_client cl (Inc ''cost_microusd_total'' [] n)))) g s) = Inl e" for g s
    by (simp add: then_do_def swallow_def with_value_def done_with_def)
  have chain: "\<exists>e. fst (then_do f g s) = Inl e" if "\<And>s. \<exists>e. fst (g s) = Inl e" for f g s
    using that by (auto simp: then_do_def case_prod_beta split: sum.splits)
  show ?thesis
    unfolding metrics_call_def metrics_step_completed_def if_P [OF refl]
    by (intro chain fails)
qed

end
