(* ===== verification/Metric_Registration.thy ===== *)
theory Metric_Registration
  imports Metrics Orchestrator
begin

text \<open>
  How the two metrics subscribers get their collectors (the \<open>__init__\<close> methods and \<open>_get_or_create\<close> of
  \<open>veronica/metrics/prometheus_subscriber.py\<close> and \<open>veronica/metrics_subscriber.py\<close>): by name from a
  registry, which by default is the one of the process, and created only where the registry has
  none of that name. Creating a collector is the client library's: \<open>mk\<close> is the registry afterwards,
  or what the constructor raises.
\<close>

section \<open>Collectors by name\<close>

datatype metric_kind = Counter | Histogram | Gauge

record metric_collector =
  mc_kind :: metric_kind
  mc_labels :: "string list"
  mc_buckets :: "pyfloat list"

type_synonym prom_registry = "(string, metric_collector) pydict"
type_synonym collector_factory = "prom_registry \<Rightarrow> string \<Rightarrow> metric_collector \<Rightarrow> prom_registry result"

definition get_or_create ::
  "collector_factory \<Rightarrow> prom_registry \<Rightarrow> string \<Rightarrow> metric_collector \<Rightarrow> (metric_collector \<times> prom_registry) result" where
  "get_or_create mk reg name c =
     (case dget reg name of
        Some existing \<Rightarrow> Inr (existing, reg)
      | None \<Rightarrow> rbind (mk reg name c) (\<lambda>reg'. Inr (c, reg')))"

fun get_collectors ::
  "collector_factory \<Rightarrow> string \<Rightarrow> (string \<times> metric_collector) list \<Rightarrow> prom_registry \<Rightarrow>
   ((string, metric_collector) pydict \<times> prom_registry) result" where
  \<comment> \<open>the assignments of \<open>__init__\<close> in order; the names without the prefix\<close>
  "get_collectors mk pfx [] reg = Inr ([], reg)"
| "get_collectors mk pfx ((n, c) # cs) reg =
     rbind (get_or_create mk reg (pfx @ ''_'' @ n) c) (\<lambda>(e, reg1).
     rbind (get_collectors mk pfx cs reg1) (\<lambda>(es, reg2). Inr ((n, e) # es, reg2)))"

section \<open>The collectors of the two subscribers\<close>

definition DURATION_BUCKETS :: "pyfloat list" where
  "DURATION_BUCKETS = map flit [1 / 1000, 5 / 1000, 1 / 100, 25 / 1000, 5 / 100, 1 / 10, 25 / 100, 5 / 10, 1, 25 / 10, 5, 10]"

definition counter :: "string list \<Rightarrow> metric_collector" where
  "counter ls = \<lparr>mc_kind = Counter, mc_labels = ls, mc_buckets = []\<rparr>"

definition histogram :: "string list \<Rightarrow> pyfloat list \<Rightarrow> metric_collector" where
  "histogram ls bs = \<lparr>mc_kind = Histogram, mc_labels = ls, mc_buckets = bs\<rparr>"

definition PROM_COLLECTORS :: "(string \<times> metric_collector) list" where
  "PROM_COLLECTORS =
     [(''step_completed_total'', counter [''chain_id'', ''decision_type'']),
      (''step_denied_total'', counter [''chain_id'', ''decision_type'']),
      (''halt_total'', counter [''chain_id'']),
      (''degrade_total'', counter [''chain_id'']),
      (''step_duration_seconds'', histogram [''chain_id''] DURATION_BUCKETS),
      (''active_chains'', \<lparr>mc_kind = Gauge, mc_labels = [], mc_buckets = []\<rparr>)]"

definition METRIC_COLLECTORS :: "(string \<times> metric_collector) list" where
  "METRIC_COLLECTORS =
     [(''steps_total'', counter [''status'', ''kind'', ''recommendation'', ''risk_level'']),
      (''step_elapsed_ms'', histogram [''kind''] (map Fin [10, 50, 100, 500, 1000, 5000, 10000])),
      (''stage_elapsed_ms'', histogram [''stage''] (map Fin [1, 5, 10, 20, 50, 100, 250, 500, 1000, 5000])),
      (''cost_microusd_total'', counter []),
      (''degrade_total'', counter [''degrade_reason'']),
      (''denied_total'', counter [''kind''])]"

definition new_prometheus_subscriber ::
  "collector_factory \<Rightarrow> string \<Rightarrow> prom_registry \<Rightarrow> ((string, metric_collector) pydict \<times> prom_registry) result" where
  "new_prometheus_subscriber mk pfx reg = get_collectors mk pfx PROM_COLLECTORS reg"

definition new_metrics_subscriber ::
  "collector_factory \<Rightarrow> string \<Rightarrow> prom_registry \<Rightarrow> ((string, metric_collector) pydict \<times> prom_registry) result" where
  "new_metrics_subscriber mk pfx reg = get_collectors mk pfx METRIC_COLLECTORS reg"

section \<open>What the client library promises\<close>

text \<open>
  A collector is registered under its own name and the names of its series, and what was registered
  before stays (the constructor raises when a name is taken).
\<close>

definition series_base :: "string \<Rightarrow> string" where
  "series_base name = (if drop (length name - 6) name = ''_total'' then take (length name - 6) name else name)"

definition series_names :: "string \<Rightarrow> string list" where
  "series_names name =
     name # map (\<lambda>x. series_base name @ x) [[], ''_total'', ''_created'', ''_sum'', ''_count'', ''_bucket'']"

definition registers :: "collector_factory \<Rightarrow> bool" where
  "registers mk \<longleftrightarrow> (\<forall>reg name c reg'. mk reg name c = Inr reg' \<longrightarrow>
     dget reg' name = Some c \<and> (\<forall>n e. dget reg n = Some e \<longrightarrow> dget reg' n = Some e) \<and>
     (\<forall>n. n \<notin> set (series_names name) \<longrightarrow> dget reg' n = dget reg n))"

text \<open>\<open>labels(**kw)\<close> raises \<open>ValueError\<close> unless the keywords are the collector's label names.\<close>

definition checks_labels :: "(string, metric_collector) pydict \<Rightarrow> client \<Rightarrow> bool" where
  "checks_labels es cl \<longleftrightarrow> (\<forall>name ls c. dget es name = Some c \<longrightarrow>
     set (map fst ls) \<noteq> set (mc_labels c) \<longrightarrow> cl (Labels name ls) = Inl ValueError)"

lemma get_or_create_found:
  assumes "registers mk" "get_or_create mk reg name c = Inr (e, reg')" "dget reg name = None \<or> dget reg name = Some x"
  shows "dget reg' name = Some e \<and> (\<forall>n y. dget reg n = Some y \<longrightarrow> dget reg' n = Some y) \<and>
    (dget reg name = None \<longrightarrow> e = c) \<and> (dget reg name = Some x \<longrightarrow> e = x) \<and>
    (\<forall>n. n \<notin> set (series_names name) \<longrightarrow> dget reg' n = dget reg n)"
proof (cases "dget reg name")
  case None
  then have "mk reg name c = Inr reg'" "e = c"
    using assms(2) by (auto simp: get_or_create_def rbind_Inr_iff)
  then show ?thesis using assms(1) None unfolding registers_def by auto
next
  case (Some y)
  then show ?thesis using assms(2,3) by (auto simp: get_or_create_def)
qed

lemma get_or_create_name:
  assumes "registers mk" "get_or_create mk reg name c = Inr (e, reg')"
  shows "dget reg' name = Some e" "dget reg n = Some y \<Longrightarrow> dget reg' n = Some y"
    "dget reg name = None \<Longrightarrow> e = c" "dget reg name = Some y \<Longrightarrow> e = y"
    "n \<notin> set (series_names name) \<Longrightarrow> dget reg' n = dget reg n"
  using get_or_create_found [OF assms] by (metis option.exhaust)+

lemma get_collectors_keep:
  assumes "registers mk"
  shows "get_collectors mk pfx cs reg = Inr (es, reg') \<Longrightarrow> dget reg n = Some x \<Longrightarrow> dget reg' n = Some x"
proof (induction cs arbitrary: reg es)
  case (Cons nc cs)
  then show ?case
    by (cases nc) (fastforce simp: rbind_Inr_iff dest: get_or_create_name(2) [OF assms])
qed simp

text \<open>
  A subscriber ends with the collectors the registry has under the prefixed names afterwards: those
  that were there, and its own where no series of that name was.
\<close>

lemma get_collectors_found:
  assumes "registers mk"
  shows "get_collectors mk pfx cs reg = Inr (es, reg') \<Longrightarrow> dget es n = Some e \<Longrightarrow>
    dget reg' (pfx @ ''_'' @ n) = Some e"
proof (induction cs arbitrary: reg es)
  case (Cons nc cs)
  obtain k c where nc: "nc = (k, c)" by (cases nc)
  from Cons.prems(1) obtain e1 reg1 es1 where
    1: "get_or_create mk reg (pfx @ ''_'' @ k) c = Inr (e1, reg1)"
    and 2: "get_collectors mk pfx cs reg1 = Inr (es1, reg')" and es: "es = (k, e1) # es1"
    by (auto simp: nc rbind_Inr_iff)
  show ?case
  proof (cases "n = k")
    case True
    then have "dget reg1 (pfx @ ''_'' @ n) = Some e"
      using get_or_create_name(1) [OF assms 1] Cons.prems(2) es by simp
    then show ?thesis by (rule get_collectors_keep [OF assms 2])
  next
    case False
    then show ?thesis using Cons.IH [OF 2] Cons.prems(2) es by simp
  qed
qed simp

lemma get_collectors_shared:
  assumes "registers mk"
  shows "get_collectors mk pfx cs reg = Inr (es, reg') \<Longrightarrow> dget reg (pfx @ ''_'' @ n) = Some e \<Longrightarrow>
    n \<in> fst ` set cs \<Longrightarrow> dget es n = Some e"
proof (induction cs arbitrary: reg es)
  case (Cons nc cs)
  obtain k c where nc: "nc = (k, c)" by (cases nc)
  from Cons.prems(1) obtain e1 reg1 es1 where
    1: "get_or_create mk reg (pfx @ ''_'' @ k) c = Inr (e1, reg1)"
    and 2: "get_collectors mk pfx cs reg1 = Inr (es1, reg')" and es: "es = (k, e1) # es1"
    by (auto simp: nc rbind_Inr_iff)
  have keep: "dget reg1 (pfx @ ''_'' @ n) = Some e"
    using get_or_create_name(2) [OF assms 1 Cons.prems(2)] .
  show ?case
  proof (cases "n = k")
    case True
    then show ?thesis using get_or_create_name(4) [OF assms 1] Cons.prems(2) es by simp
  next
    case False
    then show ?thesis using Cons.IH [OF 2 keep] Cons.prems(3) es nc by auto
  qed
qed simp

lemma get_collectors_fresh:
  assumes "registers mk"
  shows "get_collectors mk pfx (cs @ (n, c) # ds) reg = Inr (es, reg') \<Longrightarrow>
    dget reg (pfx @ ''_'' @ n) = None \<Longrightarrow> n \<notin> fst ` set cs \<Longrightarrow>
    \<forall>k \<in> fst ` set cs. pfx @ ''_'' @ n \<notin> set (series_names (pfx @ ''_'' @ k)) \<Longrightarrow> dget es n = Some c"
proof (induction cs arbitrary: reg es)
  case Nil
  then show ?case using get_or_create_name(3) [OF assms] by (auto simp: rbind_Inr_iff)
next
  case (Cons nc cs)
  obtain k x where nc: "nc = (k, x)" by (cases nc)
  from Cons.prems(1) obtain e1 reg1 es1 where
    1: "get_or_create mk reg (pfx @ ''_'' @ k) x = Inr (e1, reg1)"
    and 2: "get_collectors mk pfx (cs @ (n, c) # ds) reg1 = Inr (es1, reg')" and es: "es = (k, e1) # es1"
    by (auto simp: nc rbind_Inr_iff)
  have "dget reg1 (pfx @ ''_'' @ n) = None"
    using get_or_create_name(5) [OF assms 1] Cons.prems(2,4) nc by simp
  from Cons.IH [OF 2 this] show ?case using Cons.prems(3,4) es nc by simp
qed

section \<open>Both subscribers on one registry\<close>

text \<open>Both ask for a counter named \<open>degrade_total\<close>, with different labels.\<close>

lemma metrics_degrade:
  assumes "registers mk" "new_metrics_subscriber mk pfx reg = Inr (es, reg')"
    and "dget reg (pfx @ ''_degrade_total'') = None"
  shows "dget reg' (pfx @ ''_degrade_total'') = Some (counter [''degrade_reason''])"
proof -
  have "dget es ''degrade_total'' = Some (counter [''degrade_reason''])"
    using assms(2,3) unfolding new_metrics_subscriber_def METRIC_COLLECTORS_def
    by (intro get_collectors_fresh [OF assms(1), where cs = "take 4 METRIC_COLLECTORS"
        and ds = "[(''denied_total'', counter [''kind''])]"])
      (auto simp: METRIC_COLLECTORS_def series_names_def series_base_def)
  then show ?thesis
    using get_collectors_found [OF assms(1)] assms(2) unfolding new_metrics_subscriber_def by fastforce
qed

lemma prometheus_degrade:
  assumes "registers mk" "new_prometheus_subscriber mk pfx reg = Inr (es, reg')"
    and "dget reg (pfx @ ''_degrade_total'') = None"
  shows "dget reg' (pfx @ ''_degrade_total'') = Some (counter [''chain_id''])"
proof -
  have "dget es ''degrade_total'' = Some (counter [''chain_id''])"
    using assms(2,3) unfolding new_prometheus_subscriber_def PROM_COLLECTORS_def
    by (intro get_collectors_fresh [OF assms(1), where cs = "take 3 PROM_COLLECTORS"
        and ds = "drop 4 PROM_COLLECTORS"])
      (auto simp: PROM_COLLECTORS_def series_names_def series_base_def)
  then show ?thesis
    using get_collectors_found [OF assms(1)] assms(2) unfolding new_prometheus_subscriber_def by fastforce
qed

text \<open>A second subscriber of the same class shares every collector of the first.\<close>

lemma get_collectors_existing:
  "map fst es = map fst cs \<Longrightarrow> \<forall>(n, e) \<in> set es. dget reg (pfx @ ''_'' @ n) = Some e \<Longrightarrow>
   get_collectors mk pfx cs reg = Inr (es, reg)"
proof (induction cs arbitrary: es)
  case (Cons nc cs)
  then obtain e es1 where es: "es = (fst nc, e) # es1" "map fst es1 = map fst cs"
    by (cases es) auto
  then have "get_collectors mk pfx cs reg = Inr (es1, reg)" using Cons by auto
  moreover have "get_or_create mk reg (pfx @ ''_'' @ fst nc) (snd nc) = Inr (e, reg)"
    using Cons.prems es by (simp add: get_or_create_def)
  ultimately show ?case using es(1) by (cases nc) simp
qed simp

lemma get_collectors_names:
  "get_collectors mk pfx cs reg = Inr (es, reg') \<Longrightarrow> map fst es = map fst cs"
proof (induction cs arbitrary: reg es)
  case (Cons nc cs)
  then show ?case by (cases nc) (fastforce simp: rbind_Inr_iff)
qed simp

lemma get_collectors_total:
  assumes "\<And>reg name c. dget reg name = None \<Longrightarrow> \<exists>reg'. mk reg name c = Inr reg'"
  shows "get_collectors mk pfx cs reg = Inr (fst (projr (get_collectors mk pfx cs reg)),
    snd (projr (get_collectors mk pfx cs reg)))"
proof -
  have "\<exists>x. get_collectors mk pfx cs reg = Inr x"
  proof (induction cs arbitrary: reg)
    case (Cons nc cs)
    have "\<exists>e reg1. get_or_create mk reg (pfx @ ''_'' @ fst nc) (snd nc) = Inr (e, reg1)"
      using assms [of reg "pfx @ ''_'' @ fst nc" "snd nc"]
      by (cases "dget reg (pfx @ ''_'' @ fst nc)") (auto simp: get_or_create_def)
    then obtain e reg1 where 1: "get_or_create mk reg (pfx @ ''_'' @ fst nc) (snd nc) = Inr (e, reg1)" by blast
    moreover obtain es reg2 where "get_collectors mk pfx cs reg1 = Inr (es, reg2)" using Cons by force
    ultimately show ?case by (cases nc) simp
  qed simp
  then show ?thesis by auto
qed

lemma get_collectors_again:
  assumes "registers mk" "get_collectors mk pfx cs reg = Inr (es, reg')" "distinct (map fst cs)"
  shows "get_collectors mk pfx cs reg' = Inr (es, reg')"
proof (rule get_collectors_existing [OF get_collectors_names [OF assms(2)]])
  have "distinct (map fst es)" using get_collectors_names [OF assms(2)] assms(3) by simp
  then show "\<forall>(n, e) \<in> set es. dget reg' (pfx @ ''_'' @ n) = Some e"
    using get_collectors_found [OF assms(1,2)] by fastforce
qed

section \<open>Degraded steps with the wrong collector\<close>

lemma labels_refused:
  "checks_labels es cl \<Longrightarrow> dget es name = Some (counter ls') \<Longrightarrow> set (map fst ls) \<noteq> set ls' \<Longrightarrow>
   labelled_inc cl name ls s = (Inl ValueError, s)"
  unfolding checks_labels_def labelled_inc_def then_do_def call_client_def
  by (fastforce simp: counter_def split: sum.splits)

text \<open>The effect of a handler on the calls made: more of them, each with a property.\<close>

definition only_calls :: "(metric_call \<Rightarrow> bool) \<Rightarrow> handler \<Rightarrow> bool" where
  "only_calls P f \<longleftrightarrow> (\<forall>s. \<exists>ms. me_calls (snd (f s)) = me_calls s @ ms \<and> (\<forall>m \<in> set ms. P m))"

lemma only_calls_then [intro]: "only_calls P f \<Longrightarrow> only_calls P g \<Longrightarrow> only_calls P (then_do f g)"
  unfolding only_calls_def
proof
  fix s
  assume f: "\<forall>s. \<exists>ms. me_calls (snd (f s)) = me_calls s @ ms \<and> (\<forall>m \<in> set ms. P m)"
    and g: "\<forall>s. \<exists>ms. me_calls (snd (g s)) = me_calls s @ ms \<and> (\<forall>m \<in> set ms. P m)"
  obtain ms where 1: "me_calls (snd (f s)) = me_calls s @ ms" "\<forall>m \<in> set ms. P m" using f by blast
  obtain ms' where 2: "me_calls (snd (g (snd (f s)))) = me_calls (snd (f s)) @ ms'" "\<forall>m \<in> set ms'. P m"
    using g by blast
  show "\<exists>ms. me_calls (snd (then_do f g s)) = me_calls s @ ms \<and> (\<forall>m \<in> set ms. P m)"
  proof (cases "fst (f s)")
    case (Inl e)
    then show ?thesis using 1 by (auto simp: then_do_def case_prod_beta)
  next
    case (Inr x)
    then have "me_calls (snd (then_do f g s)) = me_calls s @ (ms @ ms')"
      using 1 2 by (simp add: then_do_def case_prod_beta)
    then show ?thesis using 1(2) 2(2) by fastforce
  qed
qed

lemma only_calls_call: "P m \<Longrightarrow> only_calls P (call_client cl m)"
  by (auto simp: only_calls_def call_client_def split: sum.splits)

lemma only_calls_done [simp, intro]: "only_calls P (done_with r)"
  by (simp add: only_calls_def done_with_def)

lemma only_calls_inc: "P (Labels name ls) \<Longrightarrow> P (Inc name ls 1) \<Longrightarrow> only_calls P (labelled_inc cl name ls)"
  unfolding labelled_inc_def by (intro only_calls_then only_calls_call)

lemma only_calls_refused:
  assumes "\<And>s. f s = (Inl e, s)"
  shows "only_calls P (then_do f g)"
  by (simp add: only_calls_def then_do_def assms)

lemma only_calls_with_chain:
  assumes "\<And>c. only_calls P (f c)" "P (Inc ''active_chains'' [] 1)"
  shows "only_calls P (with_chain cl raw f)"
  unfolding only_calls_def
proof
  fix s
  have "\<exists>ms. me_calls (snd (track_chain cl raw s)) = me_calls s @ ms \<and> (\<forall>m \<in> set ms. P m)"
    using assms(2) by (auto simp: track_chain_def call_client_def case_prod_beta Let_def split: sum.splits)
  then obtain ms where 1: "me_calls (snd (track_chain cl raw s)) = me_calls s @ ms" "\<forall>m \<in> set ms. P m" by blast
  show "\<exists>ms. me_calls (snd (with_chain cl raw f s)) = me_calls s @ ms \<and> (\<forall>m \<in> set ms. P m)"
  proof (cases "fst (track_chain cl raw s)")
    case (Inl e)
    then show ?thesis using 1 by (auto simp: with_chain_def case_prod_beta)
  next
    case (Inr c)
    obtain ms' where "me_calls (snd (f c (snd (track_chain cl raw s)))) =
        me_calls (snd (track_chain cl raw s)) @ ms'" "\<forall>m \<in> set ms'. P m"
      using assms(1) [of c] unfolding only_calls_def by blast
    then have "me_calls (snd (with_chain cl raw f s)) = me_calls s @ (ms @ ms')"
      using 1 Inr by (simp add: with_chain_def case_prod_beta)
    then show ?thesis using 1(2) \<open>\<forall>m \<in> set ms'. P m\<close> by fastforce
  qed
qed

definition hides_degraded :: "metric_call \<Rightarrow> bool" where
  \<comment> \<open>no degraded step counted, no duration observed\<close>
  "hides_degraded m \<longleftrightarrow> (case m of
     Inc n _ _ \<Rightarrow> n \<noteq> ''degrade_total'' | Observe n _ _ \<Rightarrow> n \<noteq> ''step_duration_seconds'' | Labels _ _ \<Rightarrow> True)"

lemma prometheus_hides:
  assumes "checks_labels es cl" "dget es ''degrade_total'' = Some (counter [''degrade_reason''])"
    and "truthy (dget_default payload ''degraded'' VNone)"
  shows "only_calls hides_degraded (prometheus_call rp cl ''step_completed'' payload)"
proof -
  have "labelled_inc cl ''degrade_total'' [(''chain_id'', VStr c)] s = (Inl ValueError, s)" for c s
    by (rule labels_refused [OF assms(1,2)]) simp
  then have "only_calls hides_degraded (prom_step_completed rp cl payload)"
    unfolding prom_step_completed_def Let_def if_P [OF assms(3)]
    by (intro only_calls_with_chain only_calls_then [OF only_calls_inc]
          only_calls_then [OF _ only_calls_refused])
      (auto simp: hides_degraded_def intro!: only_calls_inc)
  then show ?thesis by (simp add: only_calls_def prometheus_call_def)
qed

lemma metrics_degraded_raises:
  assumes "checks_labels es cl" "dget es ''degrade_total'' = Some (counter [''chain_id''])"
    and "truthy (dget_default payload ''degraded'' VNone)"
    and "truthy (dget_default payload ''degrade_reason'' (VStr ''other''))"
  shows "\<exists>e. fst (metrics_call cl ''step_completed'' payload s) = Inl e"
proof -
  have refused: "labelled_inc cl ''degrade_total'' [(''degrade_reason'', r)] s = (Inl ValueError, s)" for r s
    by (rule labels_refused [OF assms(1,2)]) simp
  have chain: "\<exists>e. fst (then_do f g s) = Inl e" if "\<And>s. \<exists>e. fst (g s) = Inl e" for f g s
    using that by (auto simp: then_do_def case_prod_beta split: sum.splits)
  show ?thesis
    unfolding metrics_call_def metrics_step_completed_def if_P [OF refl] if_P [OF assms(3)] Let_def
      if_P [OF assms(4)]
    by (intro chain) (simp add: refused)
qed

text \<open>The payload of a degraded step, as \<open>os.py\<close> emits it.\<close>

lemma completed_payload_degraded:
  assumes "dm_degraded (sh_decision_meta h)"
  shows "truthy (dget_default (completed_payload b h out a stages ph aid) ''degraded'' VNone)"
    and "truthy (dget_default (completed_payload b h out a stages ph aid) ''degrade_reason'' (VStr ''other''))"
  using assms by (simp_all add: completed_payload_def degrade_reason_def Let_def)

end
