(* ===== verification/Store_Properties.thy ===== *)
theory Store_Properties
  imports File_Statistics Pg_Connection Metric_Registration Samples
begin

text \<open>
  The properties of the three stores and of the subscribers, and of their composition with the
  analyzers, the planner, the emitter and the orchestrator. The properties of the stores are
  instances of one theorem of the locale \<open>store_contract\<close>: the view of a chain after any run of
  commits is that of its most recent accepted outcomes.
\<close>

abbreviation of_chain :: "string \<Rightarrow> step_outcome list \<Rightarrow> step_outcome list" where
  "of_chain c \<equiv> filter (\<lambda>out. so_chain_id out = c)"


section \<open>The in-memory store\<close>

lemma memory_empty_view: "memory_build_history new_memory_store c l = Inr h \<Longrightarrow> hv_last_n h = []"
  using memory_build_ok by (fastforce simp: memory_build_eq chain_outcomes_def new_memory_store_def
      history_of_def take_last_def)

lemma memory_view_is_history: "memory_build_history s c l = Inr h \<Longrightarrow> h = history_of c (hv_last_n h)"
  using memory_build_ok by (fastforce simp: memory_build_eq history_of_def)

text \<open>C26: after any run of commits to the chains of an empty \<open>MemoryStore\<close>, some of them rejected, the
  history view of a chain is that of its most recent accepted outcomes in order, as many as the
  limit (clamped to 1 .. 50000) allows.\<close>

theorem memory_history_is_recent:
  assumes "\<forall>x \<in> set xs. chain_id_ok (so_chain_id (fst x))" "chain_id_ok c"
  shows "memory_build_history (snd (commit_all memory_commit new_memory_store xs)) c limit =
    Inr (history_of c (take_last (clamp_limit limit MAX_OUTCOMES_PER_CHAIN)
      (of_chain c (fst (commit_all memory_commit new_memory_store xs)))))"
proof -
  have "\<forall>x \<in> set xs. memory_admits (fst x)" using assms(1) by (simp add: memory_admits_def)
  from memory.history_from_empty [OF memory_inv_init this assms(2) TrueI memory_empty_view, of limit]
  show ?thesis using memory_view_is_history by (fastforce simp: list.rel_eq)
qed

lemma sample_chain: "chain_id_ok ''c1''" "chain_id_ok (so_chain_id sample_outcome)"
  by (code_simp, simp add: sample_outcome_def, code_simp)

theorem memory_history_is_recent_witness:
  "memory_build_history (snd (commit_all memory_commit new_memory_store
      (replicate 3 (sample_outcome, sample_analysis)))) ''c1'' 2 =
     Inr (history_of ''c1'' [sample_outcome, sample_outcome])"
proof -
  let ?xs = "replicate 3 (sample_outcome, sample_analysis)"
  have ok: "\<forall>x \<in> set ?xs. chain_id_ok (so_chain_id (fst x))" using sample_chain by simp
  have run: "fst (commit_all memory_commit new_memory_store ?xs) = [sample_outcome, sample_outcome, sample_outcome]"
    using sample_chain by (simp add: numeral_3_eq_3 memory_commit_def new_memory_store_def
        validate_chain_id_def MAX_CHAINS_def Let_def case_prod_beta)
  have "clamp_limit 2 MAX_OUTCOMES_PER_CHAIN = 2" "so_chain_id sample_outcome = ''c1''"
    by (simp_all add: clamp_limit_def MAX_OUTCOMES_PER_CHAIN_def sample_outcome_def)
  then show ?thesis
    using memory_history_is_recent [OF ok sample_chain(1), of 2] by (simp add: run take_last_def)
qed

section \<open>The PostgreSQL store\<close>

lemma pg_view_of_commits:
  "\<exists>h outs. pg_build_history True (snd (commit_all pg_commit new_pg_store xs)) c limit = Inr h \<and>
     list_all2 pg_reads (of_chain c (fst (commit_all pg_commit new_pg_store xs))) outs \<and>
     hv_last_n h = take_last (clamp_limit limit PG_MAX_OUTCOMES) outs"
proof (rule pg.history_from_empty)
  show "pg_inv new_pg_store" by (simp add: pg_inv_def new_pg_store_def)
  show "hv_last_n h = []" if "pg_build_history True new_pg_store c limit = Inr h" for h
    using that by (auto simp: pg_build_history_def new_pg_store_def select_recent_def pg_history_def)
qed simp_all

text \<open>C31: whatever sessions ran on an empty PostgreSQL database, with starts that failed for want of the
  driver, the pool or the schema, and commits the database refused, a store that is then opened shows
  for each chain one outcome for each of the most recent outcomes accepted in all the sessions, in
  order, equal to it up to what the store does not keep: the request, the events, the time, a kind
  or status it does not know, and a cost that is not finite.\<close>

theorem pg_history_across_restarts:
  assumes "fst (pg_init driver answers dsn 1 5 (fold (run_session dsn) ss empty_database)) = Inr s"
    and "writes = concat (map (session_commits dsn) ss)"
  shows "\<exists>h outs. pg_build_history True s c limit = Inr h \<and>
     list_all2 pg_reads (of_chain c (fst (commit_all pg_commit new_pg_store writes))) outs \<and>
     hv_last_n h = take_last (clamp_limit limit PG_MAX_OUTCOMES) outs"
proof -
  have "pg_opens driver answers dsn 1 5"
    using assms(1) pg_init_ok_iff [of driver answers dsn 1 5] by (metis is_ok.simps(1))
  then have "s = store_on (fold (run_session dsn) ss empty_database)"
    using assms(1) by (simp add: pg_init_opens)
  then have "s = snd (commit_all pg_commit new_pg_store writes)"
    by (simp add: store_on_sessions store_on_empty assms(2))
  then show ?thesis by (simp only: pg_view_of_commits)
qed

definition sample_driver :: pg_driver where [sample_defs]:
  "sample_driver = \<lparr>dr_open = (\<lambda>_ _ _. Inr ()), dr_close = Inr ()\<rparr>"

definition sample_schema_run :: schema_run where [sample_defs]:
  "sample_schema_run =
     \<lparr>sr_connection = True, sr_policies = True, sr_events = True, sr_commit = True, sr_applied = True\<rparr>"

definition sample_write :: pg_write where [sample_defs]:
  "sample_write =
     \<lparr>pw_analysis = sample_analysis, pw_cost = fallback_cost,
      pw_meta = sh_decision_meta (denied_handle (Fin 0) sample_intent []), pw_created_ms = 0, pw_ok = True\<rparr>"

definition sample_sessions :: "pg_session list" where
  "sample_sessions =
     [(Some sample_driver, sample_schema_run, [(sample_outcome, sample_write)]),
      (None, sample_schema_run, [(sample_outcome, sample_write)]),
      (Some sample_driver, sample_schema_run, [(sample_outcome, sample_write)])]"

lemma sample_opens: "pg_opens (Some sample_driver) sample_schema_run dsn 1 5"
  by (simp add: pg_opens_def sample_defs)

theorem pg_history_across_restarts_witness:
  "\<exists>h outs. pg_build_history True (store_on (fold (run_session ''db'') sample_sessions empty_database)) ''c'' 10 = Inr h \<and>
     list_all2 pg_reads (of_chain ''c'' (fst (commit_all pg_commit new_pg_store
       [(sample_outcome, sample_write), (sample_outcome, sample_write)]))) outs \<and>
     hv_last_n h = take_last (clamp_limit 10 PG_MAX_OUTCOMES) outs"
proof (rule pg_history_across_restarts)
  show "fst (pg_init (Some sample_driver) sample_schema_run ''db'' 1 5
      (fold (run_session ''db'') sample_sessions empty_database)) =
    Inr (store_on (fold (run_session ''db'') sample_sessions empty_database))"
    by (simp add: pg_init_opens [OF sample_opens])
  show "[(sample_outcome, sample_write), (sample_outcome, sample_write)] =
      concat (map (session_commits ''db'') sample_sessions)"
    by (simp add: sample_sessions_def sample_opens) (simp add: pg_opens_def)
qed

section \<open>The file store\<close>

lemma open_empty_inv:
  assumes "open_file_store f m [] [] = Inr s"
  shows "file_inv m s" "stats_inv s" "fs_chain_stats s = []" "fs_files s = []"
  using assms by (auto simp: open_file_store_def file_inv_def stats_inv_def new_chain_stats_def)

lemma file_empty_view:
  "open_file_store f m [] [] = Inr s \<Longrightarrow> file_build_history s c l = Inr h \<Longrightarrow> hv_last_n h = []"
  by (auto simp: file_build_history_def load_recent_def read_jsonl_def open_empty_inv take_last_def
      file_history_def rbind_Inr_iff)


definition all_io_ok :: file_io where [sample_defs]:
  "all_io_ok = \<lparr>io_append = True, io_unlink = True, io_rename = True, io_flush = True\<rparr>"

definition sample_file_store :: file_store where [sample_defs]:
  "sample_file_store = \<lparr>fs_flush_interval = 10, fs_max_lines = 2, fs_chain_stats = [],
     fs_budget_ceiling = None, fs_budget_remaining = None, fs_files = [], fs_stats_files = []\<rparr>"

lemma sample_open: "open_file_store 10 2 [] [] = Inr sample_file_store"
  by (simp add: open_file_store_def sample_file_store_def)

lemma sample_admits: "file_admits sample_outcome"
proof -
  have "file_names ''c1''" using sample_chain(1) by (simp add: file_names_def suffix_def)
  then show ?thesis
    by (simp add: file_admits_def sample_outcome_def float_of_int_def)
qed


text \<open>C28: the statistics a \<open>FileStore\<close> reports for a chain are those of all its accepted outcomes since
  the store was opened on an empty directory, also of those no longer on disk: the two streaks,
  the moving average of the cost, and, as long as at most 1000 models were seen, the average of
  each model over its own outcomes.\<close>

theorem file_statistics_are_exact:
  assumes "open_file_store f m [] [] = Inr s"
    and "file_build_history (snd (commit_all file_commit s xs)) c limit = Inr h"
  shows "let outs = of_chain c (fst (commit_all file_commit s xs)) in
    hv_failure_streak h = trailing failed_outcome outs \<and>
    hv_success_streak h = trailing (Not \<circ> failed_outcome) outs \<and>
    hv_cost_per_step_ema h = cost_average outs \<and>
    (card (stats_key ` set outs) \<le> MAX_MODELS_PER_CHAIN \<longrightarrow>
      (\<forall>out \<in> set outs. dget (hv_cost_per_step_ema_by_model h) (stats_key out) =
         Some (cost_average (filter (\<lambda>o'. stats_key o' = stats_key out) outs))))"
proof -
  let ?s = "snd (commit_all file_commit s xs)"
  have "stats_exact (stats_of ?s c) (of_chain c (fst (commit_all file_commit s xs)))"
    using file_run_stats [of s "\<lambda>_. []" xs c] stats_exact_new open_empty_inv(3) [OF assms(1)] by simp
  moreover have "\<exists>last_n. h = file_history c (stats_of ?s c) last_n"
    using assms(2) by (auto simp: file_build_history_def rbind_Inr_iff simp del: dget_default.simps)
  ultimately show ?thesis
    by (auto simp: Let_def stats_exact_def file_history_def models_exact_def)
qed

lemma sample_file_history:
  obtains h where "file_build_history (snd (commit_all file_commit sample_file_store
      (replicate 3 (sample_outcome, sample_analysis, all_io_ok)))) ''c1'' 2 = Inr h"
proof -
  have inv: "file_inv 2 (snd (commit_all file_commit sample_file_store xs))"
    if "\<forall>x \<in> set xs. file_admits (fst x)" for xs
    using that open_empty_inv(1) [OF sample_open]
  proof (induction xs rule: rev_induct)
    case Nil
    then show ?case by simp
  next
    case (snoc x xs)
    have "snd (commit_all file_commit s (xs @ [(out, y)])) = snd (file_commit (snd (commit_all file_commit s xs)) out y)"
      for s out y
      by (induction xs arbitrary: s) (auto simp: case_prod_beta Let_def)
    then show ?case using snoc by (cases x) (simp add: file_commit_inv)
  qed
  have "\<forall>x \<in> set (replicate 3 (sample_outcome, sample_analysis, all_io_ok)). file_admits (fst x)"
    by (simp add: sample_admits)
  from file_build_view [OF inv [OF this] sample_chain(1), of 2] show ?thesis by (rule that)
qed

theorem file_statistics_are_exact_witness:
  "\<exists>h. file_build_history (snd (commit_all file_commit sample_file_store
      (replicate 3 (sample_outcome, sample_analysis, all_io_ok)))) ''c1'' 2 = Inr h \<and>
    hv_failure_streak h = trailing failed_outcome
      (of_chain ''c1'' (fst (commit_all file_commit sample_file_store
        (replicate 3 (sample_outcome, sample_analysis, all_io_ok)))))"
proof -
  obtain h where h: "file_build_history (snd (commit_all file_commit sample_file_store
      (replicate 3 (sample_outcome, sample_analysis, all_io_ok)))) ''c1'' 2 = Inr h"
    by (rule sample_file_history)
  from file_statistics_are_exact [OF sample_open this] h show ?thesis by (auto simp: Let_def)
qed

text \<open>C29: closing a \<open>FileStore\<close> and opening another on the same directory, whatever its parameters,
  loses nothing: every chain has the same history and the same statistics, provided they are
  finite and the stats files can be written.\<close>

theorem file_store_reopens:
  assumes "open_file_store f m files stats_files = Inr s0" "wf_dict stats_files"
    and "s = snd (commit_all file_commit s0 xs)"
    and "\<And>c st. dget (fs_chain_stats s) c = Some st \<Longrightarrow> finite_stats st"
  shows "\<exists>s'. open_file_store f' m' (fs_files s) (fs_stats_files (file_close (\<lambda>_. True) s)) = Inr s' \<and>
    (\<forall>c l. file_build_history s' c l = file_build_history s c l)"
  using stats_inv_run [OF open_stats_inv [OF assms(1,2)], of xs] assms(3,4)
  by (intro reopen_after_close) auto

lemma sample_commit_stats:
  "fs_chain_stats (snd (file_commit sample_file_store sample_outcome (sample_analysis, all_io_ok))) =
    [(''c1'', (update_stats sample_outcome None None new_chain_stats)\<lparr>ct_since_rotate := 1\<rparr>)]"
  using sample_chain
  by (simp add: file_commit_def validate_chain_id_def sample_file_store_def all_io_ok_def FILE_MAX_CHAINS_def
      rotation_check_def Let_def new_chain_stats_def)
    (simp add: sample_outcome_def)

lemma eps_positive: "flt (Fin 0) EMA_EPS"
proof -
  have small: "rnd (1 / 2 ^ 60) = Fin (1 / 2 ^ 60)"
    by (rule rnd_dyadic [of _ 1 "- 60"]) (simp_all add: pow2_def)
  have "fle (Fin (1 / 2 ^ 60)) EMA_EPS"
    unfolding EMA_EPS_def flit_def small [symmetric] by (rule rnd_mono) simp
  then show ?thesis by (rule flt_fle_trans [rotated]) simp
qed

lemma sample_finite:
  "finite_stats ((update_stats sample_outcome None None new_chain_stats)\<lparr>ct_since_rotate := 1\<rparr>)"
  by (simp add: finite_stats_def update_stats_def update_models_def update_streaks_def update_headroom_def
      new_chain_stats_def sample_outcome_def ema_def safe_cost_def MAX_MODELS_PER_CHAIN_def Let_def eps_positive)

theorem file_store_reopens_witness:
  "\<exists>s'. open_file_store 1 5
      (fs_files (snd (file_commit sample_file_store sample_outcome (sample_analysis, all_io_ok))))
      (fs_stats_files (file_close (\<lambda>_. True)
        (snd (file_commit sample_file_store sample_outcome (sample_analysis, all_io_ok))))) = Inr s' \<and>
    (\<forall>c l. file_build_history s' c l =
       file_build_history (snd (file_commit sample_file_store sample_outcome (sample_analysis, all_io_ok))) c l)"
proof (rule file_store_reopens [OF sample_open wf_dict_Nil])
  show "snd (file_commit sample_file_store sample_outcome (sample_analysis, all_io_ok)) =
      snd (commit_all file_commit sample_file_store [(sample_outcome, sample_analysis, all_io_ok)])"
    by (simp add: case_prod_beta Let_def)
  show "finite_stats st"
    if "dget (fs_chain_stats (snd (file_commit sample_file_store sample_outcome (sample_analysis, all_io_ok)))) c = Some st"
    for c st
    using that sample_finite unfolding sample_commit_stats by (simp split: if_splits)
qed

text \<open>C30: rotating the file of a chain \<open>X\<close> overwrites the active file of the chain \<open>X.1\<close>: after a commit
  to \<open>X\<close> that rotates, the store shows as history of \<open>X.1\<close> outcomes of \<open>X\<close>, ending in the one just
  committed, and what was committed to \<open>X.1\<close> is gone.\<close>

theorem file_rotation_replaces_sibling:
  assumes "file_inv m s" "file_admits out" "fst (file_commit s out (a, io)) = Inr ()"
    and "io_unlink io" "io_rename io" "m \<le> int (length (active_lines (fs_files s) (so_chain_id out)) + 1)"
    and "chain_id_ok (so_chain_id out @ ''.1'')"
  shows "\<exists>h. file_build_history (snd (file_commit s out (a, io))) (so_chain_id out @ ''.1'') limit = Inr h \<and>
    last (hv_last_n h) = file_norm out \<and> hv_last_n h \<noteq> [] \<and>
    read_jsonl (fs_files (snd (file_commit s out (a, io)))) (active_name (so_chain_id out @ ''.1'')) =
      Inr (line_outcomes (active_lines (fs_files s) (so_chain_id out)) @ [file_norm out])"
proof -
  let ?s = "snd (file_commit s out (a, io))" and ?c = "so_chain_id out @ ''.1''"
  have inv: "file_inv m ?s" using assms(1,2) by (rule file_commit_inv)
  have "line_outcomes (active_lines (fs_files ?s) ?c) =
      line_outcomes (active_lines (fs_files s) (so_chain_id out)) @ [file_norm out]"
    unfolding rotation_takes_sibling [OF assms(1-6)] by (simp add: read_back [OF assms(2)])
  moreover have "read_jsonl (fs_files ?s) (active_name ?c) = Inr (line_outcomes (active_lines (fs_files ?s) ?c))"
    unfolding read_jsonl_def by (rule read_lines_readable [OF file_inv_readable [OF inv]])
  moreover obtain k where "clamp_limit limit MAX_HISTORY_LIMIT = Suc k"
    using clamp_limit_pos [of limit MAX_HISTORY_LIMIT] by (cases "clamp_limit limit MAX_HISTORY_LIMIT") auto
  ultimately show ?thesis
    using file_build_view [OF inv assms(7), of limit]
    by (simp add: file_history_def take_last_snoc append_assoc [symmetric] del: append_assoc)
qed

definition one_line_store :: file_store where [sample_defs]:
  "one_line_store = sample_file_store\<lparr>fs_max_lines := 1\<rparr>"

theorem file_rotation_replaces_sibling_witness:
  "\<exists>h. file_build_history (snd (file_commit one_line_store sample_outcome (sample_analysis, all_io_ok)))
      ''c1.1'' 50 = Inr h \<and> last (hv_last_n h) = file_norm sample_outcome"
proof -
  have open1: "open_file_store 10 1 [] [] = Inr one_line_store"
    by (simp add: open_file_store_def one_line_store_def sample_file_store_def)
  have c: "so_chain_id sample_outcome = ''c1''" by (simp add: sample_outcome_def)
  have ok: "fst (file_commit one_line_store sample_outcome (sample_analysis, all_io_ok)) = Inr ()"
    using sample_chain
    by (simp add: file_commit_def validate_chain_id_def one_line_store_def sample_file_store_def
        all_io_ok_def FILE_MAX_CHAINS_def Let_def case_prod_beta)
  have "chain_id_ok (so_chain_id sample_outcome @ ''.1'')"
    unfolding c by code_simp
  from file_rotation_replaces_sibling [OF open_empty_inv(1) [OF open1] sample_admits ok _ _ _ this, of 50]
  show ?thesis unfolding c by (auto simp: all_io_ok_def)
qed

text \<open>While every call to the file system succeeds neither of the two files of a chain ever holds
  more lines than the limit.\<close>

theorem file_sizes_bounded:
  assumes "open_file_store f m [] [] = Inr s" "0 < m" "file_names c"
    and "\<forall>(out, a, io) \<in> set xs. file_admits out \<and> io_unlink io \<and> io_rename io"
  shows "int (length (active_lines (fs_files (snd (commit_all file_commit s xs))) c)) < m \<and>
    int (length (rotated_lines (fs_files (snd (commit_all file_commit s xs))) c)) \<le> m"
proof -
  have "files_bounded m (fs_files (snd (commit_all file_commit s xs))) c"
    if "file_inv m s" "files_bounded m (fs_files s) c" for s
    using that assms(4)
  proof (induction xs arbitrary: s)
    case (Cons x xs)
    obtain out a io where x: "x = (out, a, io)" by (cases x)
    with Cons.prems(3) have ok: "file_admits out" "io_unlink io" "io_rename io" by auto
    show ?case
      using Cons.IH [OF file_commit_inv [OF Cons.prems(1) ok(1)]
          file_commit_bounded [OF Cons.prems(1) ok(1) assms(2,3) ok(2,3) Cons.prems(2)]] Cons.prems(3)
      by (simp add: x case_prod_beta Let_def)
  qed simp
  then show ?thesis
    using open_empty_inv [OF assms(1)] assms(2) by (simp add: files_bounded_def)
qed

theorem file_sizes_bounded_witness:
  "int (length (active_lines (fs_files (snd (commit_all file_commit sample_file_store
     (replicate 3 (sample_outcome, sample_analysis, all_io_ok))))) ''c1'')) < 2"
proof -
  have "file_names ''c1''" using sample_admits by (simp add: file_admits_def sample_outcome_def)
  from file_sizes_bounded [OF sample_open _ this, of "replicate 3 (sample_outcome, sample_analysis, all_io_ok)"]
  show ?thesis using sample_admits by (simp add: all_io_ok_def)
qed

section \<open>Stores, analyzers and planner\<close>

text \<open>On the view a \<open>FileStore\<close> gives it, the loop detection of \<open>HistoryAnalyzer\<close> fires exactly when
  the view has at least three outcomes and one combination of kind, model and status makes up at
  least seven tenths of the last ten: the rounding of the two floats it compares does not matter.\<close>

theorem loop_detection_at_seven_tenths:
  assumes "file_build_history s c limit = Inr h"
  shows "loop_detection h =
    (if 3 \<le> length (hv_last_n h) \<and>
        (\<exists>k. 7 * length (take_last 10 (hv_last_n h)) \<le> 10 * count_list (map loop_key (take_last 10 (hv_last_n h))) k)
     then ([\<lparr>sg_kind = ''loop_detection'', sg_severity = Warning,
              sg_detail = ''loop_score='' @ fmt_fixed 2 (hv_loop_score h)\<rparr>], [Tighten]) else ([], []))"
proof -
  have "hv_loop_score h = loop_score (hv_last_n h)"
    using assms by (auto simp: file_build_history_def file_history_def rbind_Inr_iff)
  then show ?thesis by (simp only: loop_detection_def loop_detection_share)
qed

theorem loop_detection_at_seven_tenths_witness:
  "\<exists>h. file_build_history sample_file_store ''c1'' 50 = Inr h \<and> loop_detection h = ([], [])"
proof -
  have inv: "file_inv 2 sample_file_store" using open_empty_inv(1) [OF sample_open] .
  obtain h where h: "file_build_history sample_file_store ''c1'' 50 = Inr h"
    using file_build_view [OF inv sample_chain(1)] by blast
  with file_empty_view [OF sample_open] have "hv_last_n h = []" by blast
  with loop_detection_at_seven_tenths [OF h] h show ?thesis by simp
qed






section \<open>FileStore in the pipeline\<close>

text \<open>With a \<open>FileStore\<close> in the pipeline, committing a step gives the chain the headroom ratio of the
  request budget as it stands after the step, when both are finite and the budget is not zero, and
  consumes the context: it is not applied to a later commit.\<close>

theorem commit_records_headroom:
  assumes "pp_set_budget_context pp = Some set_budget_context"
    and "pp_commit pp = (\<lambda>s out a h. file_commit s out (a, io))"
    and "commit_step pp out a h os = (Inr (), os')"
    and "isfinite (os_request_budget_usd os)" "flt EMA_EPS (os_request_budget_usd os)"
    and "isfinite (fsub (os_request_budget_usd os) (os_total_spent_usd os))"
  shows "ct_headroom (stats_of (os_store os') (so_chain_id out)) =
      fquot (fsub (os_request_budget_usd os) (os_total_spent_usd os)) (os_request_budget_usd os) \<and>
    fs_budget_ceiling (os_store os') = None \<and> fs_budget_remaining (os_store os') = None"
proof -
  let ?st = "set_budget_context (os_store os) (os_request_budget_usd os)
      (fsub (os_request_budget_usd os) (os_total_spent_usd os))"
  have ok: "fst (file_commit ?st out (a, io)) = Inr ()"
    and store: "os_store os' = snd (file_commit ?st out (a, io))"
    using assms(3) by (auto simp: commit_step_def assms(1,2) Let_def case_prod_beta
        split: sum.splits option.splits)
  have used: "fs_budget_ceiling (os_store os') = None" "fs_budget_remaining (os_store os') = None"
    using ok unfolding store
    by (auto simp: file_commit_def Let_def split: sum.splits if_splits prod.splits)
  obtain st' files' where r: "rotation_check io (fs_max_lines ?st) (so_chain_id out)
       (update_stats out (fs_budget_ceiling ?st) (fs_budget_remaining ?st) (stats_of ?st (so_chain_id out)))
       (dput (fs_files ?st) (active_name (so_chain_id out))
          (active_lines (fs_files ?st) (so_chain_id out) @ [Line (record_of out a)])) = (st', files')"
    and s': "fs_chain_stats (snd (file_commit ?st out (a, io))) = dput (fs_chain_stats ?st) (so_chain_id out) st'"
    using file_commit_effect [OF ok] by metis
  have "ct_headroom st' = ct_headroom (update_stats out (fs_budget_ceiling ?st) (fs_budget_remaining ?st)
      (stats_of ?st (so_chain_id out)))"
    using rotation_check_effect [OF r] by auto
  also have "\<dots> = fquot (fsub (os_request_budget_usd os) (os_total_spent_usd os)) (os_request_budget_usd os)"
    using assms(4-6) by (simp add: update_stats_def update_headroom_def set_budget_context_def Let_def)
  finally show ?thesis using used by (simp add: store s')
qed

definition file_pipeline :: "(unit, unit, file_store, unit) pipeline" where [sample_defs]:
  "file_pipeline =
     \<lparr>pp_collect = collect 0, pp_analyze = (\<lambda>i out h. Inr (history_analyze i out h)),
      pp_estimate = (\<lambda>i h a. Inr (regression_estimate (\<lambda>_. False) (\<lambda>_ _ _. Fin 0) i h a)),
      pp_plan = (\<lambda>_ a c b. (Inr sample_desire, ())), pp_arbitrate = (\<lambda>_ ds b. (passthrough_arbitrate (Fin 0) ds b, ())),
      pp_set_context = None, pp_settle = None, pp_build_history = file_build_history,
      pp_set_budget_context = Some set_budget_context,
      pp_commit = (\<lambda>s out a h. file_commit s out (a, all_io_ok)),
      pp_close = Some (\<lambda>s. (Inr (), file_close (\<lambda>_. True) s)),
      pp_emit = (\<lambda>_ t p. (Inr (), ()))\<rparr>"

theorem commit_records_headroom_witness:
  "ct_headroom (stats_of (os_store (snd (commit_step file_pipeline sample_outcome sample_analysis
     (denied_handle (Fin 0) sample_intent ''x'') (new_os () () sample_file_store () None (Fin 5) None)))) ''c1'') = Fin 1"
proof -
  let ?os = "new_os () () sample_file_store () None (Fin 5) None"
    and ?h = "denied_handle (Fin 0) sample_intent ''x''"
  have c: "so_chain_id sample_outcome = ''c1''" by (simp add: sample_outcome_def)
  have ok: "commit_step file_pipeline sample_outcome sample_analysis ?h ?os =
      (Inr (), snd (commit_step file_pipeline sample_outcome sample_analysis ?h ?os))"
    using sample_chain
    by (simp add: commit_step_def file_pipeline_def new_os_def file_commit_def validate_chain_id_def
        sample_file_store_def set_budget_context_def all_io_ok_def FILE_MAX_CHAINS_def Let_def case_prod_beta)
  have five: "flt EMA_EPS (Fin 5)"
  proof -
    have "fle EMA_EPS (rnd 1)" unfolding EMA_EPS_def flit_def by (rule rnd_mono) simp
    then show ?thesis by (auto intro: fle_flt_trans)
  qed
  show ?thesis
    using commit_records_headroom [OF _ _ ok, of all_io_ok] five
    by (simp add: c file_pipeline_def new_os_def fsub_def)
qed

section \<open>Subscribers\<close>

text \<open>C33: over any sequence of events, whatever their payloads and whatever calls the client library
  refused, \<open>PrometheusSubscriber\<close> has used at most 1002 values for the chain label and only known
  decisions.\<close>

theorem prometheus_labels_bounded:
  "finite (label_values ''chain_id'' (me_calls (prometheus_all rp cl evs no_metrics))) \<and>
   card (label_values ''chain_id'' (me_calls (prometheus_all rp cl evs no_metrics))) \<le> 1002 \<and>
   label_values ''decision_type'' (me_calls (prometheus_all rp cl evs no_metrics)) \<subseteq> VStr ` set PROM_DECISIONS"
proof -
  have "prom_labels_ok no_metrics" by (simp add: prom_labels_ok_def no_metrics_def)
  from prom_chain_labels [OF prometheus_all_keeps [OF this]] show ?thesis .
qed

text \<open>The orchestrator's \<open>step_denied\<close> payload has no status, so \<open>PrometheusSubscriber\<close> counts
  every denied step under the decision \<open>unknown\<close>, never \<open>denied\<close>.\<close>

theorem denied_steps_count_as_unknown:
  "prometheus_call rp (\<lambda>_. Inr ()) ''step_denied'' (denied_payload i reason) s =
     (case track_chain (\<lambda>_. Inr ()) (take 32 (if si_chain_id i = [] then ''unknown'' else si_chain_id i)) s of
        (Inl e, s1) \<Rightarrow> (Inr (), s1)
      | (Inr c, s1) \<Rightarrow>
          (Inr (), s1\<lparr>me_calls := me_calls s1 @
             [Labels ''step_denied_total'' [(''chain_id'', VStr c), (''decision_type'', VStr ''unknown'')],
              Inc ''step_denied_total'' [(''chain_id'', VStr c), (''decision_type'', VStr ''unknown'')] 1]\<rparr>))"
  by (simp add: prometheus_call_def prom_step_denied_def with_chain_def raw_chain_def safe_get_def
      denied_payload_def normalize_decision_def PROM_DECISIONS_def CHAIN_ID_MAX_LEN_def labelled_inc_def
      then_do_def call_client_def Let_def split: prod.splits sum.splits)

text \<open>A subscriber that fails on three consecutive events is gone, whatever the events around them.\<close>

lemma three_failures_unsubscribe:
  assumes "em_wf em" "dget (em_subscribers em) name = Some cb"
    and "\<not> calls cb ev1" "\<not> calls cb ev2" "\<not> calls cb ev3"
  shows "dget (em_subscribers (emit_all calls (before @ [ev1, ev2, ev3] @ after) em)) name = None"
proof -
  have fails: "map (calls cb) [ev1, ev2, ev3] = [False, False, False]" using assms(3-5) by simp
  have "fail_count em name < 3"
    using assms(1) by (auto simp: em_wf_def MAX_CONSECUTIVE_FAILURES_def)
  from survives_iff [OF this, of "map (calls cb) (before @ [ev1, ev2, ev3] @ after)"]
  have "\<not> survives (fail_count em name) (map (calls cb) (before @ [ev1, ev2, ev3] @ after))"
    unfolding map_append fails by (metis append.assoc)
  then show ?thesis by (simp add: emit_all_survives [OF assms(1,2)])
qed

text \<open>Three consecutive completed steps whose cost is infinite unsubscribe \<open>MetricsSubscriber\<close> from
  the emitter, because the counter's \<open>round\<close> raises an exception the handler does not catch: no later
  step is counted.\<close>

theorem infinite_costs_unsubscribe_metrics:
  assumes "em_wf em" "dget (em_subscribers em) name = Some cb"
    and "\<And>ev. calls cb ev = is_ok (fst (metrics_call (cl ev) (fst ev) (snd ev) (s ev)))"
    and "\<forall>ev \<in> {ev1, ev2, ev3}. fst ev = ''step_completed'' \<and> dget (snd ev) ''cost_usd'' = Some (VFloat PInf)"
  shows "dget (em_subscribers (emit_all calls (before @ [ev1, ev2, ev3] @ after) em)) name = None"
proof -
  have "calls cb ev = False" if "ev \<in> {ev1, ev2, ev3}" for ev
    using infinite_cost_raises [of "snd ev" "cl ev" "s ev"] assms(4) that
    unfolding assms(3) by (metis is_ok.simps(2))
  from this [of ev1] this [of ev2] this [of ev3] show ?thesis
    using assms(1,2) by (intro three_failures_unsubscribe) simp_all
qed

definition infinite_event :: "string \<times> (string, pyval) pydict" where [sample_defs]:
  "infinite_event = (''step_completed'', [(''cost_usd'', VFloat PInf)])"

theorem infinite_costs_unsubscribe_metrics_witness:
  "dget (em_subscribers (emit_all
      (\<lambda>cb ev. is_ok (fst (metrics_call (\<lambda>_. Inr ()) (fst ev) (snd ev) no_metrics)))
      ([] @ [infinite_event, infinite_event, infinite_event] @ [])
      (subscribe ''prometheus'' (0 :: nat) (new_emitter None)))) ''prometheus'' = None"
proof (rule infinite_costs_unsubscribe_metrics)
  show "em_wf (subscribe ''prometheus'' (0 :: nat) (new_emitter None))"
    by (rule subscribe_wf, rule new_emitter_wf)
  show "dget (em_subscribers (subscribe ''prometheus'' (0 :: nat) (new_emitter None))) ''prometheus'' = Some 0"
    by (simp add: subscribe_def)
qed (simp_all add: infinite_event_def)

section \<open>Two metrics subscribers on one registry\<close>

text \<open>C34: when \<open>PrometheusSubscriber\<close> is created on the registry on which \<open>MetricsSubscriber\<close> already is
  (the default of both), it takes over the other's counter of degraded steps, whose labels it does
  not know: no degraded step the orchestrator reports is ever counted by it, and the duration of a
  degraded step is not observed either.\<close>

theorem shared_registry_hides_degraded_steps:
  assumes "registers mk" "dget reg (pfx @ ''_degrade_total'') = None"
    and "new_metrics_subscriber mk pfx reg = Inr (ms, reg1)"
    and "new_prometheus_subscriber mk pfx reg1 = Inr (ps, reg2)"
    and "checks_labels ps cl" "dm_degraded (sh_decision_meta h)"
  shows "\<exists>calls. me_calls (snd (prometheus_call rp cl ''step_completed''
      (completed_payload b h out a stages ph aid) s)) = me_calls s @ calls \<and> (\<forall>m \<in> set calls. hides_degraded m)"
proof -
  have "dget ps ''degrade_total'' = Some (counter [''degrade_reason''])"
    by (rule get_collectors_shared [OF assms(1) assms(4) [unfolded new_prometheus_subscriber_def]])
      (simp_all add: metrics_degrade [OF assms(1,3,2)] PROM_COLLECTORS_def)
  from prometheus_hides [OF assms(5) this completed_payload_degraded(1) [OF assms(6)]]
  show ?thesis by (simp add: only_calls_def)
qed

definition add_collector :: collector_factory where [sample_defs]:
  "add_collector reg name c = (if dget reg name = None then Inr (dput reg name c) else Inl ValueError)"

definition strict_client :: "(string, metric_collector) pydict \<Rightarrow> client" where [sample_defs]:
  "strict_client es m =
     (case m of
        Labels name ls \<Rightarrow>
          (case dget es name of
             Some c \<Rightarrow> if set (map fst ls) = set (mc_labels c) then Inr () else Inl ValueError
           | None \<Rightarrow> Inr ())
      | _ \<Rightarrow> Inr ())"

definition degraded_sample :: step_handle where [sample_defs]:
  "degraded_sample = denied_handle (Fin 0) sample_intent ''no''"

definition metrics_first :: "(string, metric_collector) pydict \<times> prom_registry" where [sample_defs]:
  "metrics_first = projr (new_metrics_subscriber add_collector ''veronica'' [])"

definition prometheus_second :: "(string, metric_collector) pydict \<times> prom_registry" where [sample_defs]:
  "prometheus_second = projr (new_prometheus_subscriber add_collector ''veronica'' (snd metrics_first))"

lemma add_collector_registers: "registers add_collector"
  by (auto simp: registers_def add_collector_def series_names_def split: if_splits)

lemma add_collector_accepts: "dget reg name = None \<Longrightarrow> \<exists>reg'. add_collector reg name c = Inr reg'"
  by (simp add: add_collector_def)

lemma strict_client_checks: "checks_labels es (strict_client es)"
  by (auto simp: checks_labels_def strict_client_def)

lemma degraded_sample_degraded: "dm_degraded (sh_decision_meta degraded_sample)"
  by (simp add: degraded_sample_def denied_handle_def)

lemma metrics_then_prometheus:
  "new_metrics_subscriber add_collector ''veronica'' [] = Inr (fst metrics_first, snd metrics_first)"
  "new_prometheus_subscriber add_collector ''veronica'' (snd metrics_first) =
     Inr (fst prometheus_second, snd prometheus_second)"
  unfolding metrics_first_def prometheus_second_def new_metrics_subscriber_def new_prometheus_subscriber_def
  by (rule get_collectors_total, rule add_collector_accepts, assumption)+

theorem shared_registry_hides_degraded_steps_witness:
  "\<exists>calls. me_calls (snd (prometheus_call (\<lambda>_. []) (strict_client (fst prometheus_second)) ''step_completed''
      (completed_payload DEFAULT_STAGE_BUDGETS degraded_sample sample_outcome sample_analysis [] [] []) no_metrics)) =
    me_calls no_metrics @ calls \<and> (\<forall>m \<in> set calls. hides_degraded m)"
  by (rule shared_registry_hides_degraded_steps [OF add_collector_registers _ metrics_then_prometheus
      strict_client_checks degraded_sample_degraded]) simp

text \<open>When \<open>MetricsSubscriber\<close> is the second of the two, the counter it takes over refuses its label
  with an exception its handler lets through: three consecutive degraded steps of the orchestrator
  unsubscribe it from the emitter, and no later step is counted.\<close>

theorem shared_registry_unsubscribes_metrics:
  assumes "registers mk" "dget reg (pfx @ ''_degrade_total'') = None"
    and "new_prometheus_subscriber mk pfx reg = Inr (ps, reg1)"
    and "new_metrics_subscriber mk pfx reg1 = Inr (ms, reg2)"
    and "\<And>ev. checks_labels ms (cl ev)"
    and "em_wf em" "dget (em_subscribers em) name = Some cb"
    and "\<And>ev. calls cb ev = is_ok (fst (metrics_call (cl ev) (fst ev) (snd ev) (s ev)))"
    and "\<forall>ev \<in> {ev1, ev2, ev3}. \<exists>b h out a stages ph aid. dm_degraded (sh_decision_meta h) \<and>
      ev = (''step_completed'', completed_payload b h out a stages ph aid)"
  shows "dget (em_subscribers (emit_all calls (before @ [ev1, ev2, ev3] @ after) em)) name = None"
proof -
  have "dget ms ''degrade_total'' = Some (counter [''chain_id''])"
    by (rule get_collectors_shared [OF assms(1) assms(4) [unfolded new_metrics_subscriber_def]])
      (simp_all add: prometheus_degrade [OF assms(1,3,2)] METRIC_COLLECTORS_def)
  note raises = metrics_degraded_raises [OF assms(5) this completed_payload_degraded]
  have "calls cb ev = False" if "ev \<in> {ev1, ev2, ev3}" for ev
  proof -
    from bspec [OF assms(9) that] obtain b h out a stages ph aid where d: "dm_degraded (sh_decision_meta h)"
      and ev: "ev = (''step_completed'', completed_payload b h out a stages ph aid)"
      by (elim exE conjE)
    obtain e where "fst (metrics_call (cl ev) (fst ev) (snd ev) (s ev)) = Inl e"
      unfolding ev fst_conv snd_conv using raises [OF d d] by blast
    then show ?thesis by (simp add: assms(8))
  qed
  then have "\<not> calls cb ev1" "\<not> calls cb ev2" "\<not> calls cb ev3" by simp_all
  then show ?thesis by (rule three_failures_unsubscribe [OF assms(6,7)])
qed

definition prometheus_first :: "(string, metric_collector) pydict \<times> prom_registry" where [sample_defs]:
  "prometheus_first = projr (new_prometheus_subscriber add_collector ''veronica'' [])"

definition metrics_second :: "(string, metric_collector) pydict \<times> prom_registry" where [sample_defs]:
  "metrics_second = projr (new_metrics_subscriber add_collector ''veronica'' (snd prometheus_first))"

lemma prometheus_then_metrics:
  "new_prometheus_subscriber add_collector ''veronica'' [] = Inr (fst prometheus_first, snd prometheus_first)"
  "new_metrics_subscriber add_collector ''veronica'' (snd prometheus_first) =
     Inr (fst metrics_second, snd metrics_second)"
  unfolding prometheus_first_def metrics_second_def new_metrics_subscriber_def new_prometheus_subscriber_def
  by (rule get_collectors_total, rule add_collector_accepts, assumption)+

definition degraded_event :: "string \<times> (string, pyval) pydict" where [sample_defs]:
  "degraded_event = (''step_completed'',
     completed_payload DEFAULT_STAGE_BUDGETS degraded_sample sample_outcome sample_analysis [] [] [])"

theorem shared_registry_unsubscribes_metrics_witness:
  "dget (em_subscribers (emit_all
      (\<lambda>cb ev. is_ok (fst (metrics_call (strict_client (fst metrics_second)) (fst ev) (snd ev) no_metrics)))
      ([] @ [degraded_event, degraded_event, degraded_event] @ [])
      (subscribe ''prometheus'' (0 :: nat) (new_emitter None)))) ''prometheus'' = None"
proof (rule shared_registry_unsubscribes_metrics [OF add_collector_registers _ prometheus_then_metrics])
  show "em_wf (subscribe ''prometheus'' (0 :: nat) (new_emitter None))"
    by (rule subscribe_wf, rule new_emitter_wf)
  show "dget (em_subscribers (subscribe ''prometheus'' (0 :: nat) (new_emitter None))) ''prometheus'' = Some 0"
    by (simp add: subscribe_def)
  show "\<forall>ev \<in> {degraded_event, degraded_event, degraded_event}. \<exists>b h out a stages ph aid.
      dm_degraded (sh_decision_meta h) \<and> ev = (''step_completed'', completed_payload b h out a stages ph aid)"
    unfolding degraded_event_def using degraded_sample_degraded by blast
qed (simp_all add: strict_client_checks)

end
