(* ===== verification/Policy_Audit.thy ===== *)
theory Policy_Audit
  imports Distribution "HOL-Library.Finite_Map" "HOL-Library.Word"
begin

text \<open>
  \<open>policy_audit.py\<close> on any Python object: the canonical form of a dataclass, a dictionary or anything
  else, and fresh audit identifiers. On a \<open>PolicyConfig\<close> it is the form \<open>to_canonical\<close> of \<open>Distribution\<close>.
  Two policies have the same form exactly when they agree up to the order of the entries of
  dictionaries.
\<close>

section \<open>Objects\<close>

datatype pyobj =
    ONone
  | OBool bool
  | OInt int
  | OFloat pyfloat
  | OStr string
  | OSet "pyobj list" \<comment> \<open>a set or frozenset, in the order of its iteration\<close>
  | OList "pyobj list" \<comment> \<open>a list or tuple\<close>
  | ODict "(string \<times> pyobj) list"
  | ORecord "(string \<times> pyobj) list" \<comment> \<open>a dataclass instance, its fields as declared\<close>
  | OOther nat

lemma size_dict_obj [termination_simp]:
  "(k, v) \<in> set kvs \<Longrightarrow> size v < Suc (size_list (size_prod (\<lambda>_. 0) size) kvs)"
  by (induction kvs) auto

definition is_public :: "string \<Rightarrow> bool" where
  "is_public k \<longleftrightarrow> \<not> (k \<noteq> [] \<and> hd k = CHR ''_'')"

text \<open>\<open>str_of\<close> is \<open>str\<close> of an object that is not a string.\<close>

fun obj_str :: "(pyobj \<Rightarrow> string) \<Rightarrow> pyobj \<Rightarrow> string" where
  "obj_str str_of (OStr s) = s"
| "obj_str str_of v = str_of v"

fun serialize_obj :: "(pyobj \<Rightarrow> string) \<Rightarrow> pyobj \<Rightarrow> pyobj" where
  "serialize_obj str_of (OSet xs) = OList (map OStr (sort (map (obj_str str_of) xs)))"
| "serialize_obj str_of (OList xs) = OList (map (serialize_obj str_of) xs)"
| "serialize_obj str_of (ODict kvs) = ODict (map (\<lambda>(k, v). (k, serialize_obj str_of v)) (sort_key fst kvs))"
| "serialize_obj str_of (ORecord fs) =
     ODict (map (\<lambda>(k, v). (k, serialize_obj str_of v)) (filter (is_public \<circ> fst) (sort_key fst fs)))"
| "serialize_obj str_of (OOther n) = OStr (str_of (OOther n))"
| "serialize_obj str_of v = v"

definition canonical_fields :: "(pyobj \<Rightarrow> string) \<Rightarrow> pyobj \<Rightarrow> (string \<times> pyobj) list" where
  \<comment> \<open>\<open>_to_canonical\<close>\<close>
  "canonical_fields str_of obj =
     (case obj of
        ORecord fs \<Rightarrow>
          map (\<lambda>(k, v). (k, serialize_obj str_of v)) (filter (is_public \<circ> fst) (sort_key fst fs))
      | ODict kvs \<Rightarrow> map (\<lambda>(k, v). (k, serialize_obj str_of v)) (sort_key fst kvs)
      | _ \<Rightarrow> [(''value'', OStr (obj_str str_of obj))])"

definition json_default :: "(pyobj \<Rightarrow> string) \<Rightarrow> pyobj \<Rightarrow> pyobj" where
  "json_default str_of obj = OStr (obj_str str_of obj)"

fun json_encode :: "(pyobj \<Rightarrow> string) \<Rightarrow> pyobj \<Rightarrow> pyobj" where
  \<comment> \<open>what \<open>json.dumps(v, sort_keys=True, default=_json_default)\<close> writes, as a value\<close>
  "json_encode str_of (OList xs) = OList (map (json_encode str_of) xs)"
| "json_encode str_of (ODict kvs) = ODict (map (\<lambda>(k, v). (k, json_encode str_of v)) (sort_key fst kvs))"
| "json_encode str_of (OSet xs) = json_default str_of (OSet xs)"
| "json_encode str_of (ORecord fs) = json_default str_of (ORecord fs)"
| "json_encode str_of (OOther n) = json_default str_of (OOther n)"
| "json_encode str_of v = v"

definition object_hash :: "(pyobj \<Rightarrow> string) \<Rightarrow> (pyobj \<Rightarrow> string) \<Rightarrow> pyobj \<Rightarrow> string" where
  "object_hash str_of sha_json obj = sha_json (json_encode str_of (ODict (canonical_fields str_of obj)))"

section \<open>Audit identifiers\<close>

definition uuid4 :: "128 word \<Rightarrow> 128 word" where
  \<comment> \<open>of 128 random bits: the variant and version bits are set\<close>
  "uuid4 r =
     (let v1 = or (and r (not (push_bit 48 0xc000))) (push_bit 48 0x8000) in
      or (and v1 (not (push_bit 64 0xf000))) (push_bit 76 4))"

definition hex_char :: "nat \<Rightarrow> char" where
  "hex_char d = (if d < 10 then char_of (48 + d) else char_of (87 + d))"

fun hex_fixed :: "nat \<Rightarrow> nat \<Rightarrow> string" where
  "hex_fixed 0 n = []"
| "hex_fixed (Suc d) n = hex_fixed d (n div 16) @ [hex_char (n mod 16)]"

definition new_audit_id :: "128 word \<Rightarrow> string" where
  "new_audit_id r = hex_fixed 32 (unat (uuid4 r))"

section \<open>What the forms are\<close>

fun json_ready :: "pyobj \<Rightarrow> bool" where
  \<comment> \<open>nothing in it needs the fallback of \<open>json.dumps\<close>\<close>
  "json_ready (OSet xs) = False"
| "json_ready (ORecord fs) = False"
| "json_ready (OOther n) = False"
| "json_ready (OList xs) = list_all json_ready xs"
| "json_ready (ODict kvs) = list_all (\<lambda>kv. json_ready (snd kv)) kvs"
| "json_ready _ = True"

lemma serialize_ready: "json_ready (serialize_obj str_of v)"
  by (induction str_of v rule: serialize_obj.induct) (auto simp: list_all_iff)

lemma canonical_ready: "json_ready (ODict (canonical_fields str_of obj))"
  by (cases obj) (auto simp: canonical_fields_def list_all_iff serialize_ready)

lemma sorted_filter_key: "sorted (map fst (filter P (sort_key fst kvs)))"
  by (rule sorted_filter) simp

lemma canonical_sorted: "sorted (map fst (canonical_fields str_of obj))"
  by (cases obj) (simp_all add: canonical_fields_def sorted_filter_key comp_def case_prod_beta)

lemma serialize_idem: "serialize_obj str_of (serialize_obj str_of v) = serialize_obj str_of v"
proof (induction str_of v rule: serialize_obj.induct)
  case (3 str_of kvs)
  have "sort_key fst (map (\<lambda>(k, v). (k, serialize_obj str_of v)) (sort_key fst kvs)) =
      map (\<lambda>(k, v). (k, serialize_obj str_of v)) (sort_key fst kvs)"
    by (rule sort_key_id_if_sorted) (simp add: comp_def case_prod_beta)
  with 3 show ?case by auto
next
  case (4 str_of fs)
  have "sort_key fst (map (\<lambda>(k, v). (k, serialize_obj str_of v)) (filter (is_public \<circ> fst) (sort_key fst fs))) =
      map (\<lambda>(k, v). (k, serialize_obj str_of v)) (filter (is_public \<circ> fst) (sort_key fst fs))"
    by (rule sort_key_id_if_sorted) (simp add: comp_def case_prod_beta sorted_filter_key [unfolded comp_def])
  with 4 show ?case by auto
qed auto

section \<open>The form of a policy\<close>

fun obj_of :: "pyval \<Rightarrow> pyobj" where
  "obj_of VNone = ONone"
| "obj_of (VBool b) = OBool b"
| "obj_of (VInt n) = OInt n"
| "obj_of (VFloat x) = OFloat x"
| "obj_of (VStr s) = OStr s"
| "obj_of (VList xs) = OList (map obj_of xs)"
| "obj_of (VDict kvs) = ODict (map (\<lambda>(k, v). (k, obj_of v)) kvs)"

definition policy_object :: "policy_config \<Rightarrow> pyobj" where
  "policy_object p = ORecord (map (\<lambda>(k, v). (k, obj_of v))
     [(''chain_id'', VStr (pc_chain_id p)), (''ceiling_usd'', pc_ceiling_usd p),
      (''on_exceed'', VStr (pc_on_exceed p)), (''issued_at'', pc_issued_at p),
      (''ceiling_tokens_out'', pc_ceiling_tokens_out p), (''ceiling_steps'', pc_ceiling_steps p),
      (''fallback_model'', pc_fallback_model p), (''timeout_ms'', pc_timeout_ms p),
      (''rate_window_seconds'', pc_rate_window_seconds p), (''rate_ceiling_calls'', pc_rate_ceiling_calls p),
      (''priority'', pc_priority p), (''deadline_ts'', pc_deadline_ts p),
      (''expires_at'', pc_expires_at p), (''planner_version'', pc_planner_version p)])"

lemma sort_key_map:
  fixes kvs :: "('a::linorder \<times> 'b) list" and f :: "'b \<Rightarrow> 'c"
  shows "sort_key fst (map (\<lambda>(k, v). (k, f v)) kvs) = map (\<lambda>(k, v). (k, f v)) (sort_key fst kvs)"
proof -
  have ins: "insort_key fst (k, f v) (map (\<lambda>(k, v). (k, f v)) xs) = map (\<lambda>(k, v). (k, f v)) (insort_key fst (k, v) xs)"
    for k v xs
    by (induction xs) auto
  show ?thesis by (induction kvs) (auto simp: ins)
qed

lemma serialize_obj_of: "serialize_obj str_of (obj_of v) = obj_of (serialize_value v)"
proof (induction v)
  case (VDict kvs)
  then show ?case by (fastforce simp: sort_key_map case_prod_beta comp_def)
qed auto

lemma canonical_of_policy:
  "canonical_fields str_of (policy_object p) = map (\<lambda>(k, v). (k, obj_of v)) (to_canonical p)"
  by (simp add: canonical_fields_def policy_object_def to_canonical_def is_public_def serialize_obj_of
      less_eq_char_def less_char_def)

section \<open>Policies with the same form\<close>

text \<open>A value up to the order of the entries of its dictionaries.\<close>

datatype shape = Scalar pyval | Items "shape list" | Entries "(string, shape) fmap"

fun shape_of :: "pyval \<Rightarrow> shape" where
  "shape_of (VList xs) = Items (map shape_of xs)"
| "shape_of (VDict kvs) = Entries (fmap_of_list (map (\<lambda>(k, v). (k, shape_of v)) kvs))"
| "shape_of v = Scalar v"

fun distinct_keys :: "pyval \<Rightarrow> bool" where
  "distinct_keys (VList xs) = list_all distinct_keys xs"
| "distinct_keys (VDict kvs) \<longleftrightarrow> distinct (map fst kvs) \<and> list_all (\<lambda>(k, v). distinct_keys v) kvs"
| "distinct_keys _ = True"

lemma sorted_assoc_unique:
  fixes xs ys :: "('a::linorder \<times> 'b) list"
  assumes "sorted (map fst xs)" "sorted (map fst ys)" "distinct (map fst xs)" "distinct (map fst ys)"
    and "map_of xs = map_of ys"
  shows "xs = ys"
proof -
  have keys: "map fst xs = map fst ys"
    using assms by (intro sorted_distinct_set_unique) (auto simp: dom_map_of_conv_image_fst [symmetric])
  have "snd (xs ! i) = snd (ys ! i)" if "i < length xs" for i
  proof -
    have len: "length ys = length xs" using arg_cong [OF keys, of length] by simp
    have "fst (xs ! i) = fst (ys ! i)" using arg_cong [OF keys, of "\<lambda>zs. zs ! i"] that len by simp
    moreover have "map_of xs (fst (xs ! i)) = Some (snd (xs ! i))" "map_of ys (fst (ys ! i)) = Some (snd (ys ! i))"
      using that len assms(3,4) by (simp_all add: map_of_eq_Some_iff)
    ultimately show ?thesis using assms(5) by simp
  qed
  with keys show ?thesis
    by (metis (mono_tags) length_map nth_equalityI nth_map prod_eqI)
qed

lemma map_of_sort_key: "distinct (map fst kvs) \<Longrightarrow> map_of (sort_key fst kvs) = map_of kvs"
  by (rule map_of_inject_set [THEN iffD2]) (simp_all add: distinct_map)

lemma map_of_entries: "map_of (map (\<lambda>(k, v). (k, f v)) kvs) = map_option f \<circ> map_of kvs"
  by (induction kvs) (auto simp: fun_eq_iff)

text \<open>The entries of two dictionaries agree after \<open>f\<close> exactly when they agree key by key.\<close>

lemma sorted_entries_eq:
  assumes "distinct (map fst kvs)" "distinct (map fst ws)"
  shows "map (\<lambda>(k, v). (k, f v)) (sort_key fst kvs) = map (\<lambda>(k, v). (k, f v)) (sort_key fst ws) \<longleftrightarrow>
    map_option f \<circ> map_of kvs = map_option f \<circ> map_of ws" (is "?l = ?r \<longleftrightarrow> _")
proof
  assume "?l = ?r"
  then have "map_of ?l = map_of ?r" by simp
  then show "map_option f \<circ> map_of kvs = map_option f \<circ> map_of ws"
    unfolding map_of_entries using assms by (simp add: map_of_sort_key)
next
  assume "map_option f \<circ> map_of kvs = map_option f \<circ> map_of ws"
  then show "?l = ?r"
    using assms by (intro sorted_assoc_unique)
      (simp_all add: map_of_entries map_of_sort_key comp_def case_prod_beta distinct_map)
qed

lemma shape_entries_eq:
  "shape_of (VDict kvs) = shape_of (VDict ws) \<longleftrightarrow> map_option shape_of \<circ> map_of kvs = map_option shape_of \<circ> map_of ws"
proof -
  have "shape_of (VDict kvs) = shape_of (VDict ws) \<longleftrightarrow>
      fmlookup (fmap_of_list (map (\<lambda>(k, v). (k, shape_of v)) kvs)) =
      fmlookup (fmap_of_list (map (\<lambda>(k, v). (k, shape_of v)) ws))"
    by (simp add: fmlookup_inject)
  then show ?thesis by (simp only: fmlookup_of_list map_of_entries)
qed

lemma serialize_shape:
  "distinct_keys v \<Longrightarrow> distinct_keys w \<Longrightarrow> serialize_value v = serialize_value w \<longleftrightarrow> shape_of v = shape_of w"
proof (induction v arbitrary: w)
  case (VList xs)
  show ?case
  proof (cases w)
    case w: (VList ys)
    have "map serialize_value xs = map serialize_value ys \<longleftrightarrow> map shape_of xs = map shape_of ys"
      using VList by (auto simp: w list_eq_iff_nth_eq list_all_length)
    then show ?thesis by (simp add: w)
  qed simp_all
next
  case (VDict kvs)
  show ?case
  proof (cases w)
    case w: (VDict ws)
    have "map_option serialize_value (map_of kvs k) = map_option serialize_value (map_of ws k) \<longleftrightarrow>
        map_option shape_of (map_of kvs k) = map_option shape_of (map_of ws k)" for k
    proof (cases "map_of kvs k")
      case None
      then show ?thesis by (cases "map_of ws k") simp_all
    next
      case (Some v)
      then have v: "(k, v) \<in> set kvs" by (rule map_of_SomeD)
      then have "distinct_keys v" using VDict.prems(1) by (auto simp: list_all_iff)
      moreover have "distinct_keys u" if "map_of ws k = Some u" for u
        using map_of_SomeD [OF that] VDict.prems(2) w by (auto simp: list_all_iff)
      ultimately show ?thesis
        using VDict.IH [OF v] Some by (cases "map_of ws k") simp_all
    qed
    then have "map_option serialize_value \<circ> map_of kvs = map_option serialize_value \<circ> map_of ws \<longleftrightarrow>
        shape_of (VDict kvs) = shape_of (VDict ws)"
      unfolding shape_entries_eq by (simp add: fun_eq_iff)
    moreover have "distinct (map fst kvs)" "distinct (map fst ws)" using VDict.prems w by simp_all
    ultimately show ?thesis using sorted_entries_eq [of kvs ws serialize_value] by (simp add: w)
  qed simp_all
qed (case_tac w; simp)+

text \<open>The fields of a policy.\<close>

definition policy_fields :: "policy_config \<Rightarrow> pyval list" where
  "policy_fields p =
     [VStr (pc_chain_id p), pc_ceiling_usd p, VStr (pc_on_exceed p), pc_issued_at p, pc_ceiling_tokens_out p,
      pc_ceiling_steps p, pc_fallback_model p, pc_timeout_ms p, pc_rate_window_seconds p,
      pc_rate_ceiling_calls p, pc_priority p, pc_deadline_ts p, pc_expires_at p, pc_planner_version p]"

lemma canonical_same_shapes:
  assumes "list_all distinct_keys (policy_fields p)" "list_all distinct_keys (policy_fields q)"
  shows "to_canonical p = to_canonical q \<longleftrightarrow> map shape_of (policy_fields p) = map shape_of (policy_fields q)"
  using assms by (auto simp: to_canonical_def policy_fields_def serialize_shape)

lemma shape_scalar: "scalar v \<Longrightarrow> shape_of v = shape_of w \<Longrightarrow> v = w"
  by (cases v; cases w) auto

lemma obj_of_inj: "obj_of v = obj_of w \<Longrightarrow> v = w"
proof (induction v arbitrary: w)
  case (VList xs)
  then show ?case by (cases w) (auto simp: list_eq_iff_nth_eq)
next
  case (VDict kvs)
  show ?case
  proof (cases w)
    case w: (VDict ws)
    have "kvs = ws"
    proof (rule nth_equalityI)
      show len: "length kvs = length ws"
        using VDict.prems w by (auto dest: map_eq_imp_length_eq)
      show "kvs ! i = ws ! i" if i: "i < length kvs" for i
      proof -
        obtain k v where kv: "kvs ! i = (k, v)" by fastforce
        have "map (\<lambda>(k, v). (k, obj_of v)) kvs ! i = map (\<lambda>(k, v). (k, obj_of v)) ws ! i"
          using VDict.prems w by simp
        then have "k = fst (ws ! i)" "obj_of v = obj_of (snd (ws ! i))"
          using i len kv by (simp_all add: case_prod_beta)
        moreover have "(k, v) \<in> set kvs" using i kv by (metis nth_mem)
        ultimately show ?thesis using VDict.IH kv by (metis prod.collapse snd_conv snds.intros)
      qed
    qed
    then show ?thesis by (simp add: w)
  qed (use VDict.prems in simp_all)
qed (case_tac w; simp)+

lemma canonical_object_iff:
  "canonical_fields str_of (policy_object p) = canonical_fields str_of (policy_object q) \<longleftrightarrow>
   to_canonical p = to_canonical q"
  using obj_of_inj by (auto simp: canonical_of_policy to_canonical_def)

section \<open>The form of an audit identifier\<close>

lemma hex_char_digit: "d < 16 \<Longrightarrow> is_digit (hex_char d) \<or> 97 \<le> code (hex_char d) \<and> code (hex_char d) \<le> 102"
  by (auto simp: hex_char_def is_digit_def)

lemma hex_fixed_form:
  "length (hex_fixed d n) = d \<and>
   (\<forall>c \<in> set (hex_fixed d n). is_digit c \<or> 97 \<le> code c \<and> code c \<le> 102)"
  by (induction d arbitrary: n) (auto simp: hex_char_digit)

lemma hex_char_inj: "a < 16 \<Longrightarrow> b < 16 \<Longrightarrow> hex_char a = hex_char b \<Longrightarrow> a = b"
  by (drule arg_cong [of _ _ code]) (auto simp: hex_char_def split: if_splits)

lemma hex_fixed_inj: "m < 16 ^ d \<Longrightarrow> n < 16 ^ d \<Longrightarrow> hex_fixed d m = hex_fixed d n \<Longrightarrow> m = n"
proof (induction d arbitrary: m n)
  case (Suc d)
  then have "m div 16 = n div 16" "m mod 16 = n mod 16"
    using hex_char_inj [of "m mod 16" "n mod 16"] by (simp_all add: less_mult_imp_div_less)
  then show ?case by (metis div_mult_mod_eq)
qed simp

lemma new_audit_id_form:
  "length (new_audit_id r) = 32"
  "\<forall>c \<in> set (new_audit_id r). is_digit c \<or> 97 \<le> code c \<and> code c \<le> 102"
  using hex_fixed_form unfolding new_audit_id_def by blast+

lemma new_audit_id_inj: "new_audit_id r = new_audit_id r' \<longleftrightarrow> uuid4 r = uuid4 r'"
proof
  assume "new_audit_id r = new_audit_id r'"
  moreover have "unat w < 16 ^ 32" for w :: "128 word"
    using unsigned_less [of w] by simp
  ultimately have "unat (uuid4 r) = unat (uuid4 r')"
    using hex_fixed_inj unfolding new_audit_id_def by blast
  then show "uuid4 r = uuid4 r'" by (rule unsigned_word_eqI)
qed (simp add: new_audit_id_def)

end
