(* ===== verification/Simulation.thy ===== *)
theory Simulation
  imports Distribution
begin

text \<open>
  Policy simulation (\<open>api/routes/simulate.py\<close>): building a \<open>PolicyConfig\<close> from a request
  body, evaluating one step against it, and the loop of \<open>POST /simulate\<close>.
\<close>

section \<open>\<open>_build_policy\<close>\<close>

definition unprocessable :: py_error where "unprocessable = HTTPException 422"

definition require :: "bool \<Rightarrow> unit result" where
  "require b = (if b then Inr () else Inl unprocessable)"

definition or_unprocessable :: "'a result \<Rightarrow> 'a result" where
  \<comment> \<open>\<open>except (TypeError, ValueError)\<close>: 422\<close>
  "or_unprocessable r = (case r of
     Inl e \<Rightarrow> Inl (if e = TypeError \<or> e = ValueError then unprocessable else e) | Inr x \<Rightarrow> Inr x)"

definition REQUIRED_POLICY_FIELDS :: "string list" where
  "REQUIRED_POLICY_FIELDS = [''chain_id'', ''ceiling_usd'', ''on_exceed'']"

definition get_none :: "(string, pyval) pydict \<Rightarrow> string \<Rightarrow> pyval" where
  "get_none d k = dget_default d k VNone"

definition hashable :: "pyval \<Rightarrow> bool" where
  "hashable v = (case v of VList _ \<Rightarrow> False | VDict _ \<Rightarrow> False | _ \<Rightarrow> True)"

definition check_on_exceed :: "pyval \<Rightarrow> string result" where
  \<comment> \<open>membership in a frozenset hashes the value first\<close>
  "check_on_exceed v =
     (case v of
        VStr s \<Rightarrow> if s \<in> set ALLOWED_ON_EXCEED then Inr s else Inl unprocessable
      | _ \<Rightarrow> if hashable v then Inl unprocessable else Inl TypeError)"

definition check_ceiling :: "pyval \<Rightarrow> unit result" where
  "check_ceiling v =
     rbind (require (\<not> is_bool v \<and> (is_int v \<or> is_float v))) (\<lambda>_.
     rbind (val_isfinite v) (\<lambda>fin.
     rbind (require fin) (\<lambda>_.
     rbind (val_lt v (Fin 0)) (\<lambda>neg. require (\<not> neg)))))"

definition check_timestamp :: "pyval \<Rightarrow> pyfloat result" where
  \<comment> \<open>a value that is not \<open>None\<close>\<close>
  "check_timestamp v =
     rbind (require (\<not> is_bool v)) (\<lambda>_.
     rbind (or_unprocessable (to_float v)) (\<lambda>x.
     rbind (require (isfinite x \<and> \<not> flt x (Fin 0))) (\<lambda>_. Inr x)))"

definition optional_timestamp :: "pyval \<Rightarrow> pyval result" where
  "optional_timestamp v =
     (if v = VNone then Inr VNone else rbind (check_timestamp v) (\<lambda>x. Inr (VFloat x)))"

definition check_chain_id :: "pyval \<Rightarrow> string result" where
  "check_chain_id v =
     (case v of
        VStr s \<Rightarrow> rbind (require (take 256 s \<noteq> [])) (\<lambda>_. Inr (take 256 s))
      | _ \<Rightarrow> Inl unprocessable)"

definition BOOL_GUARDED :: "string list" where
  "BOOL_GUARDED = [''ceiling_tokens_out'', ''ceiling_steps'', ''timeout_ms'', ''rate_ceiling_calls'',
     ''rate_window_seconds'']"

definition build_policy :: "pyfloat \<Rightarrow> (string, pyval) pydict \<Rightarrow> policy_config result" where
  "build_policy now d =
     rbind (require (list_all (\<lambda>k. dget d k \<noteq> None) REQUIRED_POLICY_FIELDS)) (\<lambda>_.
     rbind (check_on_exceed (get_none d ''on_exceed'')) (\<lambda>on_exceed.
     rbind (check_ceiling (get_none d ''ceiling_usd'')) (\<lambda>_.
     rbind (optional_timestamp (get_none d ''deadline_ts'')) (\<lambda>deadline.
     rbind (optional_timestamp (get_none d ''expires_at'')) (\<lambda>expires.
     rbind (check_chain_id (get_none d ''chain_id'')) (\<lambda>chain.
     rbind (if get_none d ''issued_at'' = VNone then Inr now else check_timestamp (get_none d ''issued_at'')) (\<lambda>issued.
     rbind (require (\<not> is_bool (dget_default d ''priority'' (VInt 50)))) (\<lambda>_.
     rbind (require (list_all (\<lambda>k. \<not> is_bool (get_none d k)) BOOL_GUARDED)) (\<lambda>_.
     rbind (or_unprocessable (to_float (get_none d ''ceiling_usd''))) (\<lambda>ceil.
     rbind (or_unprocessable (to_int (dget_default d ''priority'' (VInt 50)))) (\<lambda>priority.
     Inr ((new_policy_config chain (VFloat ceil) on_exceed (VFloat issued))
       \<lparr>pc_ceiling_tokens_out := get_none d ''ceiling_tokens_out'',
        pc_ceiling_steps := get_none d ''ceiling_steps'',
        pc_fallback_model := get_none d ''fallback_model'',
        pc_timeout_ms := get_none d ''timeout_ms'',
        pc_rate_window_seconds := get_none d ''rate_window_seconds'',
        pc_rate_ceiling_calls := get_none d ''rate_ceiling_calls'',
        pc_priority := VInt priority, pc_deadline_ts := deadline, pc_expires_at := expires,
        pc_planner_version := get_none d ''planner_version''\<rparr>))))))))))))"

subsection \<open>What a built policy satisfies\<close>

lemma require_ok [simp]: "require b = Inr () \<longleftrightarrow> b"
  by (simp add: require_def)

lemma or_unprocessable_ok [simp]: "or_unprocessable r = Inr x \<longleftrightarrow> r = Inr x"
  by (auto simp: or_unprocessable_def split: sum.splits)

lemma check_timestamp_ok: "check_timestamp v = Inr x \<Longrightarrow> isfinite x \<and> nonneg_float x"
  by (cases x) (auto simp: check_timestamp_def rbind_Inr_iff)

definition built_policy :: "policy_config \<Rightarrow> bool" where
  "built_policy p \<longleftrightarrow>
     pc_chain_id p \<noteq> [] \<and> length (pc_chain_id p) \<le> 256 \<and> pc_on_exceed p \<in> set ALLOWED_ON_EXCEED \<and>
     good_ceiling (pc_ceiling_usd p) \<and> (\<exists>x. pc_ceiling_usd p = VFloat x) \<and>
     (\<exists>x. pc_issued_at p = VFloat x) \<and> (\<exists>n. pc_priority p = VInt n) \<and>
     (\<forall>v \<in> {pc_deadline_ts p, pc_expires_at p}.
        v = VNone \<or> (\<exists>x. v = VFloat x \<and> isfinite x \<and> nonneg_float x)) \<and>
     (\<forall>v \<in> {pc_ceiling_tokens_out p, pc_ceiling_steps p, pc_timeout_ms p, pc_rate_ceiling_calls p,
            pc_rate_window_seconds p}. \<not> is_bool v)"

lemma check_ceiling_ok:
  assumes "check_ceiling v = Inr ()" "to_float v = Inr x"
  shows "isfinite x \<and> nonneg_float x"
proof (cases v)
  case (VInt n)
  then have "float_of_int n = Inr x" "0 \<le> n"
    using assms by (auto simp: check_ceiling_def rbind_Inr_iff val_lt_def)
  then have "x = rnd (of_int n)" "isfinite x"
    by (auto simp: float_of_int_def split: pyfloat.splits) (metis isfinite.simps(1))
  then show ?thesis using \<open>0 \<le> n\<close> rnd_nonneg [of "of_int n"] by simp
next
  case (VFloat y)
  then show ?thesis using assms by (cases x) (auto simp: check_ceiling_def rbind_Inr_iff val_lt_def)
qed (use assms in \<open>auto simp: check_ceiling_def rbind_Inr_iff\<close>)

lemma optional_timestamp_ok:
  "optional_timestamp v = Inr w \<Longrightarrow> w = VNone \<or> (\<exists>x. w = VFloat x \<and> isfinite x \<and> nonneg_float x)"
  by (auto simp: optional_timestamp_def rbind_Inr_iff dest: check_timestamp_ok split: if_splits)

lemma build_policy_ok: "build_policy now d = Inr p \<Longrightarrow> built_policy p"
proof -
  assume "build_policy now d = Inr p"
  then obtain on_exceed deadline expires chain issued ceil priority where
    e: "check_on_exceed (get_none d ''on_exceed'') = Inr on_exceed"
    and c: "check_ceiling (get_none d ''ceiling_usd'') = Inr ()" "to_float (get_none d ''ceiling_usd'') = Inr ceil"
    and t: "optional_timestamp (get_none d ''deadline_ts'') = Inr deadline"
      "optional_timestamp (get_none d ''expires_at'') = Inr expires"
    and ch: "check_chain_id (get_none d ''chain_id'') = Inr chain"
    and b: "list_all (\<lambda>k. \<not> is_bool (get_none d k)) BOOL_GUARDED"
    and p: "p = (new_policy_config chain (VFloat ceil) on_exceed (VFloat issued))
       \<lparr>pc_ceiling_tokens_out := get_none d ''ceiling_tokens_out'',
        pc_ceiling_steps := get_none d ''ceiling_steps'',
        pc_fallback_model := get_none d ''fallback_model'',
        pc_timeout_ms := get_none d ''timeout_ms'',
        pc_rate_window_seconds := get_none d ''rate_window_seconds'',
        pc_rate_ceiling_calls := get_none d ''rate_ceiling_calls'',
        pc_priority := VInt priority, pc_deadline_ts := deadline, pc_expires_at := expires,
        pc_planner_version := get_none d ''planner_version''\<rparr>"
    unfolding build_policy_def rbind_Inr_iff or_unprocessable_ok by auto
  have "on_exceed \<in> set ALLOWED_ON_EXCEED"
    using e by (auto simp: check_on_exceed_def split: pyval.splits if_splits)
  moreover have "chain \<noteq> [] \<and> length chain \<le> 256"
    using ch by (auto simp: check_chain_id_def rbind_Inr_iff split: pyval.splits)
  moreover note check_ceiling_ok [OF c] optional_timestamp_ok [OF t(1)] optional_timestamp_ok [OF t(2)]
  ultimately show ?thesis using b p
    by (auto simp: built_policy_def new_policy_config_def BOOL_GUARDED_def)
qed

section \<open>\<open>_evaluate_step\<close>\<close>

text \<open>The reason carries the values the message prints.\<close>

datatype reason =
    CostExceeded pyfloat pyval
  | TokensExceeded int pyval
  | StepsExceeded int pyval
  | DeadlineExceeded pyval
  | PolicyExpired pyval
  | WithinBudget

definition exceeds_int :: "int \<Rightarrow> pyval \<Rightarrow> bool result" where
  \<comment> \<open>\<open>limit is not None and n > limit\<close>\<close>
  "exceeds_int n limit = unless_none limit (val_lt limit (Fin (of_int n)))"

definition past :: "pyfloat \<Rightarrow> pyval \<Rightarrow> bool result" where
  "past now limit = unless_none limit (val_lt limit now)"

definition evaluate_step ::
  "pyfloat \<Rightarrow> pyfloat \<Rightarrow> int \<Rightarrow> pyfloat \<Rightarrow> int \<Rightarrow> int \<Rightarrow> policy_config \<Rightarrow> (string \<times> reason) result" where
  "evaluate_step now step_cost step_tokens_out cumulative_cost cumulative_steps cumulative_tokens_out p =
     (let projected_cost = fadd cumulative_cost step_cost;
          projected_tokens = cumulative_tokens_out + step_tokens_out;
          projected_steps = cumulative_steps + 1 in
      rbind (val_lt (pc_ceiling_usd p) projected_cost) (\<lambda>b1.
      if b1 then Inr (pc_on_exceed p, CostExceeded projected_cost (pc_ceiling_usd p)) else
      rbind (exceeds_int projected_tokens (pc_ceiling_tokens_out p)) (\<lambda>b2.
      if b2 then Inr (pc_on_exceed p, TokensExceeded projected_tokens (pc_ceiling_tokens_out p)) else
      rbind (exceeds_int projected_steps (pc_ceiling_steps p)) (\<lambda>b3.
      if b3 then Inr (pc_on_exceed p, StepsExceeded projected_steps (pc_ceiling_steps p)) else
      rbind (past now (pc_deadline_ts p)) (\<lambda>b4.
      if b4 then Inr (''halt'', DeadlineExceeded (pc_deadline_ts p)) else
      rbind (past now (pc_expires_at p)) (\<lambda>b5.
      if b5 then Inr (''halt'', PolicyExpired (pc_expires_at p)) else
      Inr (''allow'', WithinBudget)))))))"

section \<open>\<open>simulate\<close>\<close>

record sim_step =
  st_kind :: string
  st_cost_usd :: pyfloat
  st_tokens_in :: int
  st_tokens_out :: int
  st_elapsed_ms :: pyfloat
  st_model :: pyval
  st_tool_name :: pyval

record sim_step_result =
  sr_step_index :: nat
  sr_kind :: string
  sr_cost_usd :: pyfloat
  sr_tokens_out :: int
  sr_elapsed_ms :: pyfloat
  sr_cumulative_cost_usd :: pyfloat
  sr_decision :: string
  sr_reason :: reason

record sim_state =
  ss_cost :: pyfloat
  ss_tokens_out :: int
  ss_allowed :: nat
  ss_halted :: nat
  ss_decision :: string
  ss_results :: "sim_step_result list"

definition sim_init :: sim_state where
  "sim_init = \<lparr>ss_cost = Fin 0, ss_tokens_out = 0, ss_allowed = 0, ss_halted = 0,
     ss_decision = ''allow'', ss_results = []\<rparr>"

definition sim_result_of :: "nat \<Rightarrow> sim_step \<Rightarrow> pyfloat \<Rightarrow> string \<Rightarrow> reason \<Rightarrow> sim_step_result" where
  "sim_result_of idx st cost decision reason =
     \<lparr>sr_step_index = idx, sr_kind = st_kind st, sr_cost_usd = st_cost_usd st,
      sr_tokens_out = st_tokens_out st, sr_elapsed_ms = st_elapsed_ms st,
      sr_cumulative_cost_usd = cost, sr_decision = decision, sr_reason = reason\<rparr>"

text \<open>\<open>now idx\<close> is the clock at step \<open>idx\<close>; the third argument is the steps still to come.\<close>

fun sim_loop :: "(nat \<Rightarrow> pyfloat) \<Rightarrow> policy_config \<Rightarrow> sim_step list \<Rightarrow> nat \<Rightarrow> sim_state \<Rightarrow> sim_state result" where
  "sim_loop now p [] idx s = Inr s"
| "sim_loop now p (st # sts) idx s =
     rbind (evaluate_step (now idx) (st_cost_usd st) (st_tokens_out st) (ss_cost s) (int idx) (ss_tokens_out s) p)
       (\<lambda>(decision, reason).
         if decision = ''allow''
         then (let cost = fadd (ss_cost s) (st_cost_usd st) in
               sim_loop now p sts (Suc idx)
                 \<lparr>ss_cost = cost, ss_tokens_out = ss_tokens_out s + st_tokens_out st,
                  ss_allowed = ss_allowed s + 1, ss_halted = ss_halted s, ss_decision = decision,
                  ss_results = ss_results s @ [sim_result_of idx st cost decision reason]\<rparr>)
         else Inr (s\<lparr>ss_halted := ss_halted s + 1 + length sts, ss_decision := decision,
                     ss_results := ss_results s @ [sim_result_of idx st (ss_cost s) decision reason]\<rparr>))"

record sim_response =
  sp_policy_hash :: string
  sp_total_steps :: nat
  sp_steps_allowed :: nat
  sp_steps_halted :: nat
  sp_total_cost_usd :: pyfloat
  sp_final_decision :: string
  sp_step_results :: "sim_step_result list"

definition simulate ::
  "digest \<Rightarrow> pyfloat \<Rightarrow> (nat \<Rightarrow> pyfloat) \<Rightarrow> bool \<Rightarrow> (string, pyval) pydict \<Rightarrow> sim_step list \<Rightarrow> sim_response result" where
  "simulate sha issued now strict body steps =
     rbind (case build_policy issued body of Inr p \<Rightarrow> Inr p | Inl _ \<Rightarrow> Inl unprocessable) (\<lambda>p.
     rbind (case validate_policy strict p of
              Inr _ \<Rightarrow> Inr ()
            | Inl e \<Rightarrow> Inl (if e \<in> {PolicyValidationError, TypeError, ValueError} then unprocessable else e)) (\<lambda>_.
     rbind (sim_loop now p steps 0 sim_init) (\<lambda>s.
     Inr \<lparr>sp_policy_hash = compute_policy_hash sha p, sp_total_steps = length steps,
          sp_steps_allowed = ss_allowed s, sp_steps_halted = ss_halted s,
          sp_total_cost_usd = ss_cost s, sp_final_decision = ss_decision s,
          sp_step_results = ss_results s\<rparr>)))"

subsection \<open>Evaluation of a validated policy\<close>

text \<open>The numbers a limit may be, as the validation leaves them.\<close>

definition limit_ok :: "pyval \<Rightarrow> bool" where
  "limit_ok v \<longleftrightarrow> v = VNone \<or> (\<exists>x. exact v = Some x)"

definition evaluable :: "policy_config \<Rightarrow> bool" where
  "evaluable p \<longleftrightarrow> good_ceiling (pc_ceiling_usd p) \<and> limit_ok (pc_ceiling_tokens_out p) \<and>
     limit_ok (pc_ceiling_steps p) \<and> limit_ok (pc_deadline_ts p) \<and> limit_ok (pc_expires_at p) \<and>
     pc_on_exceed p \<noteq> ''allow''"

lemma good_ceiling_limit: "v = VNone \<or> good_ceiling v \<Longrightarrow> limit_ok v"
  unfolding limit_ok_def good_ceiling_def by blast

lemma good_bound_limit: "good_bound v \<Longrightarrow> limit_ok v"
  unfolding limit_ok_def good_bound_def by blast

lemma limit_ok_float: "v = VNone \<or> (\<exists>x. v = VFloat x \<and> P x) \<Longrightarrow> limit_ok v"
  unfolding limit_ok_def using exact.simps(3) by blast

lemma validated_evaluable:
  assumes b: "built_policy p" and v: "valid_policy strict p"
  shows "evaluable p"
proof -
  have "limit_ok (pc_deadline_ts p)" "limit_ok (pc_expires_at p)"
    using b limit_ok_float unfolding built_policy_def by blast+
  moreover have "pc_on_exceed p \<noteq> ''allow''"
    using v unfolding valid_policy_def ALLOWED_ON_EXCEED_def by auto
  moreover have "limit_ok (pc_ceiling_tokens_out p)" "limit_ok (pc_ceiling_steps p)"
    "good_ceiling (pc_ceiling_usd p)"
    using v good_ceiling_limit good_bound_limit unfolding valid_policy_def by blast+
  ultimately show ?thesis unfolding evaluable_def by blast
qed

lemma unless_none_ok: "limit_ok v \<Longrightarrow> \<exists>b. unless_none v (val_lt v x) = Inr b"
  by (auto simp: limit_ok_def unless_none_def val_lt_def)

lemma evaluate_step_ok:
  assumes "evaluable p"
  shows "\<exists>d r. evaluate_step now cost toks ccost csteps ctoks p = Inr (d, r)"
proof -
  obtain b1 where 1: "val_lt (pc_ceiling_usd p) (fadd ccost cost) = Inr b1"
    using assms by (auto simp: evaluable_def good_ceiling_def val_lt_def)
  have lim: "limit_ok (pc_ceiling_tokens_out p)" "limit_ok (pc_ceiling_steps p)"
    "limit_ok (pc_deadline_ts p)" "limit_ok (pc_expires_at p)"
    using assms by (auto simp: evaluable_def)
  obtain b2 b3 b4 b5 where "exceeds_int (ctoks + toks) (pc_ceiling_tokens_out p) = Inr b2"
    "exceeds_int (csteps + 1) (pc_ceiling_steps p) = Inr b3"
    "past now (pc_deadline_ts p) = Inr b4" "past now (pc_expires_at p) = Inr b5"
    using unless_none_ok [OF lim(1)] unless_none_ok [OF lim(2)] unless_none_ok [OF lim(3)]
      unless_none_ok [OF lim(4)] unfolding exceeds_int_def past_def by blast
  with 1 show ?thesis by (simp add: evaluate_step_def Let_def)
qed

text \<open>What an allowed step has been checked against.\<close>

definition below :: "pyval \<Rightarrow> pyfloat \<Rightarrow> bool" where
  "below limit x \<longleftrightarrow> limit = VNone \<or> (\<exists>y. exact limit = Some y \<and> \<not> flt y x)"

lemma unless_none_below:
  assumes "unless_none v (val_lt v x) = Inr b"
  shows "below v x \<longleftrightarrow> \<not> b"
proof (cases "v = VNone")
  case True
  then show ?thesis using assms by (simp add: unless_none_def below_def)
next
  case False
  then show ?thesis using assms
    by (cases "exact v") (simp_all add: unless_none_def below_def val_lt_def)
qed

lemma evaluate_allow_iff:
  assumes "evaluable p"
  shows "(\<exists>r. evaluate_step now cost toks ccost csteps ctoks p = Inr (''allow'', r)) \<longleftrightarrow>
    below (pc_ceiling_usd p) (fadd ccost cost) \<and>
    below (pc_ceiling_tokens_out p) (Fin (of_int (ctoks + toks))) \<and>
    below (pc_ceiling_steps p) (Fin (of_int (csteps + 1))) \<and>
    below (pc_deadline_ts p) now \<and> below (pc_expires_at p) now"
proof -
  note lt = unless_none_below
  obtain y where y: "exact (pc_ceiling_usd p) = Some y" and nn: "pc_on_exceed p \<noteq> ''allow''"
    using assms unfolding evaluable_def good_ceiling_def by blast
  then have 1: "val_lt (pc_ceiling_usd p) (fadd ccost cost) = Inr (flt y (fadd ccost cost))"
    and b1: "below (pc_ceiling_usd p) (fadd ccost cost) \<longleftrightarrow> \<not> flt y (fadd ccost cost)"
    using y by (simp_all add: val_lt_def below_def) (metis exact.simps(4) option.distinct(1))
  have lim: "limit_ok (pc_ceiling_tokens_out p)" "limit_ok (pc_ceiling_steps p)"
    "limit_ok (pc_deadline_ts p)" "limit_ok (pc_expires_at p)"
    using assms by (auto simp: evaluable_def)
  obtain b2 where b2: "exceeds_int (ctoks + toks) (pc_ceiling_tokens_out p) = Inr b2"
    using unless_none_ok [OF lim(1)] unfolding exceeds_int_def by blast
  obtain b3 where b3: "exceeds_int (csteps + 1) (pc_ceiling_steps p) = Inr b3"
    using unless_none_ok [OF lim(2)] unfolding exceeds_int_def by blast
  obtain b4 where b4: "past now (pc_deadline_ts p) = Inr b4"
    using unless_none_ok [OF lim(3)] unfolding past_def by blast
  obtain b5 where b5: "past now (pc_expires_at p) = Inr b5"
    using unless_none_ok [OF lim(4)] unfolding past_def by blast
  note b = b2 b3 b4 b5
  note c = lt [OF b2 [unfolded exceeds_int_def]] lt [OF b3 [unfolded exceeds_int_def]]
    lt [OF b4 [unfolded past_def]] lt [OF b5 [unfolded past_def]]
  show ?thesis
    unfolding b1 c using nn
    by (simp add: evaluate_step_def Let_def 1 b)
qed

subsection \<open>The loop\<close>

text \<open>The steps the loop allows, as a prefix of the scenario.\<close>

lemma sim_loop_ok: "evaluable p \<Longrightarrow> \<exists>s'. sim_loop now p sts idx s = Inr s'"
proof (induction sts arbitrary: idx s)
  case (Cons st sts)
  obtain d r where "evaluate_step (now idx) (st_cost_usd st) (st_tokens_out st) (ss_cost s) (int idx) (ss_tokens_out s) p
      = Inr (d, r)"
    using evaluate_step_ok [OF Cons.prems] by blast
  then show ?case using Cons by (simp add: Let_def)
qed simp

lemma sim_loop_counts:
  assumes "sim_loop now p sts idx s = Inr s'" "ss_decision s = ''allow''"
  shows "ss_allowed s' + ss_halted s' = ss_allowed s + ss_halted s + length sts \<and>
    (\<exists>n \<le> length sts. ss_allowed s' = ss_allowed s + n \<and>
       ss_cost s' = foldl fadd (ss_cost s) (map st_cost_usd (take n sts)) \<and>
       ss_tokens_out s' = ss_tokens_out s + sum_list (map st_tokens_out (take n sts)) \<and>
       (ss_decision s' = ''allow'' \<longleftrightarrow> n = length sts) \<and>
       length (ss_results s') = length (ss_results s) + (if n = length sts then n else Suc n) \<and>
       (n < length sts \<longrightarrow> (\<exists>d r. d \<noteq> ''allow'' \<and>
          evaluate_step (now (idx + n)) (st_cost_usd (sts ! n)) (st_tokens_out (sts ! n)) (ss_cost s')
            (int (idx + n)) (ss_tokens_out s') p = Inr (d, r))))"
  using assms
proof (induction sts arbitrary: idx s)
  case Nil
  then show ?case by auto
next
  case (Cons st sts)
  obtain d r where ev: "evaluate_step (now idx) (st_cost_usd st) (st_tokens_out st) (ss_cost s) (int idx) (ss_tokens_out s) p
      = Inr (d, r)"
    using Cons.prems(1) by (auto simp: rbind_Inr_iff)
  show ?case
  proof (cases "d = ''allow''")
    case True
    let ?s = "\<lparr>ss_cost = fadd (ss_cost s) (st_cost_usd st), ss_tokens_out = ss_tokens_out s + st_tokens_out st,
      ss_allowed = ss_allowed s + 1, ss_halted = ss_halted s, ss_decision = d,
      ss_results = ss_results s @ [sim_result_of idx st (fadd (ss_cost s) (st_cost_usd st)) d r]\<rparr>"
    have loop: "sim_loop now p sts (Suc idx) ?s = Inr s'"
      using Cons.prems(1) ev True by (simp add: Let_def)
    from Cons.IH [OF loop] True obtain n where n: "n \<le> length sts"
      "ss_allowed s' + ss_halted s' = Suc (ss_allowed s + ss_halted s + length sts)"
      "ss_allowed s' = Suc (ss_allowed s + n)"
      "ss_cost s' = foldl fadd (fadd (ss_cost s) (st_cost_usd st)) (map st_cost_usd (take n sts))"
      "ss_tokens_out s' = ss_tokens_out s + st_tokens_out st + sum_list (map st_tokens_out (take n sts))"
      "ss_decision s' = ''allow'' \<longleftrightarrow> n = length sts"
      "length (ss_results s') = Suc (length (ss_results s)) + (if n = length sts then n else Suc n)"
      "n < length sts \<longrightarrow> (\<exists>d r. d \<noteq> ''allow'' \<and>
          evaluate_step (now (Suc idx + n)) (st_cost_usd (sts ! n)) (st_tokens_out (sts ! n)) (ss_cost s')
            (int (Suc idx + n)) (ss_tokens_out s') p = Inr (d, r))"
      by auto
    then show ?thesis by (intro conjI exI [of _ "Suc n"]) auto
  next
    case False
    then have s': "s' = s\<lparr>ss_halted := ss_halted s + 1 + length sts, ss_decision := d,
        ss_results := ss_results s @ [sim_result_of idx st (ss_cost s) d r]\<rparr>"
      using Cons.prems(1) ev by simp
    then show ?thesis using ev False by (intro conjI exI [of _ 0]) auto
  qed
qed

text \<open>The cumulative cost and counts of the allowed steps stay within the ceilings.\<close>

lemma sim_loop_within:
  assumes p: "evaluable p" and "sim_loop now p sts idx s = Inr s'"
    and "idx = ss_allowed s"
    and "below (pc_ceiling_usd p) (ss_cost s)"
    and "below (pc_ceiling_tokens_out p) (Fin (of_int (ss_tokens_out s)))"
    and "0 < ss_allowed s \<longrightarrow> below (pc_ceiling_steps p) (Fin (of_nat (ss_allowed s)))"
  shows "below (pc_ceiling_usd p) (ss_cost s') \<and>
    below (pc_ceiling_tokens_out p) (Fin (of_int (ss_tokens_out s'))) \<and>
    (0 < ss_allowed s' \<longrightarrow> below (pc_ceiling_steps p) (Fin (of_nat (ss_allowed s'))))"
  using assms(2-)
proof (induction sts arbitrary: idx s)
  case (Cons st sts)
  obtain d r where ev: "evaluate_step (now idx) (st_cost_usd st) (st_tokens_out st) (ss_cost s) (int idx) (ss_tokens_out s) p
      = Inr (d, r)"
    using Cons.prems(1) by (auto simp: rbind_Inr_iff)
  show ?case
  proof (cases "d = ''allow''")
    case True
    then have "below (pc_ceiling_usd p) (fadd (ss_cost s) (st_cost_usd st)) \<and>
        below (pc_ceiling_tokens_out p) (Fin (of_int (ss_tokens_out s + st_tokens_out st))) \<and>
        below (pc_ceiling_steps p) (Fin (of_int (int idx + 1)))"
      using evaluate_allow_iff [OF p] ev by blast
    then show ?thesis
      using Cons.prems ev True
      by (intro Cons.IH [of "Suc idx" "\<lparr>ss_cost = fadd (ss_cost s) (st_cost_usd st),
          ss_tokens_out = ss_tokens_out s + st_tokens_out st, ss_allowed = ss_allowed s + 1,
          ss_halted = ss_halted s, ss_decision = d,
          ss_results = ss_results s @ [sim_result_of idx st (fadd (ss_cost s) (st_cost_usd st)) d r]\<rparr>"])
        (simp_all add: Let_def add.commute)
  next
    case False
    then show ?thesis using Cons.prems ev by auto
  qed
qed auto

lemma simulate_ok:
  assumes "simulate sha issued now strict body steps = Inr r"
  shows "\<exists>p s. build_policy issued body = Inr p \<and> valid_policy strict p \<and> evaluable p \<and>
     sim_loop now p steps 0 sim_init = Inr s \<and> sp_steps_allowed r = ss_allowed s \<and>
     sp_steps_halted r = ss_halted s \<and> sp_total_cost_usd r = ss_cost s \<and>
     sp_final_decision r = ss_decision s \<and> sp_step_results r = ss_results s \<and>
     sp_total_steps r = length steps"
proof -
  obtain p s where "build_policy issued body = Inr p" "validate_policy strict p = Inr ()"
    "sim_loop now p steps 0 sim_init = Inr s"
    "r = \<lparr>sp_policy_hash = compute_policy_hash sha p, sp_total_steps = length steps,
          sp_steps_allowed = ss_allowed s, sp_steps_halted = ss_halted s,
          sp_total_cost_usd = ss_cost s, sp_final_decision = ss_decision s,
          sp_step_results = ss_results s\<rparr>"
    using assms by (auto simp: simulate_def rbind_Inr_iff split: sum.splits)
  then show ?thesis
    using validate_iff validated_evaluable build_policy_ok
    by (intro exI [of _ p] exI [of _ s]) auto
qed

lemma simulate_total:
  assumes "build_policy issued body = Inr p" "valid_policy strict p"
  shows "\<exists>r. simulate sha issued now strict body steps = Inr r"
proof -
  have "evaluable p" using assms build_policy_ok validated_evaluable by blast
  then obtain s where "sim_loop now p steps 0 sim_init = Inr s" using sim_loop_ok by blast
  then show ?thesis using assms validate_iff [of strict p] by (simp add: simulate_def)
qed

end
