(* ===== verification/Policy_Registry.thy ===== *)
theory Policy_Registry
  imports Distribution
begin

text \<open>
  \<open>PolicyRegistry\<close> (\<open>api/policy_registry.py\<close>) and the policy endpoints
  (\<open>api/routes/policies.py\<close>). \<open>register\<close> and \<open>update\<close> take the registry lock in separate
  sections with the distribution in between; besides the sequential operations the theory has
  the step relation of their sections and shows that an update never overwrites a policy
  other than the one it was computed from.
\<close>

record registry =
  rg_distributor :: distributor
  rg_store :: "(string, policy_bundle) pydict"

definition new_registry :: "distributor \<Rightarrow> registry" where
  "new_registry d = \<lparr>rg_distributor = d, rg_store = []\<rparr>"

section \<open>Reads\<close>

definition page_of :: "nat \<Rightarrow> nat \<Rightarrow> 'a list \<Rightarrow> 'a list" where
  \<comment> \<open>\<open>xs[(page - 1) * per_page : ...]\<close>, pages counted from 1\<close>
  "page_of page per_page xs = slice ((page - 1) * per_page) ((page - 1) * per_page + per_page) xs"

definition list_policies :: "registry \<Rightarrow> nat \<Rightarrow> nat \<Rightarrow> policy_bundle list \<times> nat" where
  "list_policies s page per_page =
     (let all_bundles = dvalues (rg_store s) in
      (page_of page per_page all_bundles, length all_bundles))"

definition get_policy :: "registry \<Rightarrow> string \<Rightarrow> policy_bundle option" where
  "get_policy s chain_id = dget (rg_store s) chain_id"

section \<open>Writes\<close>

type_synonym hasher = "digest \<times> (string \<Rightarrow> string \<Rightarrow> string)"

definition registry_distribute :: "hasher \<Rightarrow> pyfloat \<Rightarrow> policy_config \<Rightarrow> registry \<Rightarrow> policy_bundle result \<times> registry" where
  "registry_distribute hs now p s =
     (let (r, d) = distribute (fst hs) (snd hs) now p (rg_distributor s) in (r, s\<lparr>rg_distributor := d\<rparr>))"

definition store_bundle :: "string \<Rightarrow> policy_bundle \<Rightarrow> registry \<Rightarrow> registry" where
  "store_bundle chain_id b s = s\<lparr>rg_store := dput (rg_store s) chain_id b\<rparr>"

definition register :: "hasher \<Rightarrow> pyfloat \<Rightarrow> policy_config \<Rightarrow> registry \<Rightarrow> policy_bundle result \<times> registry" where
  "register hs now p s =
     (case registry_distribute hs now p s of
        (Inl e, s') \<Rightarrow> (Inl e, s')
      | (Inr b, s') \<Rightarrow> (Inr b, store_bundle (pc_chain_id p) b s'))"

text \<open>The body of \<open>PUT /policies/{id}\<close>; an absent field is \<open>VNone\<close> or \<open>None\<close>.\<close>

record policy_update =
  pu_current_version :: int
  pu_ceiling_usd :: pyval
  pu_on_exceed :: "string option"
  pu_ceiling_tokens_out :: pyval
  pu_ceiling_steps :: pyval
  pu_fallback_model :: pyval
  pu_timeout_ms :: pyval
  pu_rate_window_seconds :: pyval
  pu_rate_ceiling_calls :: pyval
  pu_priority :: pyval
  pu_deadline_ts :: pyval
  pu_expires_at :: pyval
  pu_planner_version :: pyval

definition empty_update :: "int \<Rightarrow> policy_update" where
  "empty_update v = \<lparr>pu_current_version = v, pu_ceiling_usd = VNone, pu_on_exceed = None,
     pu_ceiling_tokens_out = VNone, pu_ceiling_steps = VNone, pu_fallback_model = VNone,
     pu_timeout_ms = VNone, pu_rate_window_seconds = VNone, pu_rate_ceiling_calls = VNone,
     pu_priority = VNone, pu_deadline_ts = VNone, pu_expires_at = VNone, pu_planner_version = VNone\<rparr>"

definition apply_update :: "pyfloat \<Rightarrow> policy_update \<Rightarrow> policy_config \<Rightarrow> policy_config" where
  "apply_update now u p =
     p\<lparr>pc_ceiling_usd := or_default (pu_ceiling_usd u) (pc_ceiling_usd p),
       pc_on_exceed := (case pu_on_exceed u of None \<Rightarrow> pc_on_exceed p | Some x \<Rightarrow> x),
       pc_issued_at := VFloat now,
       pc_ceiling_tokens_out := or_default (pu_ceiling_tokens_out u) (pc_ceiling_tokens_out p),
       pc_ceiling_steps := or_default (pu_ceiling_steps u) (pc_ceiling_steps p),
       pc_fallback_model := or_default (pu_fallback_model u) (pc_fallback_model p),
       pc_timeout_ms := or_default (pu_timeout_ms u) (pc_timeout_ms p),
       pc_rate_window_seconds := or_default (pu_rate_window_seconds u) (pc_rate_window_seconds p),
       pc_rate_ceiling_calls := or_default (pu_rate_ceiling_calls u) (pc_rate_ceiling_calls p),
       pc_priority := or_default (pu_priority u) (pc_priority p),
       pc_deadline_ts := or_default (pu_deadline_ts u) (pc_deadline_ts p),
       pc_expires_at := or_default (pu_expires_at u) (pc_expires_at p),
       pc_planner_version := or_default (pu_planner_version u) (pc_planner_version p)\<rparr>"

definition update_check :: "pyfloat \<Rightarrow> string \<Rightarrow> policy_update \<Rightarrow> registry \<Rightarrow> (policy_bundle \<times> policy_config) result" where
  \<comment> \<open>the first section: the bundle read and the policy to distribute\<close>
  "update_check now chain_id u s =
     (case dget (rg_store s) chain_id of
        None \<Rightarrow> Inl KeyError
      | Some existing \<Rightarrow>
          if int (pb_version existing) \<noteq> pu_current_version u then Inl ValueError
          else Inr (existing, apply_update now u (pb_policy existing)))"

definition update_commit :: "string \<Rightarrow> int \<Rightarrow> policy_bundle \<Rightarrow> registry \<Rightarrow> policy_bundle result \<times> registry" where
  \<comment> \<open>the last section: the version is checked again\<close>
  "update_commit chain_id current_version b s =
     (case dget (rg_store s) chain_id of
        None \<Rightarrow> (Inl ValueError, s)
      | Some current \<Rightarrow>
          if int (pb_version current) \<noteq> current_version then (Inl ValueError, s)
          else (Inr b, store_bundle chain_id b s))"

definition registry_update ::
  "hasher \<Rightarrow> pyfloat \<Rightarrow> string \<Rightarrow> policy_update \<Rightarrow> registry \<Rightarrow> policy_bundle result \<times> registry" where
  "registry_update hs now chain_id u s =
     (case update_check now chain_id u s of
        Inl e \<Rightarrow> (Inl e, s)
      | Inr (_, p) \<Rightarrow>
          (case registry_distribute hs now p s of
             (Inl e, s') \<Rightarrow> (Inl e, s')
           | (Inr b, s') \<Rightarrow> update_commit chain_id (pu_current_version u) b s'))"

section \<open>Endpoints\<close>

record policy_response =
  pr_policy :: policy_config
  pr_policy_hash :: string
  pr_version :: nat

record policy_summary =
  sm_chain_id :: string
  sm_on_exceed :: string
  sm_ceiling_usd :: pyval
  sm_priority :: pyval
  sm_issued_at :: pyval
  sm_policy_hash :: string
  sm_version :: nat

definition bundle_to_response :: "policy_bundle \<Rightarrow> policy_response" where
  \<comment> \<open>the response has every field of the policy, then the hash and the version\<close>
  "bundle_to_response b =
     \<lparr>pr_policy = pb_policy b, pr_policy_hash = pb_policy_hash b, pr_version = pb_version b\<rparr>"

definition bundle_to_summary :: "policy_bundle \<Rightarrow> policy_summary" where
  "bundle_to_summary b =
     (let p = pb_policy b in
      \<lparr>sm_chain_id = pc_chain_id p, sm_on_exceed = pc_on_exceed p, sm_ceiling_usd = pc_ceiling_usd p,
       sm_priority = pc_priority p, sm_issued_at = pc_issued_at p,
       sm_policy_hash = pb_policy_hash b, sm_version = pb_version b\<rparr>)"

definition list_policies_endpoint :: "registry \<Rightarrow> nat \<Rightarrow> nat \<Rightarrow> policy_summary list \<times> nat" where
  "list_policies_endpoint s page per_page =
     (let (items, n) = list_policies s page per_page in (map bundle_to_summary items, n))"

definition get_policy_endpoint :: "registry \<Rightarrow> string \<Rightarrow> policy_response result" where
  "get_policy_endpoint s chain_id =
     (case get_policy s chain_id of
        None \<Rightarrow> Inl (HTTPException 404) | Some b \<Rightarrow> Inr (bundle_to_response b))"

definition is_immutable_config :: "string \<Rightarrow> bool" where
  "is_immutable_config env \<longleftrightarrow> casefold env \<in> set [''1'', ''true'', ''yes'']"

definition update_policy_endpoint ::
  "hasher \<Rightarrow> string \<Rightarrow> pyfloat \<Rightarrow> string \<Rightarrow> policy_update \<Rightarrow> registry \<Rightarrow> policy_response result \<times> registry" where
  "update_policy_endpoint hs env now chain_id u s =
     (if is_immutable_config env then (Inl (HTTPException 403), s)
      else (let (r, s') = registry_update hs now chain_id u s in
            ((case r of
                Inr b \<Rightarrow> Inr (bundle_to_response b)
              | Inl e \<Rightarrow> Inl (if e = KeyError then HTTPException 404
                              else if e = PolicyValidationError then HTTPException 422
                              else if e = ValueError \<or> e = TypeError then HTTPException 409
                              else e)), s')))"

section \<open>Sequential behaviour\<close>

definition registry_inv :: "registry \<Rightarrow> bool" where
  "registry_inv s \<longleftrightarrow> wf_dict (rg_store s) \<and>
     (\<forall>c b. dget (rg_store s) c = Some b \<longrightarrow>
        pc_chain_id (pb_policy b) = c \<and> valid_policy (ds_strict (rg_distributor s)) (pb_policy b) \<and>
        to_exec_config (pb_policy b) = Inr (pb_exec_config b) \<and>
        pb_version b \<le> ds_version (rg_distributor s))"

lemma registry_distribute_ok:
  assumes "registry_distribute hs now p s = (Inr b, s')"
  shows "pb_policy b = p" "pb_version b = ds_version (rg_distributor s) + 1"
    "valid_policy (ds_strict (rg_distributor s)) p" "to_exec_config p = Inr (pb_exec_config b)"
    "s' = s\<lparr>rg_distributor := (rg_distributor s)\<lparr>ds_version := ds_version (rg_distributor s) + 1\<rparr>\<rparr>"
    "pb_policy_hash b = compute_policy_hash (fst hs) p"
proof -
  let ?d = "distribute (fst hs) (snd hs) now p (rg_distributor s)"
  have d: "fst ?d = Inr b" "s' = s\<lparr>rg_distributor := snd ?d\<rparr>"
    using assms by (auto simp: registry_distribute_def Let_def split: prod.splits)
  from distribute_ok [OF d(1)] d(2) distribute_ok_iff [of "fst hs" "snd hs" now p "rg_distributor s"] d(1)
  show "pb_policy b = p" "pb_version b = ds_version (rg_distributor s) + 1"
    "valid_policy (ds_strict (rg_distributor s)) p" "to_exec_config p = Inr (pb_exec_config b)"
    "s' = s\<lparr>rg_distributor := (rg_distributor s)\<lparr>ds_version := ds_version (rg_distributor s) + 1\<rparr>\<rparr>"
    "pb_policy_hash b = compute_policy_hash (fst hs) p"
    by auto
qed

lemma registry_distribute_fail:
  "registry_distribute hs now p s = (Inl e, s') \<Longrightarrow> s' = s"
  using distribute_fail [of "fst hs" "snd hs" now p "rg_distributor s" e]
  by (auto simp: registry_distribute_def Let_def split: prod.splits)

lemma store_bundle_inv:
  assumes "registry_inv s" "registry_distribute hs now p s = (Inr b, s')" "pc_chain_id p = c"
  shows "registry_inv (store_bundle c b s')"
  using assms(1,3) unfolding registry_distribute_ok(5) [OF assms(2)]
  by (auto simp: registry_inv_def store_bundle_def registry_distribute_ok [OF assms(2)]
      intro: le_SucI)

lemma register_inv: "registry_inv s \<Longrightarrow> registry_inv (snd (register hs now p s))"
  by (auto simp: register_def split: prod.splits sum.splits
      dest: registry_distribute_fail intro: store_bundle_inv)

lemma register_get:
  assumes "fst (register hs now p s) = Inr b"
  shows "get_policy (snd (register hs now p s)) (pc_chain_id p) = Some b \<and> pb_policy b = p \<and>
     (\<forall>c. c \<noteq> pc_chain_id p \<longrightarrow> get_policy (snd (register hs now p s)) c = get_policy s c) \<and>
     pb_version b = ds_version (rg_distributor s) + 1"
proof -
  obtain s' where d: "registry_distribute hs now p s = (Inr b, s')"
    "snd (register hs now p s) = store_bundle (pc_chain_id p) b s'"
    using assms by (auto simp: register_def split: prod.splits sum.splits)
  then show ?thesis
    by (simp add: get_policy_def store_bundle_def registry_distribute_ok [OF d(1)])
qed

lemma apply_update_chain [simp]: "pc_chain_id (apply_update now u p) = pc_chain_id p"
  by (simp add: apply_update_def)

lemma apply_update_empty: "apply_update now (empty_update v) p = p\<lparr>pc_issued_at := VFloat now\<rparr>"
  by (simp add: apply_update_def empty_update_def or_default_def)

lemma registry_update_cases:
  obtains e where "registry_update hs now c u s = (Inl e, s)"
  | existing b s' where "dget (rg_store s) c = Some existing" "int (pb_version existing) = pu_current_version u"
      "registry_distribute hs now (apply_update now u (pb_policy existing)) s = (Inr b, s')"
      "registry_update hs now c u s = (Inr b, store_bundle c b s')"
proof (cases "update_check now c u s")
  case (Inl e)
  then show ?thesis using that(1) by (simp add: registry_update_def)
next
  case (Inr q)
  then obtain existing where ex: "dget (rg_store s) c = Some existing"
    "int (pb_version existing) = pu_current_version u" "q = (existing, apply_update now u (pb_policy existing))"
    by (auto simp: update_check_def split: option.splits if_splits)
  obtain r s' where d: "registry_distribute hs now (apply_update now u (pb_policy existing)) s = (r, s')"
    by fastforce
  show ?thesis
  proof (cases r)
    case (Inl e)
    then show ?thesis using that(1) d Inr ex registry_distribute_fail [of hs now _ s e s']
      by (auto simp: registry_update_def)
  next
    case (Inr b)
    have "rg_store s' = rg_store s" using registry_distribute_ok(5) [OF d [unfolded Inr]] by simp
    then show ?thesis using that(2) d Inr ex \<open>update_check now c u s = Inr q\<close>
      by (auto simp: registry_update_def update_commit_def)
  qed
qed

lemma registry_update_inv: "registry_inv s \<Longrightarrow> registry_inv (snd (registry_update hs now c u s))"
proof (rule registry_update_cases [of hs now c u s])
  fix existing b s'
  assume inv: "registry_inv s" and ex: "dget (rg_store s) c = Some existing"
    and d: "registry_distribute hs now (apply_update now u (pb_policy existing)) s = (Inr b, s')"
    and eq: "registry_update hs now c u s = (Inr b, store_bundle c b s')"
  have "pc_chain_id (apply_update now u (pb_policy existing)) = c"
    using inv ex by (simp add: registry_inv_def)
  then show ?thesis using store_bundle_inv [OF inv d] eq by simp
qed simp_all

text \<open>A successful update raises the version the store has for the chain.\<close>

lemma registry_update_version:
  assumes "registry_inv s" "fst (registry_update hs now c u s) = Inr b"
  shows "\<exists>old. get_policy s c = Some old \<and> int (pb_version old) = pu_current_version u \<and>
     get_policy (snd (registry_update hs now c u s)) c = Some b \<and>
     pb_policy b = apply_update now u (pb_policy old) \<and> pb_version old < pb_version b"
  using assms(2)
proof (cases rule: registry_update_cases [of hs now c u s])
  case (2 existing b' s')
  moreover have "b' = b" using 2(4) assms(2) by simp
  moreover have "pb_version existing \<le> ds_version (rg_distributor s)"
    using assms(1) 2(1) by (simp add: registry_inv_def)
  ultimately show ?thesis
    using registry_distribute_ok [OF 2(3)]
    by (auto simp: get_policy_def store_bundle_def)
qed (use assms(2) in simp)

section \<open>Interleaved sections\<close>

text \<open>
  A pending call waits to distribute its policy or to store its bundle; an update remembers the
  bundle it read. \<open>seen\<close> is the ghost list of every bundle made so far.
\<close>

datatype pending =
    To_distribute "policy_bundle option" policy_config
  | To_put "policy_bundle option" policy_bundle

inductive reg_step ::
  "hasher \<Rightarrow> registry \<times> pending list \<times> policy_bundle list \<Rightarrow>
   registry \<times> pending list \<times> policy_bundle list \<Rightarrow> bool" for hs where
  start_register: "reg_step hs (s, ps, seen) (s, To_distribute None p # ps, seen)"
| start_update: "update_check now c u s = Inr (old, p) \<Longrightarrow>
    reg_step hs (s, ps, seen) (s, To_distribute (Some old) p # ps, seen)"
| bundle_distributed: "To_distribute base p \<in> set ps \<Longrightarrow> registry_distribute hs now p s = (Inr b, s') \<Longrightarrow>
    reg_step hs (s, ps, seen) (s', To_put base b # remove1 (To_distribute base p) ps, b # seen)"
| distribution_rejected: "To_distribute base p \<in> set ps \<Longrightarrow> registry_distribute hs now p s = (Inl e, s') \<Longrightarrow>
    reg_step hs (s, ps, seen) (s', remove1 (To_distribute base p) ps, seen)"
| put_register: "To_put None b \<in> set ps \<Longrightarrow>
    reg_step hs (s, ps, seen)
      (store_bundle (pc_chain_id (pb_policy b)) b s, remove1 (To_put None b) ps, seen)"
| put_update: "To_put (Some old) b \<in> set ps \<Longrightarrow>
    reg_step hs (s, ps, seen)
      (snd (update_commit (pc_chain_id (pb_policy b)) (int (pb_version old)) b s),
       remove1 (To_put (Some old) b) ps, seen)"

inductive reg_reach :: "hasher \<Rightarrow> distributor \<Rightarrow> registry \<times> pending list \<times> policy_bundle list \<Rightarrow> bool"
  for hs d where
  reg_init: "reg_reach hs d (new_registry d, [], [])"
| reg_next: "reg_reach hs d c \<Longrightarrow> reg_step hs c c' \<Longrightarrow> reg_reach hs d c'"

fun base_of :: "pending \<Rightarrow> policy_bundle option" where
  "base_of (To_distribute base _) = base"
| "base_of (To_put base _) = base"

definition reg_inv :: "registry \<times> pending list \<times> policy_bundle list \<Rightarrow> bool" where
  "reg_inv = (\<lambda>(s, ps, seen).
     distinct (map pb_version seen) \<and>
     (\<forall>b \<in> set seen. pb_version b \<le> ds_version (rg_distributor s)) \<and>
     (\<forall>c b. dget (rg_store s) c = Some b \<longrightarrow> b \<in> set seen) \<and>
     (\<forall>q \<in> set ps. case base_of q of None \<Rightarrow> True | Some b \<Rightarrow> b \<in> set seen) \<and>
     (\<forall>base b. To_put base b \<in> set ps \<longrightarrow> b \<in> set seen))"

lemma update_commit_store:
  "dget (rg_store (snd (update_commit c v b s))) x = Some y \<Longrightarrow> y = b \<or> dget (rg_store s) x = Some y"
  by (auto simp: update_commit_def store_bundle_def split: option.splits if_splits)

lemma update_commit_distributor [simp]:
  "rg_distributor (snd (update_commit c v b s)) = rg_distributor s"
  by (auto simp: update_commit_def store_bundle_def split: option.splits)

lemma reg_step_inv: "reg_step hs c c' \<Longrightarrow> reg_inv c \<Longrightarrow> reg_inv c'"
proof (induction rule: reg_step.induct)
  case (start_update now c u s old p ps seen)
  then have "dget (rg_store s) c = Some old"
    by (auto simp: update_check_def split: option.splits if_splits)
  then show ?case using start_update by (auto simp: reg_inv_def)
next
  case (bundle_distributed base p ps now s b s' seen)
  note d = registry_distribute_ok [OF bundle_distributed(2)]
  have new: "b' \<in> set seen \<Longrightarrow> pb_version b' \<noteq> pb_version b" for b'
    using bundle_distributed(3) d(2) by (fastforce simp: reg_inv_def)
  have base: "case base of None \<Rightarrow> True | Some b \<Rightarrow> b \<in> set seen"
    using bundle_distributed(1,3) by (force simp: reg_inv_def)
  show ?case
    using bundle_distributed(3) d(2,5) new base
    by (auto simp: reg_inv_def image_iff le_SucI dest!: set_remove1_subset [THEN subsetD] split: option.splits)
next
  case (distribution_rejected base p ps now s e s' seen)
  then show ?case using registry_distribute_fail [OF distribution_rejected(2)]
    by (auto simp: reg_inv_def dest!: set_remove1_subset [THEN subsetD])
next
  case (put_register b ps s seen)
  then show ?case
    by (auto simp: reg_inv_def store_bundle_def dest!: set_remove1_subset [THEN subsetD])
next
  case (put_update old b ps s seen)
  then show ?case
    by (auto simp: reg_inv_def dest!: update_commit_store set_remove1_subset [THEN subsetD])
qed (auto simp: reg_inv_def)

lemma reg_reach_inv: "reg_reach hs d c \<Longrightarrow> reg_inv c"
proof (induction rule: reg_reach.induct)
  case reg_init
  then show ?case by (simp add: reg_inv_def new_registry_def)
next
  case (reg_next c c')
  then show ?case using reg_step_inv by blast
qed

text \<open>
  When an update's last section stores its bundle, it replaces the very bundle the update was
  computed from: versions are never reused, so the version comparison identifies it.
\<close>

lemma no_lost_update:
  assumes "reg_reach hs d (s, ps, seen)" "To_put (Some old) b \<in> set ps"
    and "fst (update_commit (pc_chain_id (pb_policy b)) (int (pb_version old)) b s) = Inr b'"
  shows "get_policy s (pc_chain_id (pb_policy b)) = Some old"
proof -
  obtain current where cur: "dget (rg_store s) (pc_chain_id (pb_policy b)) = Some current"
    "pb_version current = pb_version old"
    using assms(3) by (auto simp: update_commit_def split: option.splits if_splits)
  have inv: "reg_inv (s, ps, seen)" by (rule reg_reach_inv [OF assms(1)])
  then have "distinct (map pb_version seen)" "current \<in> set seen"
    using cur(1) by (auto simp: reg_inv_def)
  moreover have "old \<in> set seen" using inv assms(2) by (force simp: reg_inv_def)
  ultimately have "current = old" using cur(2) by (metis distinct_map inj_onD)
  then show ?thesis using cur(1) by (simp add: get_policy_def)
qed

section \<open>Pages\<close>

text \<open>Consecutive pages cover the store in order, without gaps or repetitions.\<close>

definition pages_upto :: "nat \<Rightarrow> nat \<Rightarrow> 'a list \<Rightarrow> 'a list" where
  "pages_upto k n xs = concat (map (\<lambda>page. page_of page n xs) [1..<Suc k])"

lemma pages_upto_take: "pages_upto k n xs = take (k * n) xs"
proof (induction k)
  case (Suc k)
  have "pages_upto (Suc k) n xs = pages_upto k n xs @ page_of (Suc k) n xs"
    by (simp add: pages_upto_def)
  also have "\<dots> = take (k * n) xs @ take n (drop (k * n) xs)"
    by (simp add: Suc page_of_def slice_def)
  also have "\<dots> = take (Suc k * n) xs" by (metis add.commute mult_Suc take_add)
  finally show ?case .
qed (simp add: pages_upto_def)

lemma pages_cover: "length xs \<le> k * n \<Longrightarrow> pages_upto k n xs = xs"
  by (simp add: pages_upto_take)

end
