(* ===== verification/Rollouts.thy ===== *)
theory Rollouts
  imports Simulation Policy_Registry
begin

text \<open>
  The rollout pipeline: the life cycle of a policy from draft to active
  (\<open>rollouts/models.py\<close>, \<open>rollouts/registry.py\<close>) and its endpoints
  (\<open>rollouts/router.py\<close>), which also touch the policy registry and the distributor. The
  clock and the new identifiers are parameters. Each method of the registry is one section
  under its lock.
\<close>

section \<open>Data\<close>

datatype rollout_state = Draft | Simulated | Approved | Promoted | Active | Revoked

definition state_name :: "rollout_state \<Rightarrow> string" where
  "state_name s = (case s of Draft \<Rightarrow> ''draft'' | Simulated \<Rightarrow> ''simulated'' | Approved \<Rightarrow> ''approved''
     | Promoted \<Rightarrow> ''promoted'' | Active \<Rightarrow> ''active'' | Revoked \<Rightarrow> ''revoked'')"

record transition_record =
  tr_from :: rollout_state
  tr_to :: rollout_state
  tr_timestamp :: int
  tr_actor :: string

record rollout =
  ro_id :: string
  ro_policy_config :: policy_config
  ro_state :: rollout_state
  ro_created_at :: int
  ro_updated_at :: int
  ro_created_by :: string
  ro_history :: "transition_record list"
  ro_simulation_result :: "(string, pyval) pydict option"

definition new_rollout :: "string \<Rightarrow> int \<Rightarrow> policy_config \<Rightarrow> string \<Rightarrow> rollout" where
  "new_rollout uuid now p created_by =
     \<lparr>ro_id = uuid, ro_policy_config = p, ro_state = Draft, ro_created_at = now, ro_updated_at = now,
      ro_created_by = created_by, ro_history = [], ro_simulation_result = None\<rparr>"

section \<open>The registry\<close>

type_synonym rollouts = "(string, rollout) pydict"

definition MAX_SIM_RESULT_SIZE :: nat where "MAX_SIM_RESULT_SIZE = 65536"
definition MAX_HISTORY_LENGTH :: nat where "MAX_HISTORY_LENGTH = 1000"

fun valid_transitions :: "rollout_state \<Rightarrow> rollout_state list" where
  "valid_transitions Draft = [Simulated, Revoked]"
| "valid_transitions Simulated = [Approved, Revoked, Draft]"
| "valid_transitions Approved = [Promoted, Revoked, Draft]"
| "valid_transitions Promoted = [Active, Revoked, Approved]"
| "valid_transitions Active = [Revoked]"
| "valid_transitions Revoked = []"

definition rollout_create :: "string \<Rightarrow> int \<Rightarrow> policy_config \<Rightarrow> string \<Rightarrow> rollouts \<Rightarrow> rollout \<times> rollouts" where
  "rollout_create uuid now p created_by s =
     (let r = new_rollout uuid now p created_by in (r, dput s (ro_id r) r))"

definition rollout_get :: "rollouts \<Rightarrow> string \<Rightarrow> rollout option" where
  "rollout_get s rollout_id = dget s rollout_id"

definition rollout_list_all :: "rollouts \<Rightarrow> rollout_state option \<Rightarrow> int \<Rightarrow> int \<Rightarrow> rollout list \<times> nat" where
  "rollout_list_all s state_filter page per_page =
     (let all_items = (case state_filter of None \<Rightarrow> dvalues s
                       | Some st \<Rightarrow> filter (\<lambda>r. ro_state r = st) (dvalues s));
          page = nat (max 1 page); per_page = nat (max 1 per_page) in
      (page_of page per_page all_items, length all_items))"

definition record_transition :: "rollout_state \<Rightarrow> string \<Rightarrow> int \<Rightarrow> rollout \<Rightarrow> rollout" where
  "record_transition target actor now r =
     r\<lparr>ro_history := ro_history r @ [\<lparr>tr_from = ro_state r, tr_to = target, tr_timestamp = now, tr_actor = actor\<rparr>],
       ro_state := target, ro_updated_at := now\<rparr>"

definition rollout_transition ::
  "string \<Rightarrow> rollout_state \<Rightarrow> string \<Rightarrow> int \<Rightarrow> rollouts \<Rightarrow> rollout result \<times> rollouts" where
  "rollout_transition rollout_id target actor now s =
     (case dget s rollout_id of
        None \<Rightarrow> (Inl KeyError, s)
      | Some r \<Rightarrow>
          if target \<notin> set (valid_transitions (ro_state r)) then (Inl InvalidTransitionError, s)
          else if MAX_HISTORY_LENGTH \<le> length (ro_history r) then (Inl InvalidTransitionError, s)
          else (let r1 = record_transition target actor now r;
                    r2 = (if target = Draft then r1\<lparr>ro_simulation_result := None\<rparr> else r1) in
                (Inr r2, dput s rollout_id r2)))"

text \<open>\<open>json_length\<close> is the length of the serialized result, \<open>None\<close> when it is not serializable.\<close>

definition check_sim_result :: "nat option \<Rightarrow> unit result" where
  "check_sim_result json_length =
     (case json_length of None \<Rightarrow> Inl ValueError
      | Some n \<Rightarrow> if MAX_SIM_RESULT_SIZE < n then Inl ValueError else Inr ())"

definition set_simulation_result ::
  "((string, pyval) pydict \<Rightarrow> nat option) \<Rightarrow> string \<Rightarrow> (string, pyval) pydict \<Rightarrow> rollouts \<Rightarrow> rollout result \<times> rollouts" where
  "set_simulation_result json_length rollout_id res s =
     (case dget s rollout_id of
        None \<Rightarrow> (Inl KeyError, s)
      | Some r \<Rightarrow>
          if ro_state r \<noteq> Draft then (Inl InvalidTransitionError, s)
          else (case check_sim_result (json_length res) of
                  Inl e \<Rightarrow> (Inl e, s)
                | Inr _ \<Rightarrow> (let r1 = r\<lparr>ro_simulation_result := Some res\<rparr> in (Inr r1, dput s rollout_id r1))))"

definition rollout_simulate ::
  "((string, pyval) pydict \<Rightarrow> nat option) \<Rightarrow> string \<Rightarrow> (string, pyval) pydict \<Rightarrow> string \<Rightarrow> int \<Rightarrow> rollouts \<Rightarrow>
   rollout result \<times> rollouts" where
  "rollout_simulate json_length rollout_id res actor now s =
     (case dget s rollout_id of
        None \<Rightarrow> (Inl KeyError, s)
      | Some r \<Rightarrow>
          if ro_state r \<noteq> Draft then (Inl InvalidTransitionError, s)
          else (case check_sim_result (json_length res) of
                  Inl e \<Rightarrow> (Inl e, s)
                | Inr _ \<Rightarrow>
                    (let r1 = r\<lparr>ro_simulation_result := Some res\<rparr> in
                     if MAX_HISTORY_LENGTH \<le> length (ro_history r1)
                     then (Inl InvalidTransitionError, dput s rollout_id r1)
                     else (let r2 = record_transition Simulated actor now r1 in
                           (Inr r2, dput s rollout_id r2)))))"

section \<open>The endpoints\<close>

record control_app =
  ca_rollouts :: rollouts
  ca_registry :: registry

record rollout_response =
  rr_id :: string
  rr_state :: string
  rr_created_by :: string
  rr_created_at :: string
  rr_updated_at :: string
  rr_history :: "(string \<times> string \<times> string \<times> string) list"
  rr_simulation_result :: "(string, pyval) pydict option"

definition rollout_to_response :: "(int \<Rightarrow> string) \<Rightarrow> rollout \<Rightarrow> rollout_response" where
  "rollout_to_response fmt r =
     \<lparr>rr_id = ro_id r, rr_state = state_name (ro_state r), rr_created_by = ro_created_by r,
      rr_created_at = fmt (ro_created_at r), rr_updated_at = fmt (ro_updated_at r),
      rr_history = map (\<lambda>t. (state_name (tr_from t), state_name (tr_to t), fmt (tr_timestamp t), tr_actor t)) (ro_history r),
      rr_simulation_result = ro_simulation_result r\<rparr>"

definition get_rollout_or_404 :: "control_app \<Rightarrow> string \<Rightarrow> rollout result" where
  "get_rollout_or_404 app rollout_id =
     (case rollout_get (ca_rollouts app) rollout_id of None \<Rightarrow> Inl (HTTPException 404) | Some r \<Rightarrow> Inr r)"

definition transition_error :: "py_error \<Rightarrow> py_error" where
  "transition_error e = (if e = KeyError then HTTPException 404
     else if e = InvalidTransitionError then HTTPException 409 else e)"

definition map_error :: "(py_error \<Rightarrow> py_error) \<Rightarrow> 'a result \<Rightarrow> 'a result" where
  "map_error f r = (case r of Inl e \<Rightarrow> Inl (f e) | Inr x \<Rightarrow> Inr x)"

definition do_transition ::
  "string \<Rightarrow> rollout_state \<Rightarrow> string \<Rightarrow> int \<Rightarrow> control_app \<Rightarrow> rollout result \<times> control_app" where
  "do_transition rollout_id target actor now app =
     (let (r, s) = rollout_transition rollout_id target actor now (ca_rollouts app) in
      (map_error transition_error r, app\<lparr>ca_rollouts := s\<rparr>))"

definition create_rollout ::
  "string \<Rightarrow> int \<Rightarrow> pyfloat \<Rightarrow> (string, pyval) pydict \<Rightarrow> string \<Rightarrow> control_app \<Rightarrow> rollout result \<times> control_app" where
  "create_rollout uuid now issued body created_by app =
     (case build_policy issued body of
        Inl e \<Rightarrow> (Inl e, app)
      | Inr p \<Rightarrow> (let (r, s) = rollout_create uuid now p created_by (ca_rollouts app) in
                  (Inr r, app\<lparr>ca_rollouts := s\<rparr>)))"

definition sim_result_dict :: "policy_bundle \<Rightarrow> (string, pyval) pydict" where
  "sim_result_dict b = [(''policy_hash'', VStr (pb_policy_hash b)),
     (''distributed_at'', VFloat (pb_distributed_at b)), (''version'', VInt (int (pb_version b)))]"

definition simulate_rollout ::
  "hasher \<Rightarrow> ((string, pyval) pydict \<Rightarrow> nat option) \<Rightarrow> pyfloat \<Rightarrow> int \<Rightarrow> string \<Rightarrow> control_app \<Rightarrow>
   rollout result \<times> control_app" where
  "simulate_rollout hs json_length now_s now rollout_id app =
     (case get_rollout_or_404 app rollout_id of
        Inl e \<Rightarrow> (Inl e, app)
      | Inr r \<Rightarrow>
          (let (b, reg) = registry_distribute hs now_s (ro_policy_config r) (ca_registry app);
               app1 = app\<lparr>ca_registry := reg\<rparr> in
           case b of
             Inl _ \<Rightarrow> (Inl (HTTPException 422), app1)
           | Inr bundle \<Rightarrow>
               (let (r1, s) = rollout_simulate json_length rollout_id (sim_result_dict bundle) ''system'' now (ca_rollouts app1) in
                (map_error transition_error r1, app1\<lparr>ca_rollouts := s\<rparr>))))"

definition approve_rollout :: "string \<Rightarrow> string \<Rightarrow> int \<Rightarrow> control_app \<Rightarrow> rollout result \<times> control_app" where
  "approve_rollout rollout_id actor now app = do_transition rollout_id Approved actor now app"

definition promote_rollout :: "string \<Rightarrow> string \<Rightarrow> int \<Rightarrow> control_app \<Rightarrow> rollout result \<times> control_app" where
  "promote_rollout rollout_id actor now app = do_transition rollout_id Promoted actor now app"

definition activate_rollout ::
  "hasher \<Rightarrow> pyfloat \<Rightarrow> int \<Rightarrow> string \<Rightarrow> string \<Rightarrow> control_app \<Rightarrow> rollout result \<times> control_app" where
  "activate_rollout hs now_s now rollout_id actor app =
     (case get_rollout_or_404 app rollout_id of
        Inl e \<Rightarrow> (Inl e, app)
      | Inr r \<Rightarrow>
          (let (b, reg) = register hs now_s (ro_policy_config r) (ca_registry app);
               app1 = app\<lparr>ca_registry := reg\<rparr> in
           case b of
             Inl _ \<Rightarrow> (Inl (HTTPException 409), app1)
           | Inr _ \<Rightarrow>
               (let (r1, app2) = do_transition rollout_id Active actor now app1 in
                (case r1 of
                   Inr r2 \<Rightarrow> Inr r2
                 | Inl e \<Rightarrow>
                     (case e of
                        HTTPException n \<Rightarrow> if n = 404 \<or> n = 409 then Inl e else Inr r
                      | _ \<Rightarrow> Inl e), app2))))"

definition revoke_rollout :: "string \<Rightarrow> string \<Rightarrow> int \<Rightarrow> control_app \<Rightarrow> rollout result \<times> control_app" where
  "revoke_rollout rollout_id actor now app = do_transition rollout_id Revoked actor now app"

section \<open>The life cycle\<close>

text \<open>A history is a path of allowed transitions.\<close>

fun valid_path :: "rollout_state \<Rightarrow> transition_record list \<Rightarrow> rollout_state \<Rightarrow> bool" where
  "valid_path s [] t \<longleftrightarrow> s = t"
| "valid_path s (x # xs) t \<longleftrightarrow>
     tr_from x = s \<and> tr_to x \<in> set (valid_transitions s) \<and> valid_path (tr_to x) xs t"

lemma valid_path_snoc:
  "valid_path s (xs @ [x]) t \<longleftrightarrow>
     valid_path s xs (tr_from x) \<and> tr_to x \<in> set (valid_transitions (tr_from x)) \<and> tr_to x = t"
  by (induction xs arbitrary: s) auto

definition rollout_ok :: "rollout \<Rightarrow> bool" where
  "rollout_ok r \<longleftrightarrow> valid_path Draft (ro_history r) (ro_state r) \<and>
     length (ro_history r) \<le> MAX_HISTORY_LENGTH"

inductive rollout_step :: "rollouts \<Rightarrow> rollouts \<Rightarrow> bool" where
  step_create: "dget s uuid = None \<Longrightarrow> rollout_step s (snd (rollout_create uuid now p by_whom s))"
| step_transition: "rollout_step s (snd (rollout_transition rid target actor now s))"
| step_set_result: "rollout_step s (snd (set_simulation_result jl rid res s))"
| step_simulate: "rollout_step s (snd (rollout_simulate jl rid res actor now s))"

inductive_cases rollout_step_elim: "rollout_step s s'"

inductive rollout_reach :: "rollouts \<Rightarrow> bool" where
  reach_empty: "rollout_reach []"
| reach_next: "rollout_reach s \<Longrightarrow> rollout_step s s' \<Longrightarrow> rollout_reach s'"

text \<open>
  What any step does to one rollout: nothing, or its creation, or a new simulation result in
  draft, or one allowed transition recorded at the end of its history.
\<close>

definition rollout_evolves :: "rollout option \<Rightarrow> rollout option \<Rightarrow> bool" where
  "rollout_evolves a b \<longleftrightarrow>
     b = a \<or>
     (a = None \<and> (\<exists>r. b = Some r \<and> ro_state r = Draft \<and> ro_history r = [])) \<or>
     (\<exists>r r'. a = Some r \<and> b = Some r' \<and>
        ((ro_state r = Draft \<and> (\<exists>res. r' = r\<lparr>ro_simulation_result := Some res\<rparr>)) \<or>
         (length (ro_history r) < MAX_HISTORY_LENGTH \<and> ro_state r' \<in> set (valid_transitions (ro_state r)) \<and>
          (\<exists>t. ro_history r' = ro_history r @ [t] \<and> tr_from t = ro_state r \<and> tr_to t = ro_state r'))))"

lemma record_transition_sel [simp]:
  "ro_state (record_transition t actor now r) = t"
  "ro_history (record_transition t actor now r) =
     ro_history r @ [\<lparr>tr_from = ro_state r, tr_to = t, tr_timestamp = now, tr_actor = actor\<rparr>]"
  "ro_simulation_result (record_transition t actor now r) = ro_simulation_result r"
  "ro_policy_config (record_transition t actor now r) = ro_policy_config r"
  by (simp_all add: record_transition_def)

lemma evolves_refl [simp]: "rollout_evolves a a"
  by (simp add: rollout_evolves_def)

lemma evolves_transition:
  "t \<in> set (valid_transitions (ro_state r)) \<Longrightarrow> length (ro_history r) < MAX_HISTORY_LENGTH \<Longrightarrow>
   ro_state r' = t \<Longrightarrow>
   ro_history r' = ro_history r @ [\<lparr>tr_from = ro_state r, tr_to = t, tr_timestamp = now, tr_actor = actor\<rparr>] \<Longrightarrow>
   rollout_evolves (Some r) (Some r')"
  by (simp add: rollout_evolves_def)

lemma transition_evolves: "rollout_evolves (dget s x) (dget (snd (rollout_transition rid t actor now s)) x)"
proof (cases "dget s rid")
  case (Some r)
  show ?thesis
    by (auto simp: rollout_transition_def Some Let_def intro!: evolves_transition)
qed (simp add: rollout_transition_def)

lemma simulate_evolves: "rollout_evolves (dget s x) (dget (snd (rollout_simulate jl rid res actor now s)) x)"
proof (cases "dget s rid")
  case (Some r)
  then have "rollout_evolves (Some r) (Some (r\<lparr>ro_simulation_result := Some res\<rparr>))" if "ro_state r = Draft"
    using that by (auto simp: rollout_evolves_def)
  then show ?thesis
    by (auto simp: rollout_simulate_def Some Let_def split: sum.splits
        intro!: evolves_transition [where t = Simulated])
qed (simp add: rollout_simulate_def)

lemma set_result_evolves: "rollout_evolves (dget s x) (dget (snd (set_simulation_result jl rid res s)) x)"
proof (cases "dget s rid")
  case (Some r)
  then have "rollout_evolves (Some r) (Some (r\<lparr>ro_simulation_result := Some res\<rparr>))" if "ro_state r = Draft"
    using that by (auto simp: rollout_evolves_def)
  then show ?thesis
    by (auto simp: set_simulation_result_def Some Let_def split: sum.splits)
qed (simp add: set_simulation_result_def)

lemma step_evolves: "rollout_step s s' \<Longrightarrow> rollout_evolves (dget s x) (dget s' x)"
proof (induction rule: rollout_step.induct)
  case (step_create s uuid now p by_whom)
  then show ?case
    by (auto simp: rollout_create_def new_rollout_def Let_def rollout_evolves_def)
qed (simp_all add: transition_evolves simulate_evolves set_result_evolves)

lemma evolves_ok: "rollout_evolves (Some r) (Some r') \<Longrightarrow> rollout_ok r \<Longrightarrow> rollout_ok r'"
  by (auto simp: rollout_evolves_def rollout_ok_def valid_path_snoc)

lemma evolves_new_ok: "rollout_evolves None (Some r') \<Longrightarrow> rollout_ok r'"
  by (auto simp: rollout_evolves_def rollout_ok_def)

lemma reach_ok: "rollout_reach s \<Longrightarrow> dget s x = Some r \<Longrightarrow> rollout_ok r"
proof (induction arbitrary: r rule: rollout_reach.induct)
  case (reach_next s s')
  have ev: "rollout_evolves (dget s x) (Some r)"
    using step_evolves [OF reach_next.hyps(2), of x] reach_next.prems by simp
  show ?case
  proof (cases "dget s x")
    case None
    then show ?thesis using ev evolves_new_ok by simp
  next
    case (Some r0)
    then show ?thesis using ev evolves_ok reach_next.IH by metis
  qed
qed simp

text \<open>Revocation is final.\<close>

lemma evolves_revoked: "rollout_evolves (Some r) b \<Longrightarrow> ro_state r = Revoked \<Longrightarrow> b = Some r"
  by (auto simp: rollout_evolves_def)

text \<open>The transitions that must have happened, in order, before a state is reached.\<close>

fun required_path :: "rollout_state \<Rightarrow> (rollout_state \<times> rollout_state) list" where
  "required_path Draft = []"
| "required_path Simulated = [(Draft, Simulated)]"
| "required_path Approved = [(Draft, Simulated), (Simulated, Approved)]"
| "required_path Promoted = [(Draft, Simulated), (Simulated, Approved), (Approved, Promoted)]"
| "required_path Active =
     [(Draft, Simulated), (Simulated, Approved), (Approved, Promoted), (Promoted, Active)]"
| "required_path Revoked = []"

definition edges :: "transition_record list \<Rightarrow> (rollout_state \<times> rollout_state) list" where
  "edges h = map (\<lambda>t. (tr_from t, tr_to t)) h"

lemma required_step:
  assumes "b \<in> set (valid_transitions a)" "subseq (required_path a) es"
  shows "subseq (required_path b) (es @ [(a, b)])"
proof -
  have drop: "subseq xs es \<Longrightarrow> subseq xs (es @ [y])" for xs y
    by (rule list_emb_prefix)
  have fwd: "subseq (required_path a @ [(a, b)]) (es @ [(a, b)])"
    using assms(2) by (intro list_emb_append_mono) auto
  have rollback: "subseq (required_path Approved) es" if "a = Promoted"
    using assms(2) that subseq_order.trans [of "required_path Approved" "required_path Promoted" es]
    by simp
  show ?thesis
    using assms fwd rollback drop by (cases a; cases b) auto
qed

lemma valid_path_required: "valid_path Draft h s \<Longrightarrow> subseq (required_path s) (edges h)"
proof (induction h arbitrary: s rule: rev_induct)
  case (snoc t h)
  then have "subseq (required_path (tr_from t)) (edges h)" "tr_to t \<in> set (valid_transitions (tr_from t))" "s = tr_to t"
    by (auto simp: valid_path_snoc)
  then show ?case using required_step by (auto simp: edges_def)
qed (auto simp: edges_def)

section \<open>Endpoint steps\<close>

text \<open>
  Through the endpoints a rollout that left the draft state carries a simulation result:
  \<open>SIMULATED\<close> is entered only by \<open>simulate\<close>, which stores the result in the same section.
\<close>

inductive app_step :: "hasher \<Rightarrow> control_app \<Rightarrow> control_app \<Rightarrow> bool" for hs where
  app_create: "dget (ca_rollouts app) uuid = None \<Longrightarrow>
    app_step hs app (snd (create_rollout uuid now issued body by_whom app))"
| app_simulate: "app_step hs app (snd (simulate_rollout hs jl now_s now rid app))"
| app_approve: "app_step hs app (snd (approve_rollout rid actor now app))"
| app_promote: "app_step hs app (snd (promote_rollout rid actor now app))"
| app_activate: "app_step hs app (snd (activate_rollout hs now_s now rid actor app))"
| app_revoke: "app_step hs app (snd (revoke_rollout rid actor now app))"

inductive app_reach :: "hasher \<Rightarrow> distributor \<Rightarrow> control_app \<Rightarrow> bool" for hs d where
  app_init: "app_reach hs d \<lparr>ca_rollouts = [], ca_registry = new_registry d\<rparr>"
| app_next: "app_reach hs d app \<Longrightarrow> app_step hs app app' \<Longrightarrow> app_reach hs d app'"

definition simulated_ok :: "rollout \<Rightarrow> bool" where
  "simulated_ok r \<longleftrightarrow> ro_state r \<in> {Simulated, Approved, Promoted, Active} \<longrightarrow> ro_simulation_result r \<noteq> None"

lemma do_transition_app:
  "ca_rollouts (snd (do_transition rid t actor now app)) = snd (rollout_transition rid t actor now (ca_rollouts app))"
  "ca_registry (snd (do_transition rid t actor now app)) = ca_registry app"
  by (simp_all add: do_transition_def case_prod_unfold Let_def)

lemma transition_simulated_ok:
  assumes "\<forall>x r. dget s x = Some r \<longrightarrow> simulated_ok r" "t \<noteq> Simulated" "t \<noteq> Draft"
  shows "\<forall>x r. dget (snd (rollout_transition rid t actor now s)) x = Some r \<longrightarrow> simulated_ok r"
proof -
  have "simulated_ok (record_transition t actor now r)"
    if "dget s rid = Some r" "t \<in> set (valid_transitions (ro_state r))" for r
  proof -
    have "simulated_ok r" using assms(1) that(1) by blast
    then show ?thesis using that(2) assms(2,3) by (cases "ro_state r") (auto simp: simulated_ok_def)
  qed
  then show ?thesis using assms by (auto simp: rollout_transition_def Let_def split: option.splits)
qed

lemma simulate_simulated_ok:
  assumes "\<forall>x r. dget s x = Some r \<longrightarrow> simulated_ok r"
  shows "\<forall>x r. dget (snd (rollout_simulate jl rid res actor now s)) x = Some r \<longrightarrow> simulated_ok r"
  using assms
  by (auto simp: rollout_simulate_def Let_def simulated_ok_def record_transition_def split: option.splits sum.splits)

lemma activate_rollouts:
  "ca_rollouts (snd (activate_rollout hs now_s now rid actor app)) \<in>
     {ca_rollouts app, snd (rollout_transition rid Active actor now (ca_rollouts app))}"
  by (auto simp: activate_rollout_def case_prod_unfold Let_def do_transition_app split: sum.splits)

lemma simulate_rollouts:
  "\<exists>res. ca_rollouts (snd (simulate_rollout hs jl now_s now rid app)) \<in>
     {ca_rollouts app, snd (rollout_simulate jl rid res ''system'' now (ca_rollouts app))}"
  by (auto simp: simulate_rollout_def case_prod_unfold Let_def split: sum.splits)

lemma app_step_rollouts:
  assumes "app_step hs app app'"
  shows "ca_rollouts app' = ca_rollouts app \<or> rollout_step (ca_rollouts app) (ca_rollouts app')"
  using assms
proof (induction rule: app_step.induct)
  case (app_create app uuid now issued body by_whom)
  then show ?case
    by (auto simp: create_rollout_def case_prod_unfold Let_def split: sum.splits intro: step_create)
next
  case (app_simulate app jl now_s now rid)
  obtain res where "ca_rollouts (snd (simulate_rollout hs jl now_s now rid app)) \<in>
     {ca_rollouts app, snd (rollout_simulate jl rid res ''system'' now (ca_rollouts app))}"
    using simulate_rollouts by blast
  then show ?case using step_simulate [of "ca_rollouts app" jl rid res "''system''" now] by auto
next
  case (app_activate app now_s now rid actor)
  show ?case using activate_rollouts [of hs now_s now rid actor app] step_transition [of "ca_rollouts app" rid Active actor now]
    by auto
qed (auto simp: approve_rollout_def promote_rollout_def revoke_rollout_def do_transition_app intro: step_transition)

lemma app_step_simulated_ok:
  assumes "app_step hs app app'" "\<forall>x r. dget (ca_rollouts app) x = Some r \<longrightarrow> simulated_ok r"
  shows "\<forall>x r. dget (ca_rollouts app') x = Some r \<longrightarrow> simulated_ok r"
  using assms
proof (induction rule: app_step.induct)
  case (app_create app uuid now issued body by_whom)
  then show ?case
    by (auto simp: create_rollout_def rollout_create_def new_rollout_def simulated_ok_def Let_def split: sum.splits)
next
  case (app_simulate app jl now_s now rid)
  obtain res where "ca_rollouts (snd (simulate_rollout hs jl now_s now rid app)) \<in>
     {ca_rollouts app, snd (rollout_simulate jl rid res ''system'' now (ca_rollouts app))}"
    using simulate_rollouts by blast
  then show ?case using simulate_simulated_ok [OF app_simulate] app_simulate by auto
next
  case (app_activate app now_s now rid actor)
  show ?case using activate_rollouts [of hs now_s now rid actor app]
      transition_simulated_ok [OF app_activate, of Active rid actor now] app_activate by auto
next
  case (app_approve app rid actor now)
  show ?case unfolding approve_rollout_def do_transition_app
    by (rule transition_simulated_ok [OF app_approve]) simp_all
next
  case (app_promote app rid actor now)
  show ?case unfolding promote_rollout_def do_transition_app
    by (rule transition_simulated_ok [OF app_promote]) simp_all
next
  case (app_revoke app rid actor now)
  show ?case unfolding revoke_rollout_def do_transition_app
    by (rule transition_simulated_ok [OF app_revoke]) simp_all
qed

lemma app_reach_rollouts: "app_reach hs d app \<Longrightarrow> rollout_reach (ca_rollouts app)"
proof (induction rule: app_reach.induct)
  case app_init
  then show ?case by (simp add: reach_empty)
next
  case (app_next app app')
  then show ?case using app_step_rollouts [of hs app app'] reach_next by auto
qed

lemma app_reach_simulated:
  "app_reach hs d app \<Longrightarrow> dget (ca_rollouts app) x = Some r \<Longrightarrow> simulated_ok r"
proof -
  have "app_reach hs d app \<Longrightarrow> \<forall>x r. dget (ca_rollouts app) x = Some r \<longrightarrow> simulated_ok r"
    by (induction rule: app_reach.induct) (auto dest: app_step_simulated_ok)
  then show "app_reach hs d app \<Longrightarrow> dget (ca_rollouts app) x = Some r \<Longrightarrow> simulated_ok r" by blast
qed

text \<open>
  Activation registers the policy before it looks at the rollout's state: a valid policy of a
  rollout that is not promoted goes live although the call answers 409.
\<close>

lemma activate_registers_unapproved:
  assumes "dget (ca_rollouts app) rid = Some r" "ro_state r \<noteq> Promoted"
    and "valid_policy (ds_strict (rg_distributor (ca_registry app))) (ro_policy_config r)"
  shows "\<exists>app' b. activate_rollout hs now_s now rid actor app = (Inl (HTTPException 409), app') \<and>
     get_policy (ca_registry app') (pc_chain_id (ro_policy_config r)) = Some b \<and>
     pb_policy b = ro_policy_config r \<and> ca_rollouts app' = ca_rollouts app"
proof -
  let ?p = "ro_policy_config r"
  have "is_ok (fst (distribute (fst hs) (snd hs) now_s ?p (rg_distributor (ca_registry app))))"
    using assms(3) distribute_ok_iff by blast
  then obtain b reg where reg: "register hs now_s ?p (ca_registry app) = (Inr b, reg)"
    by (auto simp: register_def registry_distribute_def is_ok_iff case_prod_unfold Let_def)
  have "Active \<notin> set (valid_transitions (ro_state r))"
    using assms(2) by (cases "ro_state r") auto
  then have "activate_rollout hs now_s now rid actor app = (Inl (HTTPException 409), app\<lparr>ca_registry := reg\<rparr>)"
    using assms(1) reg
    by (simp add: activate_rollout_def get_rollout_or_404_def rollout_get_def do_transition_def
        rollout_transition_def map_error_def transition_error_def Let_def)
  then show ?thesis using register_get [of hs now_s ?p "ca_registry app" b] reg by auto
qed

end
