(* ===== verification/Tenants.thy ===== *)
theory Tenants
  imports Policy_Types Distribution
begin

text \<open>
  The tenant hierarchy (\<open>tenants/models.py\<close>, \<open>tenants/registry.py\<close>), the effective policy
  a tenant inherits (\<open>tenants/resolver.py\<close>) and their endpoints
  (\<open>api/routes/tenants.py\<close>). The walks up the hierarchy stop with \<open>RuntimeError\<close> after
  \<open>MAX_DEPTH\<close> nodes; the number of nodes left is the recursion argument.
\<close>

section \<open>The registry\<close>

record tenant_node =
  tn_id :: string
  tn_name :: string
  tn_parent_id :: "string option"
  tn_policy_overrides :: "(string, pyval) pydict"
  tn_created_at :: pyfloat

type_synonym tenants = "(string, tenant_node) pydict"

definition MAX_DEPTH :: nat where "MAX_DEPTH = 100"

fun walk_ancestors :: "tenants \<Rightarrow> nat \<Rightarrow> string option \<Rightarrow> string list result" where
  "walk_ancestors ts left None = Inr []"
| "walk_ancestors ts 0 (Some i) = Inl RuntimeError"
| "walk_ancestors ts (Suc left) (Some i) =
     (case dget ts i of
        None \<Rightarrow> Inr []
      | Some n \<Rightarrow> rbind (walk_ancestors ts left (tn_parent_id n)) (\<lambda>r. Inr (i # r)))"

definition tenant_register :: "tenant_node \<Rightarrow> tenants \<Rightarrow> tenant_node result \<times> tenants" where
  "tenant_register t ts =
     (if dget ts (tn_id t) \<noteq> None then (Inl ValueError, ts)
      else if (case tn_parent_id t of None \<Rightarrow> False | Some p \<Rightarrow> dget ts p = None) then (Inl ValueError, ts)
      else (case (case tn_parent_id t of None \<Rightarrow> Inr [] | Some p \<Rightarrow> walk_ancestors ts MAX_DEPTH (Some p)) of
              Inl e \<Rightarrow> (Inl e, ts)
            | Inr _ \<Rightarrow> (Inr t, dput ts (tn_id t) t)))"

definition tenant_get :: "tenants \<Rightarrow> string \<Rightarrow> tenant_node option" where
  "tenant_get ts tenant_id = dget ts tenant_id"

definition tenant_list_all :: "tenants \<Rightarrow> tenant_node list" where
  "tenant_list_all ts = dvalues ts"

definition tenant_update :: "string \<Rightarrow> (string, pyval) pydict \<Rightarrow> tenants \<Rightarrow> tenant_node result \<times> tenants" where
  \<comment> \<open>a name that was stored stays when the overrides are then rejected\<close>
  "tenant_update tenant_id updates ts =
     (case dget ts tenant_id of
        None \<Rightarrow> (Inl KeyError, ts)
      | Some t \<Rightarrow>
          (case (case dget updates ''name'' of
                   None \<Rightarrow> Inr t | Some (VStr s) \<Rightarrow> Inr (t\<lparr>tn_name := s\<rparr>) | Some _ \<Rightarrow> Inl TypeError) of
             Inl e \<Rightarrow> (Inl e, ts)
           | Inr t1 \<Rightarrow>
               (case dget updates ''policy_overrides'' of
                  None \<Rightarrow> (Inr t1, dput ts tenant_id t1)
                | Some (VDict d) \<Rightarrow>
                    (let t2 = t1\<lparr>tn_policy_overrides := d\<rparr> in (Inr t2, dput ts tenant_id t2))
                | Some _ \<Rightarrow> (Inl TypeError, dput ts tenant_id t1))))"

definition children :: "tenants \<Rightarrow> string \<Rightarrow> tenant_node list" where
  "children ts tenant_id = filter (\<lambda>t. tn_parent_id t = Some tenant_id) (dvalues ts)"

definition tenant_delete :: "string \<Rightarrow> tenants \<Rightarrow> unit result \<times> tenants" where
  "tenant_delete tenant_id ts =
     (if dget ts tenant_id = None then (Inl KeyError, ts)
      else if children ts tenant_id \<noteq> [] then (Inl ValueError, ts)
      else (Inr (), ddel ts tenant_id))"

fun ancestor_nodes :: "tenants \<Rightarrow> nat \<Rightarrow> string option \<Rightarrow> tenant_node list result" where
  \<comment> \<open>leaf to root\<close>
  "ancestor_nodes ts left None = Inr []"
| "ancestor_nodes ts 0 (Some i) = Inl RuntimeError"
| "ancestor_nodes ts (Suc left) (Some i) =
     (case dget ts i of
        None \<Rightarrow> Inr []
      | Some n \<Rightarrow> rbind (ancestor_nodes ts left (tn_parent_id n)) (\<lambda>r. Inr (n # r)))"

definition get_ancestors :: "tenants \<Rightarrow> string \<Rightarrow> tenant_node list result" where
  "get_ancestors ts tenant_id =
     (case dget ts tenant_id of
        None \<Rightarrow> Inr []
      | Some n \<Rightarrow> rbind (ancestor_nodes ts MAX_DEPTH (tn_parent_id n)) (\<lambda>r. Inr (rev r)))"

section \<open>The hierarchy is a forest\<close>

text \<open>The ancestors of a node, nearest first.\<close>

inductive ancestry :: "tenants \<Rightarrow> string \<Rightarrow> string list \<Rightarrow> bool" for ts where
  ancestry_root: "dget ts i = Some n \<Longrightarrow> tn_parent_id n = None \<Longrightarrow> ancestry ts i []"
| ancestry_step: "dget ts i = Some n \<Longrightarrow> tn_parent_id n = Some p \<Longrightarrow> ancestry ts p xs \<Longrightarrow> ancestry ts i (p # xs)"

inductive_simps ancestry_Nil: "ancestry ts i []"
inductive_simps ancestry_Cons: "ancestry ts i (p # xs)"

definition forest :: "tenants \<Rightarrow> bool" where
  "forest ts \<longleftrightarrow> wf_dict ts \<and> (\<forall>i n. dget ts i = Some n \<longrightarrow> tn_id n = i \<and>
     (\<exists>xs. ancestry ts i xs \<and> length xs \<le> MAX_DEPTH))"

lemma ancestry_unique: "ancestry ts i xs \<Longrightarrow> ancestry ts i ys \<Longrightarrow> xs = ys"
proof (induction arbitrary: ys rule: ancestry.induct)
  case (ancestry_root i n)
  from ancestry_root.prems ancestry_root.hyps show ?case by (cases rule: ancestry.cases) auto
next
  case (ancestry_step i n p xs)
  from ancestry_step.prems ancestry_step.hyps(1,2) obtain zs where "ys = p # zs" "ancestry ts p zs"
    by (cases rule: ancestry.cases) auto
  then show ?case using ancestry_step.IH by blast
qed

lemma ancestry_suffix: "ancestry ts i xs \<Longrightarrow> j \<in> set xs \<Longrightarrow> \<exists>ys. ancestry ts j ys \<and> length ys < length xs"
proof (induction rule: ancestry.induct)
  case (ancestry_step i n p xs)
  then show ?case by (cases "j = p") (auto intro: less_SucI)
qed simp

lemma ancestry_irrefl: "ancestry ts i xs \<Longrightarrow> i \<notin> set xs"
  using ancestry_suffix ancestry_unique by (metis less_irrefl)

lemma ancestry_distinct: "ancestry ts i xs \<Longrightarrow> distinct xs"
proof (induction rule: ancestry.induct)
  case (ancestry_step i n p xs)
  then show ?case using ancestry_irrefl by simp
qed simp

lemma ancestry_mem: "ancestry ts i xs \<Longrightarrow> j \<in> insert i (set xs) \<Longrightarrow> dget ts j \<noteq> None"
  by (induction rule: ancestry.induct) auto

lemma ancestry_transfer:
  assumes "ancestry ts i xs"
    and "\<And>j n. j \<in> insert i (set xs) \<Longrightarrow> dget ts j = Some n \<Longrightarrow>
       \<exists>n'. dget ts' j = Some n' \<and> tn_parent_id n' = tn_parent_id n"
  shows "ancestry ts' i xs"
  using assms
proof (induction rule: ancestry.induct)
  case (ancestry_root i n)
  obtain n' where "dget ts' i = Some n'" "tn_parent_id n' = None"
    using ancestry_root.prems [OF _ ancestry_root.hyps(1)] ancestry_root.hyps(2) by auto
  then show ?case by (rule ancestry.ancestry_root)
next
  case (ancestry_step i n p xs)
  obtain n' where "dget ts' i = Some n'" "tn_parent_id n' = Some p"
    using ancestry_step.prems [OF _ ancestry_step.hyps(1)] ancestry_step.hyps(2) by auto
  moreover have "ancestry ts' p xs"
    by (rule ancestry_step.IH) (rule ancestry_step.prems, auto)
  ultimately show ?case by (rule ancestry.ancestry_step)
qed

lemma walk_ancestry:
  "ancestry ts i xs \<Longrightarrow> walk_ancestors ts k (Some i) =
     (if length xs < k then Inr (i # xs) else Inl RuntimeError)"
proof (induction arbitrary: k rule: ancestry.induct)
  case (ancestry_root i n)
  then show ?case by (cases k) auto
next
  case (ancestry_step i n p xs)
  then show ?case by (cases k) auto
qed

lemma ancestor_nodes_ancestry:
  assumes "ancestry ts i xs" "length xs < k" "\<And>j n. dget ts j = Some n \<Longrightarrow> tn_id n = j"
  shows "\<exists>ns. ancestor_nodes ts k (Some i) = Inr ns \<and> map tn_id ns = i # xs \<and>
     (\<forall>n \<in> set ns. dget ts (tn_id n) = Some n)"
  using assms(1,2)
proof (induction arbitrary: k rule: ancestry.induct)
  case (ancestry_root i n)
  have "tn_id n = i" using ancestry_root.hyps(1) by (rule assms(3))
  with ancestry_root show ?case by (cases k) auto
next
  case (ancestry_step i n p xs)
  have id: "tn_id n = i" using ancestry_step.hyps(1) by (rule assms(3))
  obtain k' where k: "k = Suc k'" "length xs < k'" using ancestry_step.prems by (cases k) auto
  from ancestry_step.IH [OF k(2)] obtain ns where "ancestor_nodes ts k' (Some p) = Inr ns \<and>
      map tn_id ns = p # xs \<and> (\<forall>m \<in> set ns. dget ts (tn_id m) = Some m)" ..
  then have ns: "ancestor_nodes ts k' (Some p) = Inr ns" "map tn_id ns = p # xs"
    "\<forall>m \<in> set ns. dget ts (tn_id m) = Some m" by blast+
  have "ancestor_nodes ts k (Some i) = Inr (n # ns)"
    unfolding k(1) ancestor_nodes.simps ancestry_step.hyps(1,2) option.case ns(1) rbind.simps ..
  moreover have "map tn_id (n # ns) = i # p # xs" unfolding list.map id ns(2) ..
  moreover have "dget ts (tn_id n) = Some n" unfolding id by (rule ancestry_step.hyps(1))
  ultimately show ?case using ns(3) by (intro exI [of _ "n # ns"] conjI ballI) (assumption+, metis set_ConsD)
qed

text \<open>Every operation keeps the forest.\<close>

lemma forest_empty: "forest []"
  by (simp add: forest_def)

lemma forest_update:
  assumes "forest ts" "dget ts i = Some n" "tn_parent_id n' = tn_parent_id n" "tn_id n' = tn_id n"
  shows "forest (dput ts i n')"
  unfolding forest_def
proof (intro conjI allI impI)
  show "wf_dict (dput ts i n')" using assms(1) by (simp add: forest_def)
  fix j m assume m: "dget (dput ts i n') j = Some m"
  show "tn_id m = j" using m assms by (auto simp: forest_def split: if_splits)
  have "dget ts j \<noteq> None" using m assms(2) by (auto split: if_splits)
  then obtain xs where xs: "ancestry ts j xs" "length xs \<le> MAX_DEPTH"
    using assms(1) by (auto simp: forest_def)
  have "ancestry (dput ts i n') j xs"
    by (rule ancestry_transfer [OF xs(1)]) (use assms(2,3) in auto)
  with xs(2) show "\<exists>xs. ancestry (dput ts i n') j xs \<and> length xs \<le> MAX_DEPTH" by blast
qed

lemma forest_tenant_update: "forest ts \<Longrightarrow> forest (snd (tenant_update i u ts))"
  by (auto simp: tenant_update_def Let_def forest_update split: option.splits sum.splits pyval.splits if_splits)

lemma forest_register:
  assumes "forest ts"
  shows "forest (snd (tenant_register t ts))"
proof (cases "fst (tenant_register t ts)")
  case (Inl e)
  then have "snd (tenant_register t ts) = ts"
    by (auto simp: tenant_register_def split: sum.splits if_splits)
  with assms show ?thesis by simp
next
  case (Inr t')
  let ?ts = "dput ts (tn_id t) t"
  have new: "dget ts (tn_id t) = None" and eq: "snd (tenant_register t ts) = ?ts"
    using Inr by (auto simp: tenant_register_def split: sum.splits if_splits)
  have keep: "ancestry ?ts j xs" if "ancestry ts j xs" for j xs
    by (rule ancestry_transfer [OF that]) (use ancestry_mem [OF that] new in auto)
  have path: "\<exists>xs. ancestry ?ts (tn_id t) xs \<and> length xs \<le> MAX_DEPTH"
  proof (cases "tn_parent_id t")
    case None
    then have "ancestry ?ts (tn_id t) []" by (intro ancestry_root) auto
    then show ?thesis by (intro exI [of _ "[]"]) simp
  next
    case (Some p)
    then obtain np where "dget ts p = Some np" and w: "is_ok (walk_ancestors ts MAX_DEPTH (Some p))"
      using Inr by (auto simp: tenant_register_def is_ok_iff split: sum.splits if_splits)
    then obtain xs where xs: "ancestry ts p xs" using assms by (auto simp: forest_def)
    then have len: "length xs < MAX_DEPTH" using walk_ancestry [OF xs, of MAX_DEPTH] w by (auto split: if_splits)
    have "ancestry ?ts (tn_id t) (p # xs)"
      using keep [OF xs] Some by (intro ancestry_step) auto
    with len show ?thesis by (intro exI [of _ "p # xs"]) simp
  qed
  have old: "\<exists>xs. ancestry ?ts j xs \<and> length xs \<le> MAX_DEPTH" if "dget ts j = Some n" for j n
    using assms that keep unfolding forest_def by blast
  show ?thesis
    unfolding eq forest_def
  proof (intro conjI allI impI)
    show "wf_dict ?ts" using assms by (simp add: forest_def)
    fix j n assume n: "dget ?ts j = Some n"
    show "tn_id n = j" using n assms by (auto simp: forest_def split: if_splits)
    show "\<exists>xs. ancestry ?ts j xs \<and> length xs \<le> MAX_DEPTH"
      using n path old by (cases "j = tn_id t") auto
  qed
qed

lemma forest_delete:
  assumes "forest ts"
  shows "forest (snd (tenant_delete i ts))"
proof (cases "dget ts i = None \<or> children ts i \<noteq> []")
  case True
  then show ?thesis using assms by (auto simp: tenant_delete_def)
next
  case False
  have wf: "wf_dict ts" using assms by (simp add: forest_def)
  have leaf: "tn_parent_id n \<noteq> Some i" if "dget ts j = Some n" for j n
    using False that dvalues_mem [OF wf, of n] by (auto simp: children_def filter_empty_conv)
  have not_above: "ancestry ts j xs \<Longrightarrow> i \<notin> set xs" for j xs
    by (induction rule: ancestry.induct) (use leaf in auto)
  have "ancestry (ddel ts i) j xs" if "ancestry ts j xs" "j \<noteq> i" for j xs
    by (rule ancestry_transfer [OF that(1)]) (use not_above [OF that(1)] that(2) in auto)
  then show ?thesis using assms False
    unfolding forest_def tenant_delete_def by (fastforce split: if_splits)
qed

inductive tenant_step :: "tenants \<Rightarrow> tenants \<Rightarrow> bool" where
  ts_register: "tenant_step ts (snd (tenant_register t ts))"
| ts_update: "tenant_step ts (snd (tenant_update i u ts))"
| ts_delete: "tenant_step ts (snd (tenant_delete i ts))"

inductive tenant_reach :: "tenants \<Rightarrow> bool" where
  tr_empty: "tenant_reach []"
| tr_next: "tenant_reach ts \<Longrightarrow> tenant_step ts ts' \<Longrightarrow> tenant_reach ts'"

lemma reach_forest: "tenant_reach ts \<Longrightarrow> forest ts"
proof (induction rule: tenant_reach.induct)
  case (tr_next ts ts')
  from tr_next(2,3) show ?case
    by (induction rule: tenant_step.induct) (auto intro: forest_register forest_tenant_update forest_delete)
qed (simp add: forest_empty)

text \<open>The ancestors of a registered tenant are found, root first, without the depth error.\<close>

lemma forest_get_ancestors:
  assumes "forest ts" "dget ts i = Some n"
  shows "\<exists>ns xs. get_ancestors ts i = Inr ns \<and> ancestry ts i xs \<and> map tn_id ns = rev xs \<and>
     length ns \<le> MAX_DEPTH \<and> distinct (i # map tn_id ns) \<and>
     (\<forall>m \<in> set ns. dget ts (tn_id m) = Some m)"
proof -
  obtain xs where xs: "ancestry ts i xs" "length xs \<le> MAX_DEPTH"
    using assms by (auto simp: forest_def)
  have ids: "dget ts j = Some m \<Longrightarrow> tn_id m = j" for j m using assms(1) by (auto simp: forest_def)
  obtain ns where ns: "ancestor_nodes ts MAX_DEPTH (tn_parent_id n) = Inr ns" "map tn_id ns = xs"
    "\<forall>m \<in> set ns. dget ts (tn_id m) = Some m"
  proof (cases xs)
    case Nil
    then have "tn_parent_id n = None" using xs(1) assms(2) by (auto simp: ancestry_Nil)
    then show thesis using that [of "[]"] Nil by simp
  next
    case (Cons p ys)
    then have p: "tn_parent_id n = Some p" "ancestry ts p ys" using xs(1) assms(2) by (auto simp: ancestry_Cons)
    have "length ys < MAX_DEPTH" using xs(2) Cons by simp
    from ancestor_nodes_ancestry [OF p(2) this ids] show thesis using that p(1) Cons by auto
  qed
  have "length ns \<le> MAX_DEPTH" using xs(2) ns(2) by (metis length_map)
  then show ?thesis
    using assms(2) xs ns ancestry_irrefl [OF xs(1)] ancestry_distinct [OF xs(1)]
    by (intro exI [of _ "rev ns"] exI [of _ xs]) (auto simp: get_ancestors_def rev_map [symmetric])
qed

section \<open>The resolver\<close>

definition POLICY_FIELDS :: "string list" where
  "POLICY_FIELDS = [''chain_id'', ''ceiling_usd'', ''on_exceed'', ''issued_at'', ''ceiling_tokens_out'',
     ''ceiling_steps'', ''fallback_model'', ''timeout_ms'', ''rate_window_seconds'',
     ''rate_ceiling_calls'', ''priority'', ''deadline_ts'', ''expires_at'', ''planner_version'']"

definition value_error_unless :: "bool \<Rightarrow> unit result" where
  "value_error_unless b = (if b then Inr () else Inl ValueError)"

definition plain_number :: "pyval \<Rightarrow> bool" where
  \<comment> \<open>an \<open>int\<close> or \<open>float\<close> that is not a \<open>bool\<close>\<close>
  "plain_number v \<longleftrightarrow> (is_int v \<or> is_float v) \<and> \<not> is_bool v"

definition plain_int :: "pyval \<Rightarrow> bool" where
  "plain_int v \<longleftrightarrow> is_int v \<and> \<not> is_bool v"

definition finite_nonneg :: "pyval \<Rightarrow> unit result" where
  "finite_nonneg v =
     rbind (value_error_unless (plain_number v)) (\<lambda>_.
     rbind (val_isfinite v) (\<lambda>fin.
     rbind (value_error_unless fin) (\<lambda>_.
     rbind (val_lt v (Fin 0)) (\<lambda>neg. value_error_unless (\<not> neg)))))"

definition validate_override_value :: "string \<Rightarrow> pyval \<Rightarrow> unit result" where
  "validate_override_value key v =
     (if key = ''ceiling_usd'' then finite_nonneg v
      else if key = ''priority'' then
        rbind (value_error_unless (plain_int v)) (\<lambda>_.
        rbind (val_lt v (Fin 0)) (\<lambda>neg.
        rbind (val_gt v (Fin 100)) (\<lambda>big. value_error_unless (\<not> neg \<and> \<not> big))))
      else if key = ''timeout_ms'' then (if v = VNone then Inr () else finite_nonneg v)
      else if key \<in> set [''ceiling_tokens_out'', ''ceiling_steps'', ''rate_ceiling_calls''] then
        (if v = VNone then Inr ()
         else rbind (value_error_unless (plain_int v)) (\<lambda>_.
              rbind (val_lt v (Fin 0)) (\<lambda>neg. value_error_unless (\<not> neg))))
      else if key = ''rate_window_seconds'' then (if v = VNone then Inr () else finite_nonneg v)
      else if key = ''on_exceed'' then
        (case v of VStr s \<Rightarrow> value_error_unless (s \<in> set ALLOWED_ON_EXCEED) | _ \<Rightarrow> Inl ValueError)
      else if key \<in> set [''fallback_model'', ''planner_version''] then
        (case v of VNone \<Rightarrow> Inr () | VStr s \<Rightarrow> value_error_unless (length s \<le> 1024) | _ \<Rightarrow> Inl ValueError)
      else if key \<in> set [''deadline_ts'', ''expires_at'', ''issued_at''] then
        (if v = VNone then Inr () else finite_nonneg v)
      else Inl ValueError)"

definition set_policy_field :: "string \<Rightarrow> pyval \<Rightarrow> policy_config \<Rightarrow> policy_config" where
  \<comment> \<open>\<open>dataclasses.replace\<close> of one field that passed the validation\<close>
  "set_policy_field key v p =
     (if key = ''ceiling_usd'' then p\<lparr>pc_ceiling_usd := v\<rparr>
      else if key = ''on_exceed'' then (case v of VStr s \<Rightarrow> p\<lparr>pc_on_exceed := s\<rparr> | _ \<Rightarrow> p)
      else if key = ''issued_at'' then p\<lparr>pc_issued_at := v\<rparr>
      else if key = ''ceiling_tokens_out'' then p\<lparr>pc_ceiling_tokens_out := v\<rparr>
      else if key = ''ceiling_steps'' then p\<lparr>pc_ceiling_steps := v\<rparr>
      else if key = ''fallback_model'' then p\<lparr>pc_fallback_model := v\<rparr>
      else if key = ''timeout_ms'' then p\<lparr>pc_timeout_ms := v\<rparr>
      else if key = ''rate_window_seconds'' then p\<lparr>pc_rate_window_seconds := v\<rparr>
      else if key = ''rate_ceiling_calls'' then p\<lparr>pc_rate_ceiling_calls := v\<rparr>
      else if key = ''priority'' then p\<lparr>pc_priority := v\<rparr>
      else if key = ''deadline_ts'' then p\<lparr>pc_deadline_ts := v\<rparr>
      else if key = ''expires_at'' then p\<lparr>pc_expires_at := v\<rparr>
      else if key = ''planner_version'' then p\<lparr>pc_planner_version := v\<rparr>
      else p)"

fun checked_overrides :: "(string, pyval) pydict \<Rightarrow> (string, pyval) pydict result" where
  "checked_overrides [] = Inr []"
| "checked_overrides ((k, v) # d) =
     (if k \<notin> set POLICY_FIELDS then checked_overrides d
      else rbind (validate_override_value k v) (\<lambda>_.
           rbind (checked_overrides d) (\<lambda>r. Inr ((k, v) # r))))"

definition apply_overrides :: "(string, pyval) pydict \<Rightarrow> policy_config \<Rightarrow> policy_config" where
  "apply_overrides d p = fold (\<lambda>(k, v). set_policy_field k v) d p"

fun resolve_chain :: "tenant_node list \<Rightarrow> policy_config \<Rightarrow> policy_config result" where
  "resolve_chain [] p = Inr p"
| "resolve_chain (n # ns) p =
     rbind (checked_overrides (tn_policy_overrides n)) (\<lambda>d. resolve_chain ns (apply_overrides d p))"

definition resolve :: "tenants \<Rightarrow> string \<Rightarrow> policy_config \<Rightarrow> policy_config result" where
  "resolve ts tenant_id base =
     (case tenant_get ts tenant_id of
        None \<Rightarrow> Inr base
      | Some t \<Rightarrow> rbind (get_ancestors ts tenant_id) (\<lambda>ancestors. resolve_chain (ancestors @ [t]) base))"

subsection \<open>Child wins\<close>

text \<open>The fields as a dictionary, with \<open>on_exceed\<close> as a value like the others.\<close>

definition policy_dict :: "policy_config \<Rightarrow> (string, pyval) pydict" where
  "policy_dict p =
     [(''ceiling_usd'', pc_ceiling_usd p), (''on_exceed'', VStr (pc_on_exceed p)),
      (''issued_at'', pc_issued_at p), (''ceiling_tokens_out'', pc_ceiling_tokens_out p),
      (''ceiling_steps'', pc_ceiling_steps p), (''fallback_model'', pc_fallback_model p),
      (''timeout_ms'', pc_timeout_ms p), (''rate_window_seconds'', pc_rate_window_seconds p),
      (''rate_ceiling_calls'', pc_rate_ceiling_calls p), (''priority'', pc_priority p),
      (''deadline_ts'', pc_deadline_ts p), (''expires_at'', pc_expires_at p),
      (''planner_version'', pc_planner_version p)]"

definition OVERRIDABLE :: "string list" where
  "OVERRIDABLE = [''ceiling_usd'', ''on_exceed'', ''issued_at'', ''ceiling_tokens_out'',
     ''ceiling_steps'', ''fallback_model'', ''timeout_ms'', ''rate_window_seconds'',
     ''rate_ceiling_calls'', ''priority'', ''deadline_ts'', ''expires_at'', ''planner_version'']"

lemma policy_fields_split: "k \<in> set POLICY_FIELDS \<longleftrightarrow> k = ''chain_id'' \<or> k \<in> set OVERRIDABLE"
  by (simp only: POLICY_FIELDS_def OVERRIDABLE_def list.set insert_iff empty_iff)

lemma chain_id_rejected: "validate_override_value ''chain_id'' v = Inl ValueError"
  by (simp add: validate_override_value_def)

lemma checked_keys:
  "checked_overrides d = Inr r \<Longrightarrow> (k, v) \<in> set r \<Longrightarrow>
     k \<in> set OVERRIDABLE \<and> validate_override_value k v = Inr () \<and> (k, v) \<in> set d"
proof (induction d arbitrary: r)
  case (Cons x d)
  obtain k' v' where x: "x = (k', v')" by (cases x)
  show ?case
  proof (cases "k' \<in> set POLICY_FIELDS")
    case False
    then show ?thesis using Cons x by auto
  next
    case True
    then obtain r' where r': "validate_override_value k' v' = Inr ()" "checked_overrides d = Inr r'" "r = (k', v') # r'"
      using Cons.prems(1) x by (auto simp: rbind_Inr_iff)
    then have "k' \<noteq> ''chain_id''" using chain_id_rejected by auto
    then show ?thesis using Cons.IH [OF r'(2)] Cons.prems(2) r' True x policy_fields_split by auto
  qed
qed simp

lemma checked_get: "checked_overrides d = Inr r \<Longrightarrow> k \<in> set OVERRIDABLE \<Longrightarrow> dget r k = dget d k"
proof (induction d arbitrary: r)
  case (Cons x d)
  obtain k' v' where x: "x = (k', v')" by (cases x)
  then show ?case using Cons policy_fields_split [of k]
    by (cases "k' \<in> set POLICY_FIELDS") (auto simp: rbind_Inr_iff)
qed simp

lemma checked_wf: "checked_overrides d = Inr r \<Longrightarrow> wf_dict d \<Longrightarrow> wf_dict r"
proof (induction d arbitrary: r)
  case (Cons x d)
  obtain k' v' where x: "x = (k', v')" by (cases x)
  show ?case
  proof (cases "k' \<in> set POLICY_FIELDS")
    case False
    then show ?thesis using Cons x by (auto simp: wf_dict_def)
  next
    case True
    then obtain r' where r': "checked_overrides d = Inr r'" "r = (k', v') # r'"
      using Cons.prems(1) x by (auto simp: rbind_Inr_iff)
    have "k' \<notin> fst ` set r'" using Cons.prems(2) x checked_keys [OF r'(1)] by (force simp: wf_dict_def)
    then show ?thesis using Cons.IH [OF r'(1)] Cons.prems(2) r'(2) x by (simp add: wf_dict_def)
  qed
qed simp

lemma on_exceed_string: "validate_override_value ''on_exceed'' v = Inr () \<Longrightarrow> \<exists>s \<in> set ALLOWED_ON_EXCEED. v = VStr s"
  by (auto simp: validate_override_value_def value_error_unless_def split: pyval.splits if_splits)

lemma policy_dict_set:
  assumes "k \<in> set OVERRIDABLE" "k = ''on_exceed'' \<longrightarrow> (\<exists>s. v = VStr s)"
  shows "policy_dict (set_policy_field k v p) = dput (policy_dict p) k v"
  using assms unfolding OVERRIDABLE_def list.set
  by (elim insertE emptyE) (auto simp: set_policy_field_def policy_dict_def)

lemma policy_dict_apply:
  assumes "\<And>k v. (k, v) \<in> set d \<Longrightarrow> k \<in> set OVERRIDABLE \<and> (k = ''on_exceed'' \<longrightarrow> (\<exists>s. v = VStr s))"
  shows "policy_dict (apply_overrides d p) = fold (\<lambda>(k, v) m. dput m k v) d (policy_dict p)"
  using assms
proof (induction d arbitrary: p)
  case (Cons x d)
  obtain k v where x: "x = (k, v)" by (cases x)
  have "policy_dict (set_policy_field k v p) = dput (policy_dict p) k v"
    using Cons.prems x by (intro policy_dict_set) auto
  moreover have "policy_dict (apply_overrides d (set_policy_field k v p)) =
      fold (\<lambda>(k, v) m. dput m k v) d (policy_dict (set_policy_field k v p))"
    using Cons.prems by (intro Cons.IH) auto
  ultimately show ?case by (simp add: apply_overrides_def x)
qed (simp add: apply_overrides_def)

lemma fold_dput_get:
  "wf_dict d \<Longrightarrow> dget (fold (\<lambda>(k, v) m. dput m k v) d m) key =
     (case dget d key of None \<Rightarrow> dget m key | Some v \<Rightarrow> Some v)"
proof (induction d arbitrary: m)
  case (Cons x d)
  obtain k v where x: "x = (k, v)" by (cases x)
  have "wf_dict d" "dget d k = None" using Cons.prems x by (auto simp: wf_dict_def map_of_eq_None_iff)
  then show ?case using Cons.IH x by (auto split: option.splits)
qed simp

text \<open>The last override of a field along a chain of nodes.\<close>

definition nearest_override :: "tenant_node list \<Rightarrow> string \<Rightarrow> pyval option" where
  "nearest_override ns key =
     fold (\<lambda>n best. case dget (tn_policy_overrides n) key of None \<Rightarrow> best | Some v \<Rightarrow> Some v) ns None"

lemma nearest_override_fold:
  "fold (\<lambda>n best. case dget (tn_policy_overrides n) key of None \<Rightarrow> best | Some v \<Rightarrow> Some v) ns a =
     (case nearest_override ns key of None \<Rightarrow> a | Some v \<Rightarrow> Some v)"
  unfolding nearest_override_def
  by (induction ns rule: rev_induct) (auto split: option.splits)

lemma nearest_override_Cons:
  "nearest_override (n # ns) key =
     (case nearest_override ns key of None \<Rightarrow> dget (tn_policy_overrides n) key | Some v \<Rightarrow> Some v)"
proof -
  have "nearest_override (n # ns) key =
      fold (\<lambda>n best. case dget (tn_policy_overrides n) key of None \<Rightarrow> best | Some v \<Rightarrow> Some v) ns
        (case dget (tn_policy_overrides n) key of None \<Rightarrow> None | Some v \<Rightarrow> Some v)"
    by (simp add: nearest_override_def)
  then show ?thesis unfolding nearest_override_fold by (auto split: option.splits)
qed

lemma nearest_override_snoc:
  "nearest_override (ns @ [n]) key =
     (case dget (tn_policy_overrides n) key of None \<Rightarrow> nearest_override ns key | Some v \<Rightarrow> Some v)"
  by (simp add: nearest_override_def split: option.split)

lemma resolve_chain_field:
  assumes "resolve_chain ns p = Inr q" "\<And>n. n \<in> set ns \<Longrightarrow> wf_dict (tn_policy_overrides n)"
    and key: "key \<in> set OVERRIDABLE"
  shows "dget (policy_dict q) key =
     (case nearest_override ns key of None \<Rightarrow> dget (policy_dict p) key | Some v \<Rightarrow> Some v)"
  using assms(1,2)
proof (induction ns arbitrary: p)
  case Nil
  then show ?case by (simp add: nearest_override_def)
next
  case (Cons n ns)
  then obtain d where d: "checked_overrides (tn_policy_overrides n) = Inr d"
    "resolve_chain ns (apply_overrides d p) = Inr q"
    by (auto simp: rbind_Inr_iff)
  have ok: "k \<in> set OVERRIDABLE \<and> (k = ''on_exceed'' \<longrightarrow> (\<exists>s. v = VStr s))" if "(k, v) \<in> set d" for k v
    using checked_keys [OF d(1) that] on_exceed_string by blast
  have wf: "wf_dict d" using checked_wf [OF d(1)] Cons.prems(2) by simp
  have "dget (policy_dict (apply_overrides d p)) key =
      (case dget d key of None \<Rightarrow> dget (policy_dict p) key | Some v \<Rightarrow> Some v)"
    using policy_dict_apply [OF ok] fold_dput_get [OF wf] by simp
  moreover have "dget (policy_dict q) key =
      (case nearest_override ns key of None \<Rightarrow> dget (policy_dict (apply_overrides d p)) key | Some v \<Rightarrow> Some v)"
    using Cons.IH [OF d(2)] Cons.prems(2) by simp
  ultimately show ?case
    using checked_get [OF d(1) key] by (simp add: nearest_override_Cons split: option.splits)
qed

text \<open>Every override that reached the policy passed its check.\<close>

lemma resolve_chain_checked:
  assumes "resolve_chain ns p = Inr q" "n \<in> set ns" "(k, v) \<in> set (tn_policy_overrides n)" "k \<in> set POLICY_FIELDS"
  shows "validate_override_value k v = Inr ()"
  using assms
proof (induction ns arbitrary: p)
  case (Cons m ns)
  then obtain d where d: "checked_overrides (tn_policy_overrides m) = Inr d"
    "resolve_chain ns (apply_overrides d p) = Inr q"
    by (auto simp: rbind_Inr_iff)
  have "checked_overrides e = Inr r \<Longrightarrow> (k, v) \<in> set e \<Longrightarrow> validate_override_value k v = Inr ()" for e r
    using assms(4) by (induction e arbitrary: r rule: checked_overrides.induct) (auto simp: rbind_Inr_iff split: if_splits)
  then show ?case using Cons d by auto
qed simp

lemma resolve_field:
  assumes ts: "forest ts" "\<And>i n. dget ts i = Some n \<Longrightarrow> wf_dict (tn_policy_overrides n)"
    and t: "dget ts i = Some t" and q: "resolve ts i base = Inr q" and key: "key \<in> set OVERRIDABLE"
  shows "\<exists>ns. get_ancestors ts i = Inr ns \<and>
     dget (policy_dict q) key =
       (case dget (tn_policy_overrides t) key of
          Some v \<Rightarrow> Some v
        | None \<Rightarrow> (case nearest_override ns key of Some v \<Rightarrow> Some v | None \<Rightarrow> dget (policy_dict base) key))"
proof -
  obtain ns where ns: "get_ancestors ts i = Inr ns" "\<forall>m \<in> set ns. dget ts (tn_id m) = Some m"
    using forest_get_ancestors [OF ts(1) t] by metis
  have chain: "resolve_chain (ns @ [t]) base = Inr q"
    using q t ns(1) by (simp add: resolve_def tenant_get_def)
  have "wf_dict (tn_policy_overrides n)" if "n \<in> set (ns @ [t])" for n
    using that ns(2) t ts(2) by (metis Un_iff empty_iff empty_set insert_iff list.simps(15) set_append)
  from resolve_chain_field [OF chain this key] show ?thesis
    using ns(1) by (auto simp: nearest_override_snoc split: option.splits)
qed

section \<open>Endpoints\<close>

definition KNOWN_OVERRIDE_KEYS :: "string list" where
  "KNOWN_OVERRIDE_KEYS = [''ceiling_usd'', ''on_exceed'', ''ceiling_tokens_out'', ''ceiling_steps'',
     ''fallback_model'', ''timeout_ms'', ''rate_window_seconds'', ''rate_ceiling_calls'', ''priority'',
     ''deadline_ts'', ''expires_at'', ''planner_version'']"

definition MAX_OVERRIDE_KEY_LEN :: nat where "MAX_OVERRIDE_KEY_LEN = 128"

definition validate_overrides :: "(string, pyval) pydict \<Rightarrow> unit result" where
  "validate_overrides d =
     (if 20 < length d then Inl (HTTPException 422)
      else if list_ex (\<lambda>(k, v). MAX_OVERRIDE_KEY_LEN < length k) d then Inl (HTTPException 422)
      else if list_ex (\<lambda>(k, v). k \<notin> set KNOWN_OVERRIDE_KEYS) d then Inl (HTTPException 422)
      else Inr ())"

definition create_tenant ::
  "pyfloat \<Rightarrow> string \<Rightarrow> string \<Rightarrow> string option \<Rightarrow> (string, pyval) pydict \<Rightarrow> tenants \<Rightarrow> tenant_node result \<times> tenants" where
  "create_tenant now i name parent overrides ts =
     (case validate_overrides overrides of
        Inl e \<Rightarrow> (Inl e, ts)
      | Inr _ \<Rightarrow>
          (let t = \<lparr>tn_id = i, tn_name = name, tn_parent_id = parent, tn_policy_overrides = overrides,
                    tn_created_at = now\<rparr>;
               (r, ts') = tenant_register t ts in
           (case r of Inr _ \<Rightarrow> Inr t | Inl e \<Rightarrow> Inl (if e = ValueError then HTTPException 422 else e), ts')))"

definition update_tenant ::
  "string \<Rightarrow> string option \<Rightarrow> (string, pyval) pydict option \<Rightarrow> tenants \<Rightarrow> tenant_node result \<times> tenants" where
  "update_tenant i name overrides ts =
     (case (case overrides of None \<Rightarrow> Inr () | Some d \<Rightarrow> validate_overrides d) of
        Inl e \<Rightarrow> (Inl e, ts)
      | Inr _ \<Rightarrow>
          (let updates = (case name of None \<Rightarrow> [] | Some s \<Rightarrow> [(''name'', VStr s)]) @
                         (case overrides of None \<Rightarrow> [] | Some d \<Rightarrow> [(''policy_overrides'', VDict d)]);
               (r, ts') = tenant_update i updates ts in
           (case r of Inr t \<Rightarrow> Inr t | Inl e \<Rightarrow> Inl (if e = KeyError then HTTPException 404 else e), ts')))"

definition get_tenant :: "tenants \<Rightarrow> string \<Rightarrow> tenant_node result" where
  "get_tenant ts i = (case tenant_get ts i of None \<Rightarrow> Inl (HTTPException 404) | Some t \<Rightarrow> Inr t)"

definition delete_tenant :: "string \<Rightarrow> tenants \<Rightarrow> unit result \<times> tenants" where
  "delete_tenant i ts =
     (let (r, ts') = tenant_delete i ts in
      (case r of
         Inr _ \<Rightarrow> Inr ()
       | Inl e \<Rightarrow> Inl (if e = KeyError then HTTPException 404 else if e = ValueError then HTTPException 409 else e),
       ts'))"

definition get_effective_policy :: "pyfloat \<Rightarrow> tenants \<Rightarrow> string \<Rightarrow> policy_config result" where
  "get_effective_policy now ts i =
     (case tenant_get ts i of
        None \<Rightarrow> Inl (HTTPException 404)
      | Some _ \<Rightarrow>
          (case resolve ts i (new_policy_config i (VFloat (Fin 10)) ''halt'' (VFloat now)) of
             Inr p \<Rightarrow> Inr p
           | Inl e \<Rightarrow> Inl (if e = ValueError \<or> e = TypeError then HTTPException 422 else e)))"

lemma update_tenant_forest: "forest ts \<Longrightarrow> forest (snd (update_tenant i name d ts))"
  by (auto simp: update_tenant_def Let_def case_prod_unfold forest_tenant_update split: sum.splits)

end
