(* ===== verification/Ingest.thy ===== *)
theory Ingest
  imports Cp_Events Stores "HOL-Library.Multiset"
begin

text \<open>
  The event ingestor (\<open>ingest/event_ingestor.py\<close>): conversion of a kernel
  \<open>SafetyEvent\<close> into a control-plane outcome, the bounded outcome store, batching, the
  retried write and the dead-letter buffer. Parameters: \<open>repr_of\<close> and the clock, the new
  UUIDs, SHA-256 of a string, and which attempts of a store write raise (an external store is
  assumed to keep nothing of a write that raised).
\<close>

section \<open>Conversion\<close>

definition DECISION_MAP :: "(string, string) pydict" where
  "DECISION_MAP = [(''ALLOW'', ''allow''), (''HALT'', ''halt''), (''DEGRADE'', ''degrade''),
     (''RETRY'', ''retry''), (''QUARANTINE'', ''quarantine''), (''QUEUE'', ''queue'')]"

definition map_decision :: "string \<Rightarrow> string" where
  "map_decision decision = dget_default DECISION_MAP decision ''unknown''"

definition is_audit_id :: "string \<Rightarrow> bool" where
  "is_audit_id s \<longleftrightarrow> 1 \<le> length s \<and> length s \<le> 128 \<and> list_all safe_char s"

definition derive_policy_hash :: "(string \<Rightarrow> string) \<Rightarrow> safety_event \<Rightarrow> string" where
  "derive_policy_hash sha e =
     (case dget_default (se_metadata e) ''policy_hash'' VNone of
        VStr c \<Rightarrow> if match_dollar is_hex64 c then c else sha (se_hook e @ '':'' @ se_event_type e)
      | _ \<Rightarrow> sha (se_hook e @ '':'' @ se_event_type e))"

definition derive_audit_id :: "string \<Rightarrow> safety_event \<Rightarrow> string" where
  "derive_audit_id uuid e =
     (case dget_default (se_metadata e) ''audit_id'' VNone of
        VStr c \<Rightarrow> if match_dollar is_audit_id c then c else uuid
      | _ \<Rightarrow> uuid)"

definition sanitize :: "string \<Rightarrow> string" where
  \<comment> \<open>\<open>re.sub(r"[^a-zA-Z0-9_:@.\-]", "_", s)[:256]\<close>\<close>
  "sanitize s = take 256 (map (\<lambda>c. if safe_char c then c else CHR ''_'') s)"

record converter =
  cv_repr :: "pyval \<Rightarrow> string"
  cv_sha :: "string \<Rightarrow> string"
  cv_now :: pyfloat
  cv_step_uuid :: string
  cv_audit_uuid :: string

definition or_zero :: "pyval \<Rightarrow> pyval \<Rightarrow> pyval" where
  "or_zero v z = (if truthy v then v else z)"

definition clamp_cost :: "pyfloat \<Rightarrow> pyfloat" where
  "clamp_cost x = (if isfinite x then fmax (Fin 0) x else Fin 0)"

definition convert_event :: "converter \<Rightarrow> string option \<Rightarrow> safety_event \<Rightarrow> cp_outcome result" where
  "convert_event cv operation_name e =
     (let meta = se_metadata e;
          step_id = sanitize (py_str (cv_repr cv) (dget_default meta ''step_id''
            (VStr (case se_request_id e of Some r \<Rightarrow> if r = [] then cv_step_uuid cv else r | None \<Rightarrow> cv_step_uuid cv))));
          chain_id = sanitize (py_str (cv_repr cv) (dget_default meta ''chain_id'' (VStr ''unknown'')));
          op_name = sanitize (case operation_name of
            Some n \<Rightarrow> if n = [] then py_str (cv_repr cv) (dget_default meta ''operation_name'' (VStr (se_hook e))) else n
          | None \<Rightarrow> py_str (cv_repr cv) (dget_default meta ''operation_name'' (VStr (se_hook e)))) in
      rbind (to_float (dget_default meta ''cost_usd'' (VFloat (Fin 0)))) (\<lambda>raw_cost.
      rbind (to_int (or_zero (dget_default meta ''tokens'' (dget_default meta ''tokens_in'' (VInt 0))) (VInt 0))) (\<lambda>tin.
      rbind (to_int (or_zero (dget_default meta ''tokens_out'' (VInt 0)) (VInt 0))) (\<lambda>tout.
      rbind (to_float (or_zero (dget_default meta ''duration_ms'' (dget_default meta ''elapsed_ms'' (VFloat (Fin 0))))
               (VFloat (Fin 0)))) (\<lambda>raw_dur.
      Inr \<lparr>co_step_id = step_id, co_chain_id = chain_id, co_operation_name = op_name,
           co_decision = map_decision (se_decision e), co_cost_usd = clamp_cost raw_cost,
           co_tokens = max 0 tin + max 0 tout, co_duration_ms = clamp_cost raw_dur,
           co_policy_hash = derive_policy_hash (cv_sha cv) e, co_audit_id = derive_audit_id (cv_audit_uuid cv) e,
           co_timestamp = (case se_ts e of Some t \<Rightarrow> t | None \<Rightarrow> cv_now cv),
           co_schema_version = ''1.0'',
           co_reason_code = (case se_reason e of
             Some r \<Rightarrow> if r = [] then None else Some (sanitize r) | None \<Rightarrow> None)\<rparr>)))))"

lemma sanitize_safe: "c \<in> set (sanitize s) \<Longrightarrow> safe_char c"
  unfolding sanitize_def by (drule in_set_takeD) (auto simp: safe_char_def split: if_splits)

lemma sanitize_length: "length (sanitize s) \<le> 256"
  by (simp add: sanitize_def)

lemma sanitize_idem: "sanitize (sanitize s) = sanitize s"
proof -
  have "map (\<lambda>c. if safe_char c then c else CHR ''_'') (sanitize s) = sanitize s"
    using sanitize_safe by (intro map_idI) auto
  then show ?thesis using sanitize_length [of s] by (simp add: sanitize_def)
qed

lemma map_decision_valid: "map_decision d \<in> set VALID_DECISIONS"
  by (simp add: map_decision_def DECISION_MAP_def VALID_DECISIONS_def)

text \<open>An unrecognised kernel decision never becomes an approval.\<close>

lemma map_decision_allow: "map_decision d = ''allow'' \<longleftrightarrow> d = ''ALLOW''"
  by (simp add: map_decision_def DECISION_MAP_def)

lemma clamp_cost_ok: "isfinite (clamp_cost x) \<and> nonneg_float (clamp_cost x)"
  by (cases x) (auto simp: clamp_cost_def fmax_def)

lemma convert_event_ok:
  assumes "convert_event cv op e = Inr x"
  shows "co_decision x \<in> set VALID_DECISIONS" "isfinite (co_cost_usd x)" "nonneg_float (co_cost_usd x)"
    "isfinite (co_duration_ms x)" "nonneg_float (co_duration_ms x)" "0 \<le> co_tokens x"
    "list_all safe_char (co_step_id x)" "list_all safe_char (co_chain_id x)"
    "length (co_step_id x) \<le> 256" "length (co_chain_id x) \<le> 256"
    "co_decision x = ''allow'' \<longleftrightarrow> se_decision e = ''ALLOW''"
  using assms unfolding convert_event_def Let_def rbind_Inr_iff
  by (auto simp: map_decision_valid clamp_cost_ok map_decision_allow list_all_iff sanitize_length dest: sanitize_safe)

section \<open>The outcome store\<close>

record cp_store =
  cps_records :: "cp_outcome list"
  cps_max :: nat

definition new_cp_store :: "int \<Rightarrow> cp_store" where
  "new_cp_store max_records = \<lparr>cps_records = [], cps_max = nat (max 1 max_records)\<rparr>"

definition evict_if_needed :: "cp_store \<Rightarrow> cp_store" where
  "evict_if_needed s =
     (if cps_max s < length (cps_records s) then s\<lparr>cps_records := take_last (cps_max s) (cps_records s)\<rparr> else s)"

definition store_put :: "cp_outcome \<Rightarrow> cp_store \<Rightarrow> cp_store" where
  "store_put x s = evict_if_needed (s\<lparr>cps_records := cps_records s @ [x]\<rparr>)"

definition put_many :: "cp_outcome list \<Rightarrow> cp_store \<Rightarrow> cp_store" where
  "put_many xs s = evict_if_needed (s\<lparr>cps_records := cps_records s @ xs\<rparr>)"

definition cp_snapshot :: "cp_store \<Rightarrow> cp_outcome list" where [simp]: "cp_snapshot s = cps_records s"
definition cp_store_len :: "cp_store \<Rightarrow> nat" where "cp_store_len s = length (cps_records s)"

lemma put_many_records: "cps_records (put_many xs s) = take_last (cps_max s) (cps_records s @ xs)"
  by (auto simp: put_many_def evict_if_needed_def take_last_all)

lemma put_many_max [simp]: "cps_max (put_many xs s) = cps_max s"
  by (simp add: put_many_def evict_if_needed_def)

lemma store_put_eq: "store_put x s = put_many [x] s"
  by (simp add: store_put_def put_many_def)

text \<open>A store holds the last \<open>max\<close> records put, whatever the batches were.\<close>

lemma put_many_batches:
  assumes "length (cps_records s) \<le> cps_max s"
  shows "cps_records (fold put_many batches s) = take_last (cps_max s) (cps_records s @ concat batches)"
  using assms
proof (induction batches arbitrary: s)
  case Nil
  then show ?case by (simp add: take_last_all)
next
  case (Cons b bs)
  have "length (cps_records (put_many b s)) \<le> cps_max (put_many b s)"
    by (simp add: put_many_records)
  then show ?case using Cons.IH [of "put_many b s"]
    by (simp add: put_many_records take_last_append_take_last)
qed

section \<open>The ingestor\<close>

record ingestor =
  ig_store :: cp_store
  ig_batch_size :: nat
  ig_operation_name :: "string option"
  ig_batch :: "cp_outcome list"
  ig_ingested_total :: nat
  ig_error_total :: nat
  ig_dead_letter :: "cp_outcome list"

definition DEAD_LETTER_MAX :: nat where "DEAD_LETTER_MAX = 1000"
definition WRITE_ATTEMPTS :: nat where "WRITE_ATTEMPTS = 3" \<comment> \<open>\<open>len(_WRITE_RETRY_DELAYS) + 1\<close>\<close>

definition new_ingestor :: "cp_store \<Rightarrow> int \<Rightarrow> string option \<Rightarrow> ingestor" where
  "new_ingestor store batch_size op =
     \<lparr>ig_store = store, ig_batch_size = nat (max 0 batch_size), ig_operation_name = op, ig_batch = [],
      ig_ingested_total = 0, ig_error_total = 0, ig_dead_letter = []\<rparr>"

definition ingested_total :: "ingestor \<Rightarrow> nat" where "ingested_total s = ig_ingested_total s"
definition error_total :: "ingestor \<Rightarrow> nat" where "error_total s = ig_error_total s"
definition dead_letter_count :: "ingestor \<Rightarrow> nat" where "dead_letter_count s = length (ig_dead_letter s)"
definition ingestor_store :: "ingestor \<Rightarrow> cp_store" where [simp]: "ingestor_store s = ig_store s"

text \<open>The sections: a failed conversion, an outcome enqueued (with the batch to write), a batch
  taken by \<open>flush\<close>, a batch stored and a batch given up.\<close>

definition conversion_failed :: "ingestor \<Rightarrow> ingestor" where
  "conversion_failed s = s\<lparr>ig_error_total := ig_error_total s + 1\<rparr>"

definition enqueue :: "cp_outcome \<Rightarrow> ingestor \<Rightarrow> cp_outcome list option \<times> ingestor" where
  "enqueue x s0 =
     (let s = s0\<lparr>ig_ingested_total := ig_ingested_total s0 + 1\<rparr> in
      if ig_batch_size s = 0 then (Some [x], s)
      else (let batch = ig_batch s @ [x] in
            if ig_batch_size s \<le> length batch then (Some batch, s\<lparr>ig_batch := []\<rparr>)
            else (None, s\<lparr>ig_batch := batch\<rparr>)))"

definition take_batch :: "ingestor \<Rightarrow> cp_outcome list \<times> ingestor" where
  "take_batch s = (ig_batch s, s\<lparr>ig_batch := []\<rparr>)"

definition batch_stored :: "cp_outcome list \<Rightarrow> ingestor \<Rightarrow> ingestor" where
  "batch_stored xs s = s\<lparr>ig_store := put_many xs (ig_store s)\<rparr>"

definition dead_letter_room :: "cp_outcome list \<Rightarrow> ingestor \<Rightarrow> nat" where
  "dead_letter_room xs s = min (length xs) (DEAD_LETTER_MAX - length (ig_dead_letter s))"

definition batch_failed :: "cp_outcome list \<Rightarrow> ingestor \<Rightarrow> ingestor" where
  "batch_failed xs s =
     s\<lparr>ig_error_total := ig_error_total s + length xs,
       ig_dead_letter := ig_dead_letter s @ take (dead_letter_room xs s) xs\<rparr>"

fun write_attempts :: "(nat \<Rightarrow> bool) \<Rightarrow> nat \<Rightarrow> nat \<Rightarrow> bool" where
  \<comment> \<open>\<open>raises k\<close>: attempt \<open>k\<close> raises\<close>
  "write_attempts raises 0 k = False"
| "write_attempts raises (Suc left) k = (if raises k then write_attempts raises left (Suc k) else True)"

definition write_batch :: "(nat \<Rightarrow> bool) \<Rightarrow> cp_outcome list \<Rightarrow> ingestor \<Rightarrow> nat \<times> ingestor" where
  "write_batch raises xs s =
     (if write_attempts raises WRITE_ATTEMPTS 0 then (length xs, batch_stored xs s)
      else (0, batch_failed xs s))"

definition ingest :: "converter \<Rightarrow> (nat \<Rightarrow> bool) \<Rightarrow> safety_event \<Rightarrow> ingestor \<Rightarrow> ingestor" where
  "ingest cv raises e s =
     (case convert_event cv (ig_operation_name s) e of
        Inl _ \<Rightarrow> conversion_failed s
      | Inr x \<Rightarrow>
          (let (flush_now, s1) = enqueue x s in
           case flush_now of None \<Rightarrow> s1 | Some xs \<Rightarrow> snd (write_batch raises xs s1)))"

definition on_event :: "converter \<Rightarrow> (nat \<Rightarrow> bool) \<Rightarrow> safety_event option \<Rightarrow> ingestor \<Rightarrow> ingestor" where
  "on_event cv raises payload_event s = (case payload_event of None \<Rightarrow> s | Some e \<Rightarrow> ingest cv raises e s)"

definition ingest_many :: "converter \<Rightarrow> (nat \<Rightarrow> bool) \<Rightarrow> safety_event list \<Rightarrow> ingestor \<Rightarrow> ingestor" where
  "ingest_many cv raises es s = fold (ingest cv raises) es s"

definition flush :: "(nat \<Rightarrow> bool) \<Rightarrow> ingestor \<Rightarrow> nat \<times> ingestor" where
  "flush raises s =
     (let (pending, s1) = take_batch s in
      if pending = [] then (0, s1) else write_batch raises pending s1)"

section \<open>Conservation\<close>

text \<open>
  The sections of \<open>ingest\<close> and \<open>flush\<close>, interleaved: a conversion that failed; an event converted and
  enqueued, which may take the batch; a batch taken by \<open>flush\<close>; and \<open>_write\<close> of a batch taken before,
  with its attempts. A configuration adds the batches taken and not yet written, and ghosts: the
  outcomes enqueued, those of the batches for which \<open>_write\<close> returned their number and those of the
  other batches, in order, and the number of events that were not converted.
\<close>

record ingest_conf =
  ic_state :: ingestor
  ic_pending :: "cp_outcome list list"
  ic_enqueued :: "cp_outcome list"
  ic_stored :: "cp_outcome list"
  ic_failed :: "cp_outcome list"
  ic_unconverted :: nat

inductive ingest_step :: "ingest_conf \<Rightarrow> ingest_conf \<Rightarrow> bool" where
  is_unconverted: "convert_event cv (ig_operation_name (ic_state c)) e = Inl err \<Longrightarrow>
    ingest_step c (c\<lparr>ic_state := conversion_failed (ic_state c), ic_unconverted := ic_unconverted c + 1\<rparr>)"
| is_enqueue: "convert_event cv (ig_operation_name (ic_state c)) e = Inr x \<Longrightarrow> enqueue x (ic_state c) = (out, s) \<Longrightarrow>
    ingest_step c (c\<lparr>ic_state := s, ic_enqueued := ic_enqueued c @ [x],
      ic_pending := (case out of None \<Rightarrow> ic_pending c | Some xs \<Rightarrow> xs # ic_pending c)\<rparr>)"
| is_take: "take_batch (ic_state c) = (xs, s) \<Longrightarrow>
    ingest_step c (c\<lparr>ic_state := s, ic_pending := (if xs = [] then ic_pending c else xs # ic_pending c)\<rparr>)"
| is_write: "ic_pending c = us @ xs # vs \<Longrightarrow> write_batch raises xs (ic_state c) = (n, s) \<Longrightarrow>
    ingest_step c (c\<lparr>ic_state := s, ic_pending := us @ vs,
      ic_stored := ic_stored c @ take n xs, ic_failed := ic_failed c @ drop n xs\<rparr>)"

definition ingest_init :: "ingestor \<Rightarrow> ingest_conf" where
  "ingest_init s = \<lparr>ic_state = s, ic_pending = [], ic_enqueued = [], ic_stored = [], ic_failed = [], ic_unconverted = 0\<rparr>"

inductive ingest_reach :: "ingestor \<Rightarrow> ingest_conf \<Rightarrow> bool" for s0 where
  ir_init: "ingest_reach s0 (ingest_init s0)"
| ir_step: "ingest_reach s0 c \<Longrightarrow> ingest_step c c' \<Longrightarrow> ingest_reach s0 c'"

definition fresh_ingestor :: "ingestor \<Rightarrow> bool" where
  "fresh_ingestor s \<longleftrightarrow> ig_batch s = [] \<and> ig_ingested_total s = 0 \<and> ig_error_total s = 0 \<and> ig_dead_letter s = [] \<and>
     length (cps_records (ig_store s)) \<le> cps_max (ig_store s)"

definition ingest_inv :: "ingestor \<Rightarrow> ingest_conf \<Rightarrow> bool" where
  "ingest_inv s0 c \<longleftrightarrow> (let s = ic_state c in
     ig_ingested_total s = length (ic_enqueued c) \<and>
     mset (ic_enqueued c) = mset (ic_stored c) + mset (ic_failed c) + mset (ig_batch s) + mset (concat (ic_pending c)) \<and>
     cps_max (ig_store s) = cps_max (ig_store s0) \<and>
     cps_records (ig_store s) = take_last (cps_max (ig_store s0)) (cps_records (ig_store s0) @ ic_stored c) \<and>
     ig_dead_letter s = take DEAD_LETTER_MAX (ic_failed c) \<and>
     ig_error_total s = ic_unconverted c + length (ic_failed c) \<and>
     (ig_batch s = [] \<or> length (ig_batch s) < ig_batch_size s))"

lemma enqueue_batch:
  assumes "enqueue x s = (out, s')" "ig_batch s = [] \<or> length (ig_batch s) < ig_batch_size s"
  shows "ig_ingested_total s' = Suc (ig_ingested_total s) \<and> ig_dead_letter s' = ig_dead_letter s \<and>
    ig_error_total s' = ig_error_total s \<and> ig_store s' = ig_store s \<and>
    add_mset x (mset (ig_batch s)) = mset (ig_batch s') + mset (case out of None \<Rightarrow> [] | Some xs \<Rightarrow> xs) \<and>
    (ig_batch s' = [] \<or> length (ig_batch s') < ig_batch_size s')"
  using assms by (auto simp: enqueue_def Let_def split: if_splits)

lemma write_batch_cases:
  assumes "write_batch raises xs s = (n, s')"
  obtains (stored) "n = length xs" "s' = batch_stored xs s" | (failed) "n = 0" "s' = batch_failed xs s"
  using assms by (auto simp: write_batch_def split: if_splits)

lemma dead_letter_take:
  "take k ys @ take (min (length xs) (k - min k (length ys))) xs = take k (ys @ xs)"
  by (cases "k \<le> length ys") (simp_all add: min_def)

lemma ingest_step_inv: "ingest_step c c' \<Longrightarrow> ingest_inv s0 c \<Longrightarrow> ingest_inv s0 c'"
proof (induction rule: ingest_step.induct)
  case (is_unconverted cv c e err)
  then show ?case by (simp add: ingest_inv_def conversion_failed_def Let_def)
next
  case (is_enqueue cv c e x out s)
  have "ig_batch (ic_state c) = [] \<or> length (ig_batch (ic_state c)) < ig_batch_size (ic_state c)"
    using is_enqueue.prems by (simp add: ingest_inv_def Let_def)
  from enqueue_batch [OF is_enqueue.hyps(2) this] is_enqueue.prems show ?case
    by (cases out) (auto simp: ingest_inv_def Let_def ac_simps)
next
  case (is_take c xs s)
  then show ?case by (auto simp: ingest_inv_def take_batch_def Let_def ac_simps)
next
  case (is_write c us xs vs raises n s)
  note inv = is_write.prems
  show ?case
    using is_write.hyps(2)
  proof (cases rule: write_batch_cases)
    case stored
    then show ?thesis using inv is_write.hyps(1)
      by (simp add: ingest_inv_def batch_stored_def put_many_records take_last_append_take_last Let_def ac_simps)
  next
    case failed
    then show ?thesis using inv is_write.hyps(1)
      by (simp add: ingest_inv_def batch_failed_def dead_letter_room_def dead_letter_take Let_def ac_simps)
  qed
qed

lemma ingest_reach_inv: "ingest_reach s0 c \<Longrightarrow> fresh_ingestor s0 \<Longrightarrow> ingest_inv s0 c"
proof (induction rule: ingest_reach.induct)
  case ir_init
  then show ?case by (simp add: ingest_inv_def ingest_init_def fresh_ingestor_def take_last_all Let_def)
next
  case (ir_step c c')
  then show ?case by (blast intro: ingest_step_inv)
qed

text \<open>Whole calls of \<open>ingest\<close> and \<open>flush\<close> are executions of these sections.\<close>

lemma write_reaches:
  assumes "ingest_reach s0 c" "ic_pending c = xs # vs"
  shows "\<exists>c'. ingest_reach s0 c' \<and> ic_state c' = snd (write_batch raises xs (ic_state c)) \<and> ic_pending c' = vs"
proof -
  obtain n s where w: "write_batch raises xs (ic_state c) = (n, s)" by fastforce
  have "ingest_reach s0 (c\<lparr>ic_state := s, ic_pending := vs, ic_stored := ic_stored c @ take n xs,
      ic_failed := ic_failed c @ drop n xs\<rparr>)"
    using ingest_reach.ir_step [OF assms(1) is_write [of c "[]" xs vs, OF _ w]] assms(2) by simp
  moreover have "s = snd (write_batch raises xs (ic_state c))" by (simp add: w)
  ultimately show ?thesis by fastforce
qed

lemma ingest_reaches:
  assumes "ingest_reach s0 c"
  shows "\<exists>c'. ingest_reach s0 c' \<and> ic_state c' = ingest cv raises e (ic_state c) \<and> ic_pending c' = ic_pending c"
proof (cases "convert_event cv (ig_operation_name (ic_state c)) e")
  case (Inl err)
  have "ic_state (c\<lparr>ic_state := conversion_failed (ic_state c), ic_unconverted := ic_unconverted c + 1\<rparr>) =
      ingest cv raises e (ic_state c)" by (simp add: ingest_def Inl)
  then show ?thesis using ingest_reach.ir_step [OF assms is_unconverted [OF Inl]] by fastforce
next
  case (Inr x)
  obtain out s where enq: "enqueue x (ic_state c) = (out, s)" by fastforce
  note step = ingest_reach.ir_step [OF assms is_enqueue [OF Inr enq]]
  show ?thesis
  proof (cases out)
    case None
    then show ?thesis using step
      by (intro exI [of _ "c\<lparr>ic_state := s, ic_enqueued := ic_enqueued c @ [x]\<rparr>"]) (simp add: ingest_def Inr enq)
  next
    case (Some xs)
    then show ?thesis using write_reaches [OF step, of xs "ic_pending c" raises] by (simp add: ingest_def Inr enq)
  qed
qed

lemma flush_reaches:
  assumes "ingest_reach s0 c"
  shows "\<exists>c'. ingest_reach s0 c' \<and> ic_state c' = snd (flush raises (ic_state c)) \<and> ic_pending c' = ic_pending c"
proof -
  obtain xs s where t: "take_batch (ic_state c) = (xs, s)" by fastforce
  note step = ingest_reach.ir_step [OF assms is_take [OF t]]
  show ?thesis
  proof (cases "xs = []")
    case True
    then show ?thesis using step by (intro exI [of _ "c\<lparr>ic_state := s\<rparr>"]) (simp add: flush_def t)
  next
    case False
    then show ?thesis using write_reaches [OF step, of xs "ic_pending c" raises] by (simp add: flush_def t)
  qed
qed

text \<open>With a store that does not fail, ingesting and then flushing stores everything converted.\<close>

lemma write_batch_ok: "\<not> raises 0 \<Longrightarrow> write_batch raises xs s = (length xs, batch_stored xs s)"
  by (simp add: write_batch_def WRITE_ATTEMPTS_def numeral_3_eq_3)

lemma write_retries: "write_attempts raises 3 0 \<longleftrightarrow> \<not> raises 0 \<or> \<not> raises 1 \<or> \<not> raises 2"
  by (simp add: numeral_3_eq_3 numeral_2_eq_2)

definition all_put :: "ingestor \<Rightarrow> cp_outcome list" where
  "all_put s = cps_records (ig_store s) @ ig_batch s"

lemma ingest_tail:
  assumes "\<not> raises 0" "length (cps_records (ig_store s)) \<le> cps_max (ig_store s)"
    "ig_batch s = [] \<or> length (ig_batch s) < ig_batch_size s"
  shows "let s' = ingest cv raises e s in
     take_last (cps_max (ig_store s)) (all_put s') =
       take_last (cps_max (ig_store s)) (all_put s @
         (case convert_event cv (ig_operation_name s) e of Inl _ \<Rightarrow> [] | Inr x \<Rightarrow> [x]))"
  using assms
  by (auto simp: ingest_def enqueue_def Let_def write_batch_ok batch_stored_def conversion_failed_def all_put_def
      put_many_records take_last_take_last split: sum.splits)

end
