(* ===== verification/Py_Sort.thy ===== *)
theory Py_Sort
  imports Py_Float "HOL-Library.Multiset"
begin

text \<open>
  Python's stable sort for a comparison \<open>lt\<close> of keys, and \<open>heapq.nlargest\<close>, documented as
  the first elements of a stable descending sort. An element moves behind the elements that
  are strictly smaller only.
\<close>

fun insert_by :: "('a \<Rightarrow> 'a \<Rightarrow> bool) \<Rightarrow> 'a \<Rightarrow> 'a list \<Rightarrow> 'a list" where
  "insert_by lt x [] = [x]"
| "insert_by lt x (y # ys) = (if lt y x then y # insert_by lt x ys else x # y # ys)"

definition sort_by :: "('a \<Rightarrow> 'a \<Rightarrow> bool) \<Rightarrow> 'a list \<Rightarrow> 'a list" where
  "sort_by lt xs = foldr (insert_by lt) xs []"

definition nlargest :: "nat \<Rightarrow> ('a \<Rightarrow> pyfloat) \<Rightarrow> 'a list \<Rightarrow> 'a list" where
  "nlargest n key xs = take n (sort_by (\<lambda>a b. flt (key b) (key a)) xs)"

lemma mset_insert_by [simp]: "mset (insert_by lt x ys) = add_mset x (mset ys)"
  by (induction ys) auto

lemma mset_sort_by [simp]: "mset (sort_by lt xs) = mset xs"
  unfolding sort_by_def by (induction xs) auto

lemma set_sort_by [simp]: "set (sort_by lt xs) = set xs"
  by (metis mset_sort_by set_mset_mset)

lemma length_sort_by [simp]: "length (sort_by lt xs) = length xs"
  by (metis mset_sort_by size_mset)

lemma set_insert_by [simp]: "set (insert_by lt x ys) = insert x (set ys)"
  by (metis mset_insert_by set_mset_add_mset_insert set_mset_mset)

text \<open>A strict weak order on the elements, as a locale for the two orders the code sorts by.\<close>

locale sort_order =
  fixes lt :: "'a \<Rightarrow> 'a \<Rightarrow> bool" and dom :: "'a \<Rightarrow> bool"
  assumes asym: "dom a \<Longrightarrow> dom b \<Longrightarrow> lt a b \<Longrightarrow> \<not> lt b a"
    and weak_trans: "dom a \<Longrightarrow> dom b \<Longrightarrow> dom c \<Longrightarrow> \<not> lt b a \<Longrightarrow> \<not> lt c b \<Longrightarrow> \<not> lt c a"
begin

lemma insert_sorted:
  "sorted_wrt (\<lambda>a b. \<not> lt b a) ys \<Longrightarrow> dom x \<Longrightarrow> (\<forall>y \<in> set ys. dom y) \<Longrightarrow>
   sorted_wrt (\<lambda>a b. \<not> lt b a) (insert_by lt x ys)"
proof (induction ys)
  case (Cons y ys)
  have y: "dom y" "dom x" and ys: "\<forall>z \<in> set ys. dom z" using Cons.prems by simp_all
  have IH: "sorted_wrt (\<lambda>a b. \<not> lt b a) (insert_by lt x ys)" using Cons by simp
  have le: "\<forall>z \<in> set ys. \<not> lt z y" using Cons.prems by simp
  show ?case
  proof (cases "lt y x")
    case True
    have "\<not> lt x y" using asym [OF y True] .
    then show ?thesis using True IH le by simp
  next
    case False
    have "\<forall>z \<in> set ys. \<not> lt z x" using weak_trans [OF y(2) y(1) _ False] ys le by blast
    then show ?thesis using False Cons.prems by simp
  qed
qed simp

lemma sort_by_sorted: "\<forall>x \<in> set xs. dom x \<Longrightarrow> sorted_wrt (\<lambda>a b. \<not> lt b a) (sort_by lt xs)"
proof (induction xs)
  case (Cons x xs)
  then have "sorted_wrt (\<lambda>a b. \<not> lt b a) (insert_by lt x (sort_by lt xs))"
    by (intro insert_sorted) auto
  then show ?case by (simp add: sort_by_def)
qed (simp add: sort_by_def)

lemma insert_by_min: "(\<And>y. y \<in> set ys \<Longrightarrow> \<not> lt y x) \<Longrightarrow> insert_by lt x ys = x # ys"
  by (cases ys) auto

lemma sort_by_id: "sorted_wrt (\<lambda>a b. \<not> lt b a) xs \<Longrightarrow> sort_by lt xs = xs"
proof (induction xs)
  case (Cons x xs)
  then have "sort_by lt xs = xs" by simp
  then have "sort_by lt (x # xs) = insert_by lt x xs" by (simp add: sort_by_def)
  then show ?case using Cons.prems insert_by_min by simp
qed (simp add: sort_by_def)

lemma sort_by_idem: "\<forall>x \<in> set xs. dom x \<Longrightarrow> sort_by lt (sort_by lt xs) = sort_by lt xs"
  by (rule sort_by_id) (rule sort_by_sorted)

text \<open>Elements of equal rank keep their order.\<close>

lemma filter_insert_by:
  "(\<forall>y \<in> set ys. P y \<longrightarrow> \<not> lt y x) \<Longrightarrow> sorted_wrt (\<lambda>a b. \<not> lt b a) ys \<Longrightarrow> dom x \<Longrightarrow> \<forall>y \<in> set ys. dom y \<Longrightarrow> P x \<Longrightarrow>
   filter P (insert_by lt x ys) = x # filter P ys"
  by (induction ys) auto

lemma filter_insert_by_not: "\<not> P x \<Longrightarrow> filter P (insert_by lt x ys) = filter P ys"
  by (induction ys) auto

lemma sort_by_stable:
  assumes "\<forall>x \<in> set xs. dom x" "\<forall>x \<in> set xs. \<forall>y \<in> set xs. P x \<longrightarrow> P y \<longrightarrow> \<not> lt x y"
  shows "filter P (sort_by lt xs) = filter P xs"
  using assms
proof (induction xs)
  case (Cons x xs)
  have sorted: "sorted_wrt (\<lambda>a b. \<not> lt b a) (sort_by lt xs)" using Cons.prems by (intro sort_by_sorted) auto
  have step: "sort_by lt (x # xs) = insert_by lt x (sort_by lt xs)" by (simp add: sort_by_def)
  have IH: "filter P (sort_by lt xs) = filter P xs" using Cons by simp
  show ?case
  proof (cases "P x")
    case True
    then show ?thesis using Cons.prems IH sorted
      by (simp add: step) (subst filter_insert_by, auto)
  next
    case False
    then show ?thesis using IH by (simp add: step filter_insert_by_not)
  qed
qed (simp add: sort_by_def)

end

text \<open>Descending by a number that is not a NaN.\<close>

interpretation desc: sort_order "\<lambda>a b. flt (key b) (key a)" "\<lambda>a. key a \<noteq> NaN" for key :: "'a \<Rightarrow> pyfloat"
proof (unfold_locales, goal_cases)
  case (1 a b)
  then show ?case by (cases "key a"; cases "key b") auto
next
  case (2 a b c)
  then show ?case by (cases "key a"; cases "key b"; cases "key c") auto
qed

interpretation asc: sort_order "\<lambda>a b. flt (key a) (key b)" "\<lambda>a. key a \<noteq> NaN" for key :: "'a \<Rightarrow> pyfloat"
proof (unfold_locales, goal_cases)
  case (1 a b)
  then show ?case by (cases "key a"; cases "key b") auto
next
  case (2 a b c)
  then show ?case by (cases "key a"; cases "key b"; cases "key c") auto
qed

lemma nlargest_length: "length (nlargest n key xs) = min n (length xs)"
  by (simp add: nlargest_def)

lemma nlargest_set: "set (nlargest n key xs) \<subseteq> set xs"
  unfolding nlargest_def by (metis set_sort_by set_take_subset)

lemma nlargest_all: "length xs \<le> n \<Longrightarrow> mset (nlargest n key xs) = mset xs"
  by (simp add: nlargest_def)

lemma nlargest_sorted:
  assumes "\<forall>x \<in> set xs. key x \<noteq> NaN"
  shows "sorted_wrt (\<lambda>a b. fle (key b) (key a)) (nlargest n key xs)"
proof -
  have "sorted_wrt (\<lambda>a b. \<not> flt (key a) (key b)) (sort_by (\<lambda>a b. flt (key b) (key a)) xs)"
    using assms by (rule desc.sort_by_sorted)
  then have "sorted_wrt (\<lambda>a b. fle (key b) (key a)) (sort_by (\<lambda>a b. flt (key b) (key a)) xs)"
    by (rule sorted_wrt_mono_rel [rotated]) (use assms in \<open>auto simp: not_flt\<close>)
  then show ?thesis unfolding nlargest_def by (rule sorted_wrt_take)
qed

text \<open>What \<open>nlargest\<close> leaves out is no larger than what it keeps.\<close>

lemma nlargest_keeps_largest:
  assumes "\<forall>x \<in> set xs. key x \<noteq> NaN" "x \<in> set (nlargest n key xs)"
    "y \<in> set (drop n (sort_by (\<lambda>a b. flt (key b) (key a)) xs))"
  shows "fle (key y) (key x)"
proof -
  let ?s = "sort_by (\<lambda>a b. flt (key b) (key a)) xs"
  have "sorted_wrt (\<lambda>a b. \<not> flt (key a) (key b)) (take n ?s @ drop n ?s)"
    using desc.sort_by_sorted [OF assms(1)] by simp
  then have "\<not> flt (key x) (key y)"
    unfolding sorted_wrt_append using assms(2,3) unfolding nlargest_def by blast
  moreover have "x \<in> set xs" "y \<in> set xs"
    using assms(2,3) nlargest_set by (fastforce, metis in_set_dropD set_sort_by)
  ultimately show ?thesis using assms(1) by (simp add: not_flt)
qed

end
