(* ===== verification/Replay.thy ===== *)
theory Replay
  imports Simulation Cp_Events Py_Sort
begin

text \<open>
  Incident replay (\<open>replay/models.py\<close>, \<open>replay/engine.py\<close>, \<open>api/routes/replay.py\<close>): building the
  override policy, the decision for one recorded event, the loop over the events of a chain in
  timestamp order, and the endpoint. The summary text is the constructor that selects it.
\<close>

section \<open>\<open>_build_override_policy\<close>\<close>

definition numeric_or_value_error :: "'a result \<Rightarrow> 'a result" where
  \<comment> \<open>\<open>except (TypeError, ValueError): raise ValueError\<close>\<close>
  "numeric_or_value_error r = (case r of
     Inl e \<Rightarrow> Inl (if e = TypeError \<or> e = ValueError then ValueError else e) | Inr x \<Rightarrow> Inr x)"

lemma numeric_or_value_error_ok [simp]: "numeric_or_value_error r = Inr x \<longleftrightarrow> r = Inr x"
  by (auto simp: numeric_or_value_error_def split: sum.splits)

definition override_chain_id :: "pyval \<Rightarrow> string result" where
  "override_chain_id v = (case v of
     VStr s \<Rightarrow> rbind (reject_unless (strip s \<noteq> [])) (\<lambda>_. Inr (strip s)) | _ \<Rightarrow> Inl ValueError)"

definition override_on_exceed :: "pyval \<Rightarrow> string result" where
  \<comment> \<open>membership in a set hashes the value first\<close>
  "override_on_exceed v = (case v of
     VStr s \<Rightarrow> if s \<in> set ALLOWED_ON_EXCEED then Inr s else Inl ValueError
   | _ \<Rightarrow> if hashable v then Inl ValueError else Inl TypeError)"

definition nonneg_number :: "pyval \<Rightarrow> pyfloat result" where
  \<comment> \<open>\<open>float(v)\<close>, finite and not negative\<close>
  "nonneg_number v =
     rbind (numeric_or_value_error (to_float v)) (\<lambda>x.
     rbind (reject_unless (isfinite x \<and> \<not> flt x (Fin 0))) (\<lambda>_. Inr x))"

definition override_int :: "pyval \<Rightarrow> pyval result" where
  "override_int v =
     (if v = VNone then Inr VNone
      else rbind (reject_unless (is_int v \<and> \<not> is_bool v)) (\<lambda>_.
           rbind (val_lt v (Fin 0)) (\<lambda>neg. rbind (reject_unless (\<not> neg)) (\<lambda>_. Inr v))))"

definition override_timeout :: "pyval \<Rightarrow> pyval result" where
  "override_timeout v =
     (if v = VNone then Inr VNone
      else rbind (reject_unless (\<not> is_bool v)) (\<lambda>_. rbind (nonneg_number v) (\<lambda>x. Inr (VFloat x))))"

definition override_priority :: "pyval \<Rightarrow> int result" where
  "override_priority v = (case v of
     VInt n \<Rightarrow> rbind (reject_unless (0 \<le> n \<and> n \<le> 100)) (\<lambda>_. Inr n) | _ \<Rightarrow> Inl ValueError)"

definition build_override_policy :: "pyfloat \<Rightarrow> (string, pyval) pydict \<Rightarrow> policy_config result" where
  "build_override_policy now d =
     rbind (override_chain_id (get_none d ''chain_id'')) (\<lambda>chain.
     let ceil = get_none d ''ceiling_usd'' in
     rbind (reject_unless (ceil \<noteq> VNone)) (\<lambda>_.
     rbind (reject_unless (\<not> is_bool ceil)) (\<lambda>_.
     rbind (override_on_exceed (dget_default d ''on_exceed'' (VStr ''halt''))) (\<lambda>on_exceed.
     rbind (nonneg_number ceil) (\<lambda>ceiling.
     rbind (override_int (get_none d ''ceiling_steps'')) (\<lambda>steps.
     rbind (override_int (get_none d ''ceiling_tokens_out'')) (\<lambda>tokens.
     rbind (override_timeout (get_none d ''timeout_ms'')) (\<lambda>timeout.
     rbind (override_priority (dget_default d ''priority'' (VInt 50))) (\<lambda>priority.
     let issued_raw = dget_default d ''issued_at'' (VFloat now) in
     rbind (reject_unless (\<not> is_bool issued_raw)) (\<lambda>_.
     rbind (nonneg_number issued_raw) (\<lambda>issued.
     Inr ((new_policy_config chain (VFloat ceiling) on_exceed (VFloat issued))
       \<lparr>pc_ceiling_steps := steps, pc_ceiling_tokens_out := tokens,
        pc_fallback_model := get_none d ''fallback_model'', pc_timeout_ms := timeout,
        pc_priority := VInt priority\<rparr>))))))))))))"

definition override_limit :: "pyval \<Rightarrow> bool" where
  "override_limit v \<longleftrightarrow> v = VNone \<or> (\<exists>n\<ge>0. v = VInt n)"

definition override_built :: "policy_config \<Rightarrow> bool" where
  "override_built p \<longleftrightarrow>
     pc_chain_id p \<noteq> [] \<and> pc_on_exceed p \<in> set ALLOWED_ON_EXCEED \<and>
     (\<exists>x. pc_ceiling_usd p = VFloat x \<and> isfinite x \<and> nonneg_float x) \<and>
     override_limit (pc_ceiling_steps p) \<and> override_limit (pc_ceiling_tokens_out p) \<and>
     (\<exists>n. pc_priority p = VInt n \<and> 0 \<le> n \<and> n \<le> 100)"

lemma nonneg_number_ok: "nonneg_number v = Inr x \<Longrightarrow> isfinite x \<and> nonneg_float x"
  by (cases x) (auto simp: nonneg_number_def rbind_Inr_iff)

lemma override_int_ok: "override_int v = Inr w \<Longrightarrow> override_limit w"
  by (cases v) (auto simp: override_int_def override_limit_def rbind_Inr_iff val_lt_def)

lemma build_override_policy_ok:
  assumes "build_override_policy now d = Inr p"
  shows "override_built p"
proof -
  obtain chain on_exceed ceiling steps tokens timeout priority issued where
    c: "override_chain_id (get_none d ''chain_id'') = Inr chain"
    and e: "override_on_exceed (dget_default d ''on_exceed'' (VStr ''halt'')) = Inr on_exceed"
    and u: "nonneg_number (get_none d ''ceiling_usd'') = Inr ceiling"
    and s: "override_int (get_none d ''ceiling_steps'') = Inr steps"
    and t: "override_int (get_none d ''ceiling_tokens_out'') = Inr tokens"
    and r: "override_priority (dget_default d ''priority'' (VInt 50)) = Inr priority"
    and p: "p = (new_policy_config chain (VFloat ceiling) on_exceed (VFloat issued))
       \<lparr>pc_ceiling_steps := steps, pc_ceiling_tokens_out := tokens,
        pc_fallback_model := get_none d ''fallback_model'', pc_timeout_ms := timeout,
        pc_priority := VInt priority\<rparr>"
    using assms unfolding build_override_policy_def Let_def rbind_Inr_iff by blast
  have "chain \<noteq> []"
    using c by (auto simp: override_chain_id_def rbind_Inr_iff split: pyval.splits)
  moreover have "on_exceed \<in> set ALLOWED_ON_EXCEED"
    using e by (auto simp: override_on_exceed_def split: pyval.splits if_splits)
  moreover have "0 \<le> priority \<and> priority \<le> 100"
    using r by (auto simp: override_priority_def rbind_Inr_iff split: pyval.splits)
  moreover note nonneg_number_ok [OF u] override_int_ok [OF s] override_int_ok [OF t]
  ultimately show ?thesis
    unfolding override_built_def p by (simp add: new_policy_config_def)
qed

section \<open>Requests, differences and the decision for one event\<close>

record replay_request =
  rq_chain_id :: string
  rq_from :: pyfloat
  rq_to :: pyfloat
  rq_override :: "(string, pyval) pydict option"

definition new_replay_request ::
  "string \<Rightarrow> pyfloat \<Rightarrow> pyfloat \<Rightarrow> (string, pyval) pydict option \<Rightarrow> replay_request result" where
  "new_replay_request chain lo hi ov =
     rbind (reject_unless (isfinite lo \<and> isfinite hi)) (\<lambda>_.
     rbind (reject_unless (\<not> flt hi lo)) (\<lambda>_.
     Inr \<lparr>rq_chain_id = chain, rq_from = lo, rq_to = hi, rq_override = ov\<rparr>))"

record decision_diff =
  df_step_id :: string
  df_original :: string
  df_replayed :: string
  df_changed :: bool

datatype replay_summary = NoEvents | ChangedUnder nat policy_config | UnchangedUnder nat | NoOverride nat

record replay_result =
  rr_chain_id :: string
  rr_event_count :: nat
  rr_diffs :: "decision_diff list"
  rr_changed_count :: nat
  rr_summary :: replay_summary

definition MAX_REPLAY_EVENTS :: nat where "MAX_REPLAY_EVENTS = 100000"

definition event_cost :: "cp_outcome \<Rightarrow> pyfloat" where
  "event_cost e = (if isfinite (co_cost_usd e) then co_cost_usd e else Fin 0)"

definition replay_decision :: "cp_outcome \<Rightarrow> nat \<Rightarrow> pyfloat \<Rightarrow> policy_config \<Rightarrow> string result" where
  "replay_decision e idx cumulative p =
     (let projected_cost = fadd cumulative (event_cost e);
          projected_steps = int idx + 1 in
      rbind (val_lt (pc_ceiling_usd p) projected_cost) (\<lambda>b1.
      if b1 then Inr (pc_on_exceed p) else
      rbind (exceeds_int projected_steps (pc_ceiling_steps p)) (\<lambda>b2.
      if b2 then Inr (pc_on_exceed p) else
      rbind (val_isfinite (VInt (co_tokens e))) (\<lambda>fin.
      let event_tokens = (if fin then co_tokens e else 0) in
      rbind (exceeds_int event_tokens (pc_ceiling_tokens_out p)) (\<lambda>b3.
      if b3 then Inr (pc_on_exceed p) else Inr ''allow'')))))"

section \<open>\<open>ReplayEngine.replay\<close>\<close>

definition in_window :: "replay_request \<Rightarrow> cp_outcome \<Rightarrow> bool" where
  "in_window rq e \<longleftrightarrow> co_chain_id e = rq_chain_id rq \<and>
     fle (rq_from rq) (co_timestamp e) \<and> fle (co_timestamp e) (rq_to rq)"

definition event_lt :: "cp_outcome \<Rightarrow> cp_outcome \<Rightarrow> bool" where
  \<comment> \<open>the order of the sort keys \<open>(timestamp, step_id)\<close>\<close>
  "event_lt a b \<longleftrightarrow> flt (co_timestamp a) (co_timestamp b) \<or>
     (co_timestamp a = co_timestamp b \<and> co_step_id a < co_step_id b)"

interpretation by_time: sort_order event_lt "\<lambda>e. co_timestamp e \<noteq> NaN"
proof (unfold_locales, goal_cases)
  case (1 a b)
  then show ?case by (cases "co_timestamp a"; cases "co_timestamp b") (auto simp: event_lt_def)
next
  case (2 a b c)
  then show ?case
    by (cases "co_timestamp a"; cases "co_timestamp b"; cases "co_timestamp c") (auto simp: event_lt_def)
qed

definition replay_events :: "replay_request \<Rightarrow> cp_outcome list \<Rightarrow> cp_outcome list" where
  "replay_events rq es = take MAX_REPLAY_EVENTS (sort_by event_lt (filter (in_window rq) es))"

definition diff_of :: "cp_outcome \<Rightarrow> string \<Rightarrow> decision_diff" where
  "diff_of e replayed = \<lparr>df_step_id = co_step_id e, df_original = co_decision e,
     df_replayed = replayed, df_changed = (replayed \<noteq> co_decision e)\<rparr>"

definition replayed_decision :: "policy_config option \<Rightarrow> cp_outcome \<Rightarrow> nat \<Rightarrow> pyfloat \<Rightarrow> string result" where
  "replayed_decision ov e idx cumulative =
     (case ov of Some p \<Rightarrow> replay_decision e idx cumulative p | None \<Rightarrow> Inr (co_decision e))"

fun replay_loop :: "policy_config option \<Rightarrow> nat \<Rightarrow> pyfloat \<Rightarrow> nat \<Rightarrow> decision_diff list \<Rightarrow>
    cp_outcome list \<Rightarrow> (nat \<times> decision_diff list) result" where
  "replay_loop ov idx cumulative changed dfs [] = Inr (changed, dfs)"
| "replay_loop ov idx cumulative changed dfs (e # es) =
     rbind (replayed_decision ov e idx cumulative) (\<lambda>r.
       replay_loop ov (Suc idx) (fadd cumulative (event_cost e))
         (if r \<noteq> co_decision e then changed + 1 else changed) (dfs @ [diff_of e r]) es)"

definition override_policy :: "pyfloat \<Rightarrow> bool \<Rightarrow> replay_request \<Rightarrow> policy_config option result" where
  \<comment> \<open>\<open>except (ValueError, PolicyValidationError): raise ValueError\<close>\<close>
  "override_policy now strict rq =
     (case rq_override rq of
        None \<Rightarrow> Inr None
      | Some d \<Rightarrow>
          (case rbind (build_override_policy now d) (\<lambda>p. rbind (validate_policy strict p) (\<lambda>_. Inr (Some p))) of
             Inl e \<Rightarrow> Inl (if e = PolicyValidationError then ValueError else e)
           | Inr p \<Rightarrow> Inr p))"

definition replay :: "pyfloat \<Rightarrow> bool \<Rightarrow> cp_outcome list \<Rightarrow> replay_request \<Rightarrow> replay_result result" where
  "replay now strict snapshot rq =
     rbind (override_policy now strict rq) (\<lambda>ov.
     let events = replay_events rq snapshot in
     if events = []
     then Inr \<lparr>rr_chain_id = rq_chain_id rq, rr_event_count = 0, rr_diffs = [], rr_changed_count = 0,
               rr_summary = NoEvents\<rparr>
     else rbind (replay_loop ov 0 (Fin 0) 0 [] events) (\<lambda>(changed, dfs).
       Inr \<lparr>rr_chain_id = rq_chain_id rq, rr_event_count = length events, rr_diffs = dfs,
            rr_changed_count = changed,
            rr_summary = (case ov of
               Some p \<Rightarrow> if 0 < changed then ChangedUnder changed p else UnchangedUnder (length events)
             | None \<Rightarrow> NoOverride (length events))\<rparr>))"

subsection \<open>The endpoint\<close>

definition replay_body_ok :: "string \<Rightarrow> pyfloat \<Rightarrow> pyfloat \<Rightarrow> bool" where
  "replay_body_ok chain lo hi \<longleftrightarrow>
     chain \<noteq> [] \<and> length chain \<le> 256 \<and> list_all safe_char chain \<and>
     isfinite lo \<and> \<not> flt lo (Fin 0) \<and> isfinite hi \<and> \<not> flt hi (Fin 0) \<and> \<not> fle hi lo"

definition replay_endpoint :: "pyfloat \<Rightarrow> bool \<Rightarrow> cp_outcome list \<Rightarrow> string \<Rightarrow> pyfloat \<Rightarrow> pyfloat \<Rightarrow>
    (string, pyval) pydict option \<Rightarrow> replay_result result" where
  "replay_endpoint now strict snapshot chain lo hi ov =
     (if \<not> replay_body_ok chain lo hi then Inl (HTTPException 422)
      else rbind (new_replay_request chain lo hi ov) (\<lambda>rq.
        case replay now strict snapshot rq of
          Inl e \<Rightarrow> Inl (HTTPException (if e = ValueError then 422 else 500))
        | Inr r \<Rightarrow> Inr r))"

section \<open>What a replay reports\<close>

lemma replay_events_sorted: "sorted_wrt (\<lambda>a b. \<not> event_lt b a) (replay_events rq es)"
proof -
  have "sorted_wrt (\<lambda>a b. \<not> event_lt b a) (sort_by event_lt (filter (in_window rq) es))"
    by (rule by_time.sort_by_sorted) (auto simp: in_window_def dest: fle_notNaN)
  then show ?thesis by (simp add: replay_events_def sorted_wrt_take)
qed

lemma replay_events_all:
  "length (filter (in_window rq) es) \<le> MAX_REPLAY_EVENTS \<Longrightarrow>
   mset (replay_events rq es) = mset (filter (in_window rq) es)"
  by (simp add: replay_events_def)

lemma replay_events_window: "e \<in> set (replay_events rq es) \<Longrightarrow> e \<in> set es \<and> in_window rq e"
  using set_take_subset [of MAX_REPLAY_EVENTS "sort_by event_lt (filter (in_window rq) es)"]
  by (auto simp: replay_events_def)

text \<open>The loop: one difference per event, each the decision at the event's position and the cost
  accumulated before it.\<close>

definition cost_before :: "pyfloat \<Rightarrow> cp_outcome list \<Rightarrow> nat \<Rightarrow> pyfloat" where
  "cost_before c es i = foldl fadd c (map event_cost (take i es))"

lemma cost_before_simps [simp]:
  "cost_before c es 0 = c"
  "cost_before c (e # es) (Suc i) = cost_before (fadd c (event_cost e)) es i"
  by (simp_all add: cost_before_def)

lemma replay_loop_spec:
  assumes "replay_loop ov idx c ch ds es = Inr (ch', ds')"
  shows "\<exists>ts. ds' = ds @ ts \<and> length ts = length es \<and> ch' = ch + length (filter df_changed ts) \<and>
    (\<forall>i < length es. \<exists>r. replayed_decision ov (es ! i) (idx + i) (cost_before c es i) = Inr r \<and>
       ts ! i = diff_of (es ! i) r)"
  using assms
proof (induction es arbitrary: idx c ch ds)
  case (Cons e es)
  obtain r where r: "replayed_decision ov e idx c = Inr r"
    and l: "replay_loop ov (Suc idx) (fadd c (event_cost e))
      (if r \<noteq> co_decision e then ch + 1 else ch) (ds @ [diff_of e r]) es = Inr (ch', ds')"
    using Cons.prems unfolding replay_loop.simps rbind_Inr_iff by blast
  from Cons.IH [OF l] obtain ts where ts: "ds' = (ds @ [diff_of e r]) @ ts" "length ts = length es"
    "ch' = (if r \<noteq> co_decision e then ch + 1 else ch) + length (filter df_changed ts)"
    "\<forall>i < length es. \<exists>q. replayed_decision ov (es ! i) (Suc idx + i) (cost_before (fadd c (event_cost e)) es i) = Inr q \<and>
       ts ! i = diff_of (es ! i) q"
    by blast
  have "\<forall>i < Suc (length es). \<exists>q. replayed_decision ov ((e # es) ! i) (idx + i) (cost_before c (e # es) i) = Inr q \<and>
       (diff_of e r # ts) ! i = diff_of ((e # es) ! i) q"
  proof (intro allI impI)
    fix i
    assume "i < Suc (length es)"
    then show "\<exists>q. replayed_decision ov ((e # es) ! i) (idx + i) (cost_before c (e # es) i) = Inr q \<and>
       (diff_of e r # ts) ! i = diff_of ((e # es) ! i) q"
      using r ts(4) by (cases i) auto
  qed
  then show ?case using ts(1-3)
    by (intro exI [of _ "diff_of e r # ts"]) (auto simp: diff_of_def)
qed simp

lemma replay_spec:
  assumes "replay now strict snap rq = Inr r"
  shows "\<exists>ov. override_policy now strict rq = Inr ov \<and>
    rr_event_count r = length (replay_events rq snap) \<and> length (rr_diffs r) = rr_event_count r \<and>
    rr_changed_count r = length (filter df_changed (rr_diffs r)) \<and>
    (\<forall>i < rr_event_count r. \<exists>d.
       replayed_decision ov (replay_events rq snap ! i) i (cost_before (Fin 0) (replay_events rq snap) i) = Inr d \<and>
       rr_diffs r ! i = diff_of (replay_events rq snap ! i) d)"
proof -
  obtain ov where ov: "override_policy now strict rq = Inr ov"
    using assms unfolding replay_def rbind_Inr_iff by blast
  show ?thesis
  proof (cases "replay_events rq snap = []")
    case True
    then show ?thesis using assms ov by (intro exI [of _ ov]) (auto simp: replay_def)
  next
    case False
    then obtain ch ds where l: "replay_loop ov 0 (Fin 0) 0 [] (replay_events rq snap) = Inr (ch, ds)"
      and r: "rr_event_count r = length (replay_events rq snap)" "rr_diffs r = ds" "rr_changed_count r = ch"
      using assms ov by (auto simp: replay_def Let_def rbind_Inr_iff)
    from replay_loop_spec [OF l] show ?thesis
      unfolding r using ov by (intro exI [of _ ov]) simp
  qed
qed

text \<open>Without an override nothing changes and the replay always succeeds.\<close>

lemma replay_loop_none:
  "replay_loop None idx c ch ds es = Inr (ch, ds @ map (\<lambda>e. diff_of e (co_decision e)) es)"
  by (induction es arbitrary: idx c ds) (simp_all add: replayed_decision_def)

lemma replay_without_override:
  assumes "rq_override rq = None"
  shows "\<exists>r. replay now strict snap rq = Inr r \<and> rr_changed_count r = 0 \<and>
    map df_replayed (rr_diffs r) = map co_decision (replay_events rq snap)"
  using assms by (auto simp: replay_def override_policy_def Let_def replay_loop_none diff_of_def)

subsection \<open>Decisions under an override\<close>

lemma override_limit_exceeds:
  "override_limit v \<Longrightarrow> exceeds_int n v = Inr (\<not> below v (Fin (of_int n)))"
  by (auto simp: override_limit_def exceeds_int_def unless_none_def below_def val_lt_def)

lemma replay_decision_spec:
  assumes p: "override_built p" and t: "val_isfinite (VInt (co_tokens e)) = Inr True"
  shows "replay_decision e idx c p =
    Inr (if below (pc_ceiling_usd p) (fadd c (event_cost e)) \<and>
            below (pc_ceiling_steps p) (Fin (of_nat (Suc idx))) \<and>
            below (pc_ceiling_tokens_out p) (Fin (of_int (co_tokens e)))
         then ''allow'' else pc_on_exceed p)"
proof -
  obtain x where x: "pc_ceiling_usd p = VFloat x" using p by (auto simp: override_built_def)
  have s: "override_limit (pc_ceiling_steps p)" "override_limit (pc_ceiling_tokens_out p)"
    using p by (auto simp: override_built_def)
  have "val_lt (pc_ceiling_usd p) y = Inr (\<not> below (pc_ceiling_usd p) y)" for y
    by (simp add: x val_lt_def below_def)
  moreover have "(of_int (int idx + 1) :: rat) = of_nat (Suc idx)" by simp
  ultimately show ?thesis
    unfolding replay_decision_def Let_def override_limit_exceeds [OF s(1)] override_limit_exceeds [OF s(2)] t
    by (simp add: add.commute)
qed

text \<open>Once the cost ceiling is exceeded it stays exceeded, when no recorded cost is negative.\<close>

lemma event_cost_nonneg: "\<not> flt (co_cost_usd e) (Fin 0) \<Longrightarrow> nonneg_float (event_cost e)"
  by (cases "co_cost_usd e") (auto simp: event_cost_def)

lemma event_cost_double: "is_double (co_cost_usd e) \<Longrightarrow> is_double (event_cost e)"
  by (simp add: event_cost_def)

lemma cost_before_Suc: "i < length es \<Longrightarrow> cost_before c es (Suc i) = fadd (cost_before c es i) (event_cost (es ! i))"
  by (simp add: cost_before_def take_Suc_conv_app_nth)

lemma cost_before_nonneg:
  assumes "\<forall>e \<in> set es. \<not> flt (co_cost_usd e) (Fin 0) \<and> is_double (co_cost_usd e)" "i \<le> length es"
  shows "nonneg_float (cost_before (Fin 0) es i) \<and> is_double (cost_before (Fin 0) es i)"
  using assms(2)
proof (induction i)
  case (Suc i)
  then have "es ! i \<in> set es" by simp
  then show ?case using Suc assms(1)
    by (simp add: cost_before_Suc fadd_nonneg event_cost_nonneg event_cost_double is_double_fadd)
qed simp

lemma cost_before_mono:
  assumes c: "\<forall>e \<in> set es. \<not> flt (co_cost_usd e) (Fin 0) \<and> is_double (co_cost_usd e)"
    and "i \<le> j" "j \<le> length es"
  shows "fle (cost_before (Fin 0) es i) (cost_before (Fin 0) es j)"
  using assms(2,3)
proof (induction j rule: dec_induct)
  case base
  then have "nonneg_float (cost_before (Fin 0) es i)" using cost_before_nonneg [OF c] by blast
  then show ?case by (simp add: fle_notNaN)
next
  case (step j)
  then have j: "j < length es" "es ! j \<in> set es" by simp_all
  have "fle (cost_before (Fin 0) es j) (cost_before (Fin 0) es (Suc j))"
    unfolding cost_before_Suc [OF j(1)]
    using cost_before_nonneg [OF c, of j] j c
    by (intro fadd_ge1 event_cost_nonneg) (auto dest: fle_notNaN)
  with step show ?case by (metis Suc_leD fle_trans)
qed

end
