(* ===== verification/Event_Api.thy ===== *)
theory Event_Api
  imports Cp_Events Py_Sort Policy_Registry
begin

text \<open>
  The read-only endpoints over the ingested events and the registry: \<open>GET /events\<close>,
  \<open>GET /export\<close>, \<open>GET /incidents/{chain_id}/{step_id}\<close>, \<open>GET /runs/{chain_id}\<close> and the
  checks of \<open>GET /health\<close>. The snapshot of the event store is an argument. Every operation
  returns a value and no store, so none of them changes one.
\<close>

section \<open>\<open>GET /events\<close>\<close>

definition MAX_LIMIT :: nat where "MAX_LIMIT = 1000"
definition MAX_RESULTS_CAP :: nat where "MAX_RESULTS_CAP = 10000"

definition bad_request :: "'a result" where "bad_request = Inl (HTTPException 400)"

definition path_id_ok :: "string \<Rightarrow> bool" where
  \<comment> \<open>the \<open>pattern\<close> of a path or body identifier, matched as a whole\<close>
  "path_id_ok s \<longleftrightarrow> s \<noteq> [] \<and> length s \<le> 256 \<and> list_all safe_char s"

record event_query =
  eq_chain_id :: "string option"
  eq_decision :: "string list option"
  eq_policy_hash :: "string option"
  eq_since :: "pyfloat option"
  eq_until :: "pyfloat option"
  eq_offset :: nat
  eq_limit :: nat

definition query_bounds_ok :: "event_query \<Rightarrow> bool" where
  \<comment> \<open>the bounds of the \<open>Query\<close> declarations\<close>
  "query_bounds_ok q \<longleftrightarrow>
     (case eq_chain_id q of Some c \<Rightarrow> length c \<le> 256 | None \<Rightarrow> True) \<and>
     (case eq_policy_hash q of Some h \<Rightarrow> length h \<le> 64 | None \<Rightarrow> True) \<and>
     eq_offset q \<le> MAX_RESULTS_CAP \<and> 1 \<le> eq_limit q \<and> eq_limit q \<le> MAX_LIMIT"

record events_response =
  er_items :: "cp_outcome list"
  er_total :: nat
  er_offset :: nat
  er_limit :: nat
  er_truncated :: bool

fun matches :: "'a option \<Rightarrow> ('a \<Rightarrow> bool) \<Rightarrow> bool" where
  \<comment> \<open>an absent filter keeps everything\<close>
  "matches None P = True"
| "matches (Some x) P = P x"

definition query_valid :: "event_query \<Rightarrow> bool" where
  \<comment> \<open>the checks in the handler's body, each answered with 400\<close>
  "query_valid q \<longleftrightarrow>
     matches (eq_decision q) (\<lambda>ds. length ds \<le> 20 \<and> list_all (\<lambda>d. d \<in> set VALID_DECISIONS) ds) \<and>
     matches (eq_policy_hash q) (match_dollar is_hex64) \<and>
     matches (eq_since q) isfinite \<and> matches (eq_until q) isfinite \<and>
     (case (eq_since q, eq_until q) of (Some a, Some b) \<Rightarrow> \<not> flt b a | _ \<Rightarrow> True)"

definition event_matches :: "event_query \<Rightarrow> cp_outcome \<Rightarrow> bool" where
  "event_matches q o' \<longleftrightarrow>
     matches (eq_chain_id q) (\<lambda>c. co_chain_id o' = c) \<and>
     matches (eq_decision q) (\<lambda>ds. co_decision o' \<in> set ds) \<and>
     matches (eq_policy_hash q) (\<lambda>h. co_policy_hash o' = h) \<and>
     matches (eq_since q) (\<lambda>t. fle t (co_timestamp o')) \<and>
     matches (eq_until q) (\<lambda>t. fle (co_timestamp o') t)"

definition events_selected :: "event_query \<Rightarrow> cp_outcome list \<Rightarrow> cp_outcome list" where
  "events_selected q snapshot =
     (let outcomes = filter (event_matches q) snapshot in
      nlargest (min (length outcomes) MAX_RESULTS_CAP) co_timestamp outcomes)"

definition list_events :: "event_query \<Rightarrow> cp_outcome list \<Rightarrow> events_response result" where
  "list_events q snapshot =
     (if \<not> query_bounds_ok q then Inl (HTTPException 422)
      else if \<not> query_valid q then bad_request
      else (let actual_total = length (filter (event_matches q) snapshot);
                outcomes = events_selected q snapshot in
            Inr \<lparr>er_items = slice (eq_offset q) (eq_offset q + eq_limit q) outcomes,
                 er_total = min actual_total MAX_RESULTS_CAP, er_offset = eq_offset q,
                 er_limit = eq_limit q, er_truncated = (MAX_RESULTS_CAP < actual_total)\<rparr>))"

subsection \<open>Paging through the events\<close>

lemma events_selected_length:
  "length (events_selected q es) = min (length (filter (event_matches q) es)) MAX_RESULTS_CAP"
  by (simp add: events_selected_def Let_def nlargest_length)

lemma events_selected_newest_first:
  assumes "\<forall>e \<in> set es. co_timestamp e \<noteq> NaN"
  shows "sorted_wrt (\<lambda>a b. fle (co_timestamp b) (co_timestamp a)) (events_selected q es)"
  unfolding events_selected_def Let_def by (rule nlargest_sorted) (use assms in auto)

lemma events_selected_all:
  assumes "length (filter (event_matches q) es) \<le> MAX_RESULTS_CAP"
  shows "mset (events_selected q es) = mset (filter (event_matches q) es)"
  using assms by (simp add: events_selected_def Let_def nlargest_all)

text \<open>What is selected is among the matching events, and no matching event left out is newer.\<close>

lemma events_selected_split:
  "\<exists>rest. mset (filter (event_matches q) es) = mset (events_selected q es) + mset rest \<and>
    ((\<forall>e \<in> set es. co_timestamp e \<noteq> NaN) \<longrightarrow>
       (\<forall>a \<in> set (events_selected q es). \<forall>b \<in> set rest. fle (co_timestamp b) (co_timestamp a)))"
proof -
  let ?xs = "filter (event_matches q) es"
  let ?n = "min (length ?xs) MAX_RESULTS_CAP"
  let ?s = "sort_by (\<lambda>a b. flt (co_timestamp b) (co_timestamp a)) ?xs"
  have sel: "events_selected q es = nlargest ?n co_timestamp ?xs" by (simp add: events_selected_def Let_def)
  have "mset ?xs = mset (take ?n ?s @ drop ?n ?s)" by (simp only: append_take_drop_id mset_sort_by)
  then have "mset ?xs = mset (events_selected q es) + mset (drop ?n ?s)" by (simp only: sel nlargest_def mset_append)
  moreover have "fle (co_timestamp b) (co_timestamp a)"
    if "\<forall>e \<in> set es. co_timestamp e \<noteq> NaN" "a \<in> set (events_selected q es)" "b \<in> set (drop ?n ?s)" for a b
    using that by (intro nlargest_keeps_largest [of ?xs co_timestamp a ?n b]) (auto simp: sel)
  ultimately show ?thesis by blast
qed

lemma events_selected_mem: "e \<in> set (events_selected q es) \<Longrightarrow> e \<in> set es \<and> event_matches q e"
  unfolding events_selected_def Let_def using nlargest_set by fastforce

definition event_page :: "event_query \<Rightarrow> cp_outcome list \<Rightarrow> nat \<Rightarrow> cp_outcome list" where
  \<comment> \<open>the items of the request for page \<open>k\<close> of the query's page size\<close>
  "event_page q es k =
     (case list_events (q\<lparr>eq_offset := k * eq_limit q\<rparr>) es of Inl _ \<Rightarrow> [] | Inr r \<Rightarrow> er_items r)"

lemma event_matches_offset [simp]: "event_matches (q\<lparr>eq_offset := n\<rparr>) = event_matches q"
  by (simp add: event_matches_def fun_eq_iff)

lemma events_selected_offset [simp]:
  "query_valid (q\<lparr>eq_offset := n\<rparr>) = query_valid q"
  "events_selected (q\<lparr>eq_offset := n\<rparr>) es = events_selected q es"
  by (simp_all add: query_valid_def events_selected_def)

lemma event_page_slice:
  assumes "query_bounds_ok q" "query_valid q" "k * eq_limit q \<le> MAX_RESULTS_CAP"
  shows "event_page q es k = slice (k * eq_limit q) (Suc k * eq_limit q) (events_selected q es)"
proof -
  have "query_bounds_ok (q\<lparr>eq_offset := k * eq_limit q\<rparr>)"
    using assms by (simp add: query_bounds_ok_def)
  then show ?thesis using assms(2) by (simp add: event_page_def list_events_def Let_def add.commute)
qed

lemma concat_slices: "concat (map (\<lambda>k. slice (k * n) (Suc k * n) xs) [0..<m]) = slice 0 (m * n) xs"
proof (induction m)
  case (Suc m)
  then show ?case using slice_pages [of m n xs] by simp
qed (simp add: slice_def)

lemma event_pages_cover:
  assumes q: "query_bounds_ok q" "query_valid q"
    and m: "length (events_selected q es) \<le> m * eq_limit q" "\<forall>k < m. k * eq_limit q \<le> MAX_RESULTS_CAP"
  shows "concat (map (event_page q es) [0..<m]) = events_selected q es"
proof -
  have "map (event_page q es) [0..<m] =
      map (\<lambda>k. slice (k * eq_limit q) (Suc k * eq_limit q) (events_selected q es)) [0..<m]"
    using event_page_slice [OF q] m(2) by simp
  then show ?thesis using m(1) by (simp only: concat_slices) (simp add: slice_def)
qed

text \<open>The number of pages a client needs, from the total of the first response.\<close>

definition event_total :: "event_query \<Rightarrow> cp_outcome list \<Rightarrow> nat" where
  "event_total q es = (case list_events (q\<lparr>eq_offset := 0\<rparr>) es of Inl _ \<Rightarrow> 0 | Inr r \<Rightarrow> er_total r)"

definition page_count :: "event_query \<Rightarrow> cp_outcome list \<Rightarrow> nat" where
  "page_count q es = (event_total q es + eq_limit q - 1) div eq_limit q"

lemma event_total_selected:
  assumes "query_bounds_ok q" "query_valid q"
  shows "event_total q es = length (events_selected q es)"
proof -
  have "query_bounds_ok (q\<lparr>eq_offset := 0\<rparr>)" using assms(1) by (simp add: query_bounds_ok_def)
  then show ?thesis using assms(2) by (simp add: event_total_def list_events_def events_selected_length Let_def)
qed

lemma ceiling_div:
  assumes "0 < l"
  shows "(n :: nat) \<le> (n + l - 1) div l * l" "k < (n + l - 1) div l \<Longrightarrow> k * l < n"
proof -
  have "n + l - 1 = (n + l - 1) div l * l + (n + l - 1) mod l" by simp
  moreover have "(n + l - 1) mod l < l" using assms by simp
  ultimately show "n \<le> (n + l - 1) div l * l" by linarith
  assume "k < (n + l - 1) div l"
  then have "Suc k * l \<le> (n + l - 1) div l * l" by (intro mult_le_mono1) simp
  also have "\<dots> \<le> n + l - 1" by (rule div_times_less_eq_dividend)
  finally show "k * l < n" using assms by simp
qed

lemma event_pages_all:
  assumes q: "query_bounds_ok q" "query_valid q"
  shows "concat (map (event_page q es) [0..<page_count q es]) = events_selected q es"
proof (rule event_pages_cover [OF q])
  have l: "0 < eq_limit q" using q(1) by (simp add: query_bounds_ok_def)
  note n = event_total_selected [OF q, of es]
  show "length (events_selected q es) \<le> page_count q es * eq_limit q"
    unfolding page_count_def n by (rule ceiling_div(1) [OF l])
  show "\<forall>k < page_count q es. k * eq_limit q \<le> MAX_RESULTS_CAP"
  proof (intro allI impI)
    fix k assume "k < page_count q es"
    then have "k * eq_limit q < length (events_selected q es)"
      unfolding page_count_def n by (rule ceiling_div(2) [OF l])
    then show "k * eq_limit q \<le> MAX_RESULTS_CAP" by (simp add: events_selected_length)
  qed
qed

section \<open>\<open>GET /export\<close>\<close>

definition POLICY_PAGE_SIZE :: nat where "POLICY_PAGE_SIZE = 1000"
definition MAX_POLICY_PAGES :: nat where "MAX_POLICY_PAGES = 1000"

text \<open>
  The loop over the pages. Each page is a separate read of the registry, so the registry at page
  \<open>k\<close> is an argument; the fuel is the pages left under the circuit breaker.
\<close>

fun export_pages :: "(nat \<Rightarrow> registry) \<Rightarrow> nat \<Rightarrow> nat \<Rightarrow> policy_bundle list \<Rightarrow> policy_bundle list" where
  "export_pages reg 0 page acc = acc"
| "export_pages reg (Suc left) page acc =
     (let (chunk, total_bundles) = list_policies (reg page) page POLICY_PAGE_SIZE;
          acc' = acc @ chunk in
      if total_bundles \<le> length acc' \<or> chunk = [] then acc'
      else export_pages reg left (Suc page) acc')"

definition export_policies :: "(nat \<Rightarrow> registry) \<Rightarrow> policy_bundle list" where
  "export_policies reg = export_pages reg MAX_POLICY_PAGES 1 []"

definition export_events :: "nat \<Rightarrow> cp_outcome list option \<Rightarrow> cp_outcome list \<times> bool" where
  \<comment> \<open>\<open>None\<close>: the snapshot raised, and the export carries a warning instead\<close>
  "export_events event_limit snapshot =
     (case snapshot of
        None \<Rightarrow> ([], True)
      | Some es \<Rightarrow> (nlargest event_limit co_timestamp es, False))"

lemma export_pages_all:
  assumes "length (rg_store s) \<le> (left + k) * POLICY_PAGE_SIZE"
    and "acc = take (k * POLICY_PAGE_SIZE) (dvalues (rg_store s))"
  shows "export_pages (\<lambda>_. s) left (Suc k) acc = dvalues (rg_store s)"
  using assms
proof (induction left arbitrary: k acc)
  case 0
  then show ?case by (simp add: dvalues_def)
next
  case (Suc left)
  let ?xs = "dvalues (rg_store s)" and ?n = POLICY_PAGE_SIZE
  have acc': "acc @ page_of (Suc k) ?n ?xs = take (Suc k * ?n) ?xs"
    unfolding Suc.prems(2) page_of_def slice_def by (simp add: add.commute [of ?n] take_add)
  have n: "0 < ?n" by (simp add: POLICY_PAGE_SIZE_def)
  have chunk: "page_of (Suc k) ?n ?xs = [] \<Longrightarrow> length ?xs \<le> k * ?n"
    using n by (simp add: page_of_def slice_def)
  show ?case
  proof (cases "length ?xs \<le> length (take (Suc k * ?n) ?xs) \<or> page_of (Suc k) ?n ?xs = []")
    case True
    then have "length ?xs \<le> Suc k * ?n" using chunk by auto
    then have "take (Suc k * ?n) ?xs = ?xs" by simp
    then show ?thesis using True unfolding export_pages.simps list_policies_def Let_def
      by (simp only: acc' split) simp
  next
    case False
    then have "export_pages (\<lambda>_. s) (Suc left) (Suc k) acc
        = export_pages (\<lambda>_. s) left (Suc (Suc k)) (take (Suc k * ?n) ?xs)"
      unfolding export_pages.simps list_policies_def Let_def by (simp only: acc' split) simp
    also have "\<dots> = ?xs"
      using Suc.prems(1) by (intro Suc.IH) simp_all
    finally show ?thesis .
  qed
qed

lemma export_policies_all:
  assumes "length (rg_store s) \<le> MAX_POLICY_PAGES * POLICY_PAGE_SIZE"
  shows "export_policies (\<lambda>_. s) = dvalues (rg_store s)"
  unfolding export_policies_def
  using export_pages_all [of s MAX_POLICY_PAGES 0 "[]"] assms by simp

section \<open>\<open>GET /incidents/{chain_id}/{step_id}\<close>\<close>

record timeline_event =
  te_step_id :: string
  te_decision :: string
  te_cost_usd :: pyfloat
  te_tokens :: int
  te_duration_ms :: pyfloat
  te_timestamp :: pyfloat
  te_operation_name :: string
  te_audit_id :: string

definition timeline_event_of :: "cp_outcome \<Rightarrow> timeline_event" where
  "timeline_event_of e =
     \<lparr>te_step_id = co_step_id e, te_decision = co_decision e, te_cost_usd = co_cost_usd e,
      te_tokens = co_tokens e, te_duration_ms = co_duration_ms e, te_timestamp = co_timestamp e,
      te_operation_name = co_operation_name e, te_audit_id = co_audit_id e\<rparr>"

definition root_cause_of :: "cp_outcome \<Rightarrow> (string, pyval) pydict" where
  "root_cause_of e =
     [(''step_id'', VStr (co_step_id e)), (''decision'', VStr (co_decision e)),
      (''timestamp'', VFloat (co_timestamp e)), (''operation_name'', VStr (co_operation_name e)),
      (''audit_id'', VStr (co_audit_id e))]"

record incident_detail =
  in_chain_id :: string
  in_step_id :: string
  in_incident_id :: string
  in_decision :: string
  in_reason_code :: "string option"
  in_policy_hash :: string
  in_audit_id :: string
  in_timeline :: "timeline_event list"
  in_root_cause :: "(string, pyval) pydict option"

definition HALT_DECISIONS :: "string list" where "HALT_DECISIONS = [''halt'', ''degrade'']"

definition chain_timeline :: "string \<Rightarrow> cp_outcome list \<Rightarrow> cp_outcome list" where
  "chain_timeline chain_id outcomes =
     sort_by (\<lambda>a b. flt (co_timestamp a) (co_timestamp b)) (filter (\<lambda>e. co_chain_id e = chain_id) outcomes)"

definition first_bad :: "cp_outcome list \<Rightarrow> cp_outcome option" where
  "first_bad chain_outcomes = List.find (\<lambda>e. co_decision e \<in> set HALT_DECISIONS) chain_outcomes"

definition get_incident :: "cp_outcome list \<Rightarrow> string \<Rightarrow> string \<Rightarrow> incident_detail result" where
  "get_incident outcomes chain_id step_id =
     (case List.find (\<lambda>e. co_chain_id e = chain_id \<and> co_step_id e = step_id) outcomes of
        None \<Rightarrow> Inl (HTTPException 404)
      | Some target \<Rightarrow>
          (let chain_outcomes = chain_timeline chain_id outcomes in
           Inr \<lparr>in_chain_id = chain_id, in_step_id = step_id, in_incident_id = chain_id @ '':'' @ step_id,
                in_decision = co_decision target, in_reason_code = None,
                in_policy_hash = co_policy_hash target, in_audit_id = co_audit_id target,
                in_timeline = map timeline_event_of chain_outcomes,
                in_root_cause = map_option root_cause_of (first_bad chain_outcomes)\<rparr>))"

lemma chain_timeline_sorted:
  assumes "\<forall>e \<in> set es. co_timestamp e \<noteq> NaN"
  shows "sorted_wrt (\<lambda>a b. fle (co_timestamp a) (co_timestamp b)) (chain_timeline c es)"
proof -
  have "sorted_wrt (\<lambda>a b. \<not> flt (co_timestamp b) (co_timestamp a)) (chain_timeline c es)"
    unfolding chain_timeline_def by (rule asc.sort_by_sorted) (use assms in auto)
  then show ?thesis
    by (rule sorted_wrt_mono_rel [rotated]) (use assms in \<open>auto simp: chain_timeline_def not_flt\<close>)
qed

lemma first_bad_earliest:
  assumes "\<forall>e \<in> set es. co_timestamp e \<noteq> NaN" "first_bad (chain_timeline c es) = Some r"
  shows "r \<in> set es \<and> co_chain_id r = c \<and> co_decision r \<in> set HALT_DECISIONS \<and>
    (\<forall>e \<in> set es. co_chain_id e = c \<longrightarrow> co_decision e \<in> set HALT_DECISIONS \<longrightarrow>
       fle (co_timestamp r) (co_timestamp e))"
proof -
  have "List.find (\<lambda>e. co_decision e \<in> set HALT_DECISIONS) (chain_timeline c es) = Some r"
    using assms(2) by (simp add: first_bad_def)
  then obtain i where i: "i < length (chain_timeline c es)" "co_decision (chain_timeline c es ! i) \<in> set HALT_DECISIONS"
    "r = chain_timeline c es ! i" and before: "\<forall>j < i. co_decision (chain_timeline c es ! j) \<notin> set HALT_DECISIONS"
    unfolding find_Some_iff by blast
  have mem: "set (chain_timeline c es) = {e \<in> set es. co_chain_id e = c}"
    by (auto simp: chain_timeline_def)
  have r: "r \<in> set (chain_timeline c es)" using i by simp
  show ?thesis
  proof (intro conjI ballI impI)
    show "r \<in> set es" "co_chain_id r = c" using r mem by blast+
    show "co_decision r \<in> set HALT_DECISIONS" using i by simp
    fix e assume "e \<in> set es" "co_chain_id e = c" and bad: "co_decision e \<in> set HALT_DECISIONS"
    then have "e \<in> set (chain_timeline c es)" using mem by blast
    then obtain j where j: "j < length (chain_timeline c es)" "e = chain_timeline c es ! j"
      by (auto simp: in_set_conv_nth)
    have "\<not> j < i" using before bad j by blast
    then consider "i = j" | "i < j" by linarith
    then show "fle (co_timestamp r) (co_timestamp e)"
    proof cases
      case 1
      then show ?thesis using i j r mem assms(1) by auto
    next
      case 2
      then show ?thesis
        using sorted_wrt_nth_less [OF chain_timeline_sorted [OF assms(1)] 2 j(1)] i(3) j(2) by simp
    qed
  qed
qed

section \<open>\<open>GET /runs/{chain_id}\<close>\<close>

definition ACTIVE_WINDOW_SECONDS :: pyfloat where "ACTIVE_WINDOW_SECONDS = Fin 300"

record run_detail =
  rd_chain_id :: string
  rd_active :: bool
  rd_total_cost :: pyfloat
  rd_total_steps :: nat
  rd_events_count :: nat
  rd_first_event_at :: pyfloat
  rd_last_event_at :: pyfloat
  rd_policy_hash :: "string option"

definition get_run :: "pyfloat \<Rightarrow> cp_outcome list \<Rightarrow> string \<Rightarrow> run_detail result" where
  "get_run now outcomes chain_id =
     (let chain_outcomes = filter (\<lambda>e. co_chain_id e = chain_id) outcomes in
      if chain_outcomes = [] then Inl (HTTPException 404)
      else (let timestamps = filter isfinite (map co_timestamp chain_outcomes) in
            case timestamps of
              [] \<Rightarrow> Inl (HTTPException 404)
            | t # ts \<Rightarrow>
               (let first_at = foldl fmin t ts; last_at = foldl fmax t ts;
                    hash = co_policy_hash (hd (nlargest 1 co_timestamp chain_outcomes)) in
                Inr \<lparr>rd_chain_id = chain_id, rd_active = fle (fsub now last_at) ACTIVE_WINDOW_SECONDS,
                     rd_total_cost = fsum (filter isfinite (map co_cost_usd chain_outcomes)),
                     rd_total_steps = length chain_outcomes, rd_events_count = length chain_outcomes,
                     rd_first_event_at = first_at, rd_last_event_at = last_at,
                     rd_policy_hash = (if hash = [] then None else Some hash)\<rparr>)))"

lemma foldl_fmin:
  assumes "\<forall>x \<in> set xs. isfinite x" "isfinite a"
  shows "isfinite (foldl fmin a xs) \<and> fle (foldl fmin a xs) a \<and> (\<forall>x \<in> set xs. fle (foldl fmin a xs) x) \<and>
    foldl fmin a xs \<in> insert a (set xs)"
  using assms
proof (induction xs arbitrary: a)
  case (Cons x xs)
  have m: "isfinite (fmin a x)" using Cons.prems fmin_in [of a x] by auto
  have le: "fle (fmin a x) a" "fle (fmin a x) x"
    using Cons.prems by (auto intro!: fmin_le1 fmin_le2 isfinite_notNaN)
  have fin: "\<forall>y \<in> set xs. isfinite y" using Cons.prems by simp
  note IH = Cons.IH [OF fin m]
  have "foldl fmin a (x # xs) \<in> insert a (set (x # xs))"
    using IH fmin_in [of a x] by auto
  then show ?case using IH fle_trans [OF _ le(1)] fle_trans [OF _ le(2)] by auto
qed (simp add: isfinite_notNaN)

lemma foldl_fmax:
  assumes "\<forall>x \<in> set xs. isfinite x" "isfinite a"
  shows "isfinite (foldl fmax a xs) \<and> fle a (foldl fmax a xs) \<and> (\<forall>x \<in> set xs. fle x (foldl fmax a xs)) \<and>
    foldl fmax a xs \<in> insert a (set xs)"
  using assms
proof (induction xs arbitrary: a)
  case (Cons x xs)
  have m: "isfinite (fmax a x)" using Cons.prems fmax_in [of a x] by auto
  have le: "fle a (fmax a x)" "fle x (fmax a x)"
    using Cons.prems by (auto intro!: fmax_ge1 fmax_ge2 isfinite_notNaN)
  have fin: "\<forall>y \<in> set xs. isfinite y" using Cons.prems by simp
  note IH = Cons.IH [OF fin m]
  have "foldl fmax a (x # xs) \<in> insert a (set (x # xs))"
    using IH fmax_in [of a x] by auto
  then show ?case using IH fle_trans [OF le(1)] fle_trans [OF le(2)] by auto
qed (simp add: isfinite_notNaN)

lemma get_run_bounds:
  assumes "get_run now es c = Inr d" "e \<in> set es" "co_chain_id e = c" "isfinite (co_timestamp e)"
  shows "fle (rd_first_event_at d) (co_timestamp e) \<and> fle (co_timestamp e) (rd_last_event_at d)"
proof -
  let ?ts = "filter isfinite (map co_timestamp (filter (\<lambda>e. co_chain_id e = c) es))"
  have mem: "co_timestamp e \<in> set ?ts" using assms(2-4) by auto
  then obtain t ts where ts: "?ts = t # ts" by (cases ?ts) auto
  have fin: "\<forall>x \<in> set (t # ts). isfinite x" unfolding ts [symmetric] by auto
  have "co_timestamp e = t \<or> co_timestamp e \<in> set ts" using mem ts by simp
  moreover have "rd_first_event_at d = foldl fmin t ts" "rd_last_event_at d = foldl fmax t ts"
    using assms(1) ts by (auto simp: get_run_def Let_def split: if_splits)
  ultimately show ?thesis using foldl_fmin [of ts t] foldl_fmax [of ts t] fin by auto
qed

section \<open>\<open>GET /health\<close>\<close>

definition KERNEL_MIN_VERSION :: "int list" where "KERNEL_MIN_VERSION = [3, 4, 0]"

fun split_on :: "char \<Rightarrow> string \<Rightarrow> string list" where
  \<comment> \<open>\<open>s.split(c)\<close>\<close>
  "split_on c [] = [[]]"
| "split_on c (x # xs) =
     (if x = c then [] # split_on c xs
      else (case split_on c xs of [] \<Rightarrow> [[x]] | p # ps \<Rightarrow> (x # p) # ps))"

definition version_part :: "string \<Rightarrow> int result" where
  \<comment> \<open>\<open>re.match(r"(\d+)", part)\<close>\<close>
  "version_part part =
     (let ds = takeWhile is_digit part in
      if ds = [] then Inl ValueError else Inr (int (digits_val ds)))"

definition parse_version_tuple :: "string \<Rightarrow> int list result" where
  "parse_version_tuple s =
     rbind (rmap version_part (take 3 (split_on CHR ''.'' s))) (\<lambda>nums.
       Inr (nums @ replicate (3 - length nums) 0))"

datatype compat = CompatOk | Incompatible | CompatUnknown

definition check_kernel_compat :: "string \<Rightarrow> compat" where
  "check_kernel_compat version =
     (if version = ''unknown'' then CompatUnknown
      else (case parse_version_tuple version of
              Inl _ \<Rightarrow> CompatUnknown
            | Inr parts \<Rightarrow>
                if parts < KERNEL_MIN_VERSION then Incompatible
                else if 4 \<le> hd parts then Incompatible
                else CompatOk))"

text \<open>
  What the handlers look up in the installed packages: the version of this one, the kernel's module
  (\<open>None\<close> when it cannot be imported) with its version and circuit breaker, either of which it may lack.
\<close>

record circuit_breaker_state =
  cbs_value :: "string option" \<comment> \<open>\<open>str(state.value)\<close>, when there is a \<open>value\<close>\<close>
  cbs_str :: string

record kernel_module =
  km_version :: "string option"
  km_circuit_breaker :: "circuit_breaker_state option option"

definition get_cp_version :: "string option \<Rightarrow> string" where
  "get_cp_version version = (case version of None \<Rightarrow> ''unknown'' | Some v \<Rightarrow> v)"

definition get_kernel_version :: "kernel_module option \<Rightarrow> string" where
  "get_kernel_version km =
     (case km of
        None \<Rightarrow> ''unknown''
      | Some m \<Rightarrow> (case km_version m of None \<Rightarrow> ''unknown'' | Some v \<Rightarrow> v))"

definition get_circuit_state :: "kernel_module option \<Rightarrow> string option" where
  "get_circuit_state km =
     (case km of
        None \<Rightarrow> None
      | Some m \<Rightarrow>
          (case km_circuit_breaker m of
             None \<Rightarrow> None
           | Some None \<Rightarrow> None
           | Some (Some state) \<Rightarrow>
               (case cbs_value state of Some v \<Rightarrow> Some v | None \<Rightarrow> Some (cbs_str state))))"

fun round2 :: "pyfloat \<Rightarrow> pyfloat" where
  \<comment> \<open>\<open>round(x, 2)\<close>\<close>
  "round2 (Fin q) = rnd (of_int (rhe (q * 100)) / 100)"
| "round2 x = x"

definition count_active_chains :: "pyfloat \<Rightarrow> cp_outcome list option \<Rightarrow> nat" where
  \<comment> \<open>\<open>None\<close>: no ingestor, or the snapshot raised\<close>
  "count_active_chains now snapshot =
     (case snapshot of
        None \<Rightarrow> 0
      | Some es \<Rightarrow> card (set (map co_chain_id
          (filter (\<lambda>e. fle (fsub now (Fin 300)) (co_timestamp e)) es))))"

definition health_ok :: "bool \<Rightarrow> string \<Rightarrow> bool" where
  "health_ok store_ok kernel_version \<longleftrightarrow> store_ok \<and> check_kernel_compat kernel_version = CompatOk"

lemma split_on_nonempty [simp]: "split_on c s \<noteq> []"
  by (induction s) (auto split: list.splits)

lemma parse_version_length: "parse_version_tuple s = Inr v \<Longrightarrow> length v = 3"
  by (auto simp: parse_version_tuple_def rbind_Inr_iff dest!: rmap_length)

lemma version_part_nonneg: "version_part p = Inr n \<Longrightarrow> 0 \<le> n"
  by (auto simp: version_part_def Let_def split: if_splits)

lemma rmap_nonneg: "rmap version_part ps = Inr ns \<Longrightarrow> n \<in> set ns \<Longrightarrow> 0 \<le> n"
  by (induction ps arbitrary: ns) (auto simp: rbind_Inr_iff dest: version_part_nonneg)

lemma check_kernel_compat_ok:
  "check_kernel_compat s = CompatOk \<longleftrightarrow>
     s \<noteq> ''unknown'' \<and> (\<exists>minor patch. parse_version_tuple s = Inr [3, minor, patch] \<and> 4 \<le> minor \<and> 0 \<le> patch)"
proof -
  have "\<exists>a b c. v = [a, b, c] \<and> 0 \<le> a \<and> 0 \<le> b \<and> 0 \<le> c" if v: "parse_version_tuple s = Inr v" for v
  proof -
    obtain a b c where abc: "v = [a, b, c]"
      using parse_version_length [OF v] by (auto simp: numeral_3_eq_3 length_Suc_conv)
    have "\<forall>n \<in> set v. 0 \<le> n"
      using v rmap_nonneg by (fastforce simp: parse_version_tuple_def rbind_Inr_iff)
    then show ?thesis using abc by simp
  qed
  then show ?thesis
    by (fastforce simp: check_kernel_compat_def KERNEL_MIN_VERSION_def split: sum.splits if_splits)
qed

end
