(* ===== verification/Auth.thy ===== *)
theory Auth
  imports Py_Value "HOL-Library.Sublist"
begin

text \<open>
  The API-key middleware (\<open>api/auth.py\<close>): which paths are exempt and what \<open>dispatch\<close> does
  with a request. The environment variables, the header and the path are arguments; the warning
  that is logged once is part of the state.
\<close>

definition EXEMPT_EXACT :: "string list" where
  "EXEMPT_EXACT = [''/health'', ''/docs'', ''/openapi.json'', ''/redoc'']"

definition EXEMPT_PREFIXES :: "string list" where
  "EXEMPT_PREFIXES = [''/docs/'', ''/redoc/'', ''/ui/'']"

definition rstrip_slash :: "string \<Rightarrow> string" where
  "rstrip_slash s = rev (dropWhile (\<lambda>c. c = CHR ''/'') (rev s))"

definition is_exempt :: "string \<Rightarrow> bool" where
  "is_exempt path =
     (let normalized = (if rstrip_slash path = [] then ''/'' else rstrip_slash path) in
      normalized \<in> set EXEMPT_EXACT \<or> list_ex (\<lambda>p. prefix p normalized) EXEMPT_PREFIXES)"

record auth_env =
  ae_api_key :: "string option"
  ae_auth_disabled :: "string option"

definition is_auth_disabled :: "auth_env \<Rightarrow> bool" where
  "is_auth_disabled env \<longleftrightarrow> ae_auth_disabled env = Some ''1''"

datatype auth_response = Forwarded | Rejected nat

text \<open>The flag \<open>_warn_once_done\<close> before and after; the number of warnings logged.\<close>

definition dispatch :: "auth_env \<Rightarrow> string \<Rightarrow> string option \<Rightarrow> bool \<Rightarrow> auth_response \<times> bool \<times> nat" where
  "dispatch env path header warned =
     (if is_exempt path then (Forwarded, warned, 0)
      else (case ae_api_key env of
              None \<Rightarrow>
                if is_auth_disabled env then (Forwarded, True, if warned then 0 else 1)
                else (Rejected 503, warned, 0)
            | Some key \<Rightarrow>
                (let provided = (case header of None \<Rightarrow> [] | Some h \<Rightarrow> h) in
                 if provided = [] \<or> provided \<noteq> key then (Rejected 401, warned, 0)
                 else (Forwarded, warned, 0))))"

lemma dispatch_forwarded_iff:
  "fst (dispatch env path header warned) = Forwarded \<longleftrightarrow>
     is_exempt path \<or>
     (case ae_api_key env of None \<Rightarrow> is_auth_disabled env | Some key \<Rightarrow> key \<noteq> [] \<and> header = Some key)"
  by (cases header; cases "ae_api_key env") (auto simp: dispatch_def Let_def)

text \<open>Trailing slashes do not matter, and the root and the API routes are never exempt.\<close>

lemma rstrip_slash_snoc [simp]: "rstrip_slash (s @ ''/'') = rstrip_slash s"
  by (simp add: rstrip_slash_def)

lemma is_exempt_slash: "is_exempt (path @ ''/'') = is_exempt path"
  by (simp add: is_exempt_def)

lemma rstrip_slash_last: "rstrip_slash s \<noteq> [] \<Longrightarrow> last (rstrip_slash s) \<noteq> CHR ''/''"
  using hd_dropWhile [of "\<lambda>c. c = CHR ''/''" "rev s"] by (simp add: rstrip_slash_def last_rev)

lemma exempt_prefix_strict:
  assumes "p \<in> set EXEMPT_PREFIXES"
  shows "prefix p (rstrip_slash path) \<longleftrightarrow> strict_prefix p (rstrip_slash path)"
proof -
  have "p \<noteq> []" "last p = CHR ''/''" using assms by (auto simp: EXEMPT_PREFIXES_def)
  then have "p \<noteq> rstrip_slash path" using rstrip_slash_last by metis
  then show ?thesis by (simp add: strict_prefix_def)
qed

lemma root_not_exempt: "''/'' \<notin> set EXEMPT_EXACT" "\<not> list_ex (\<lambda>p. prefix p ''/'') EXEMPT_PREFIXES"
  by (simp_all add: EXEMPT_EXACT_def EXEMPT_PREFIXES_def)

lemma empty_not_exempt: "[] \<notin> set EXEMPT_EXACT" "\<not> list_ex (\<lambda>p. prefix p []) EXEMPT_PREFIXES"
  by (simp_all add: EXEMPT_EXACT_def EXEMPT_PREFIXES_def)

lemma is_exempt_iff:
  "is_exempt path \<longleftrightarrow> rstrip_slash path \<in> set EXEMPT_EXACT \<or>
     (\<exists>p \<in> set EXEMPT_PREFIXES. strict_prefix p (rstrip_slash path))"
proof -
  have "is_exempt path \<longleftrightarrow> rstrip_slash path \<in> set EXEMPT_EXACT \<or>
      list_ex (\<lambda>p. prefix p (rstrip_slash path)) EXEMPT_PREFIXES"
    using root_not_exempt empty_not_exempt
    by (cases "rstrip_slash path = []") (simp_all only: is_exempt_def Let_def if_True if_False, simp_all)
  also have "list_ex (\<lambda>p. prefix p (rstrip_slash path)) EXEMPT_PREFIXES \<longleftrightarrow>
      (\<exists>p \<in> set EXEMPT_PREFIXES. strict_prefix p (rstrip_slash path))"
    unfolding list_ex_iff using exempt_prefix_strict by blast
  finally show ?thesis .
qed

text \<open>The warning is logged once over any run of requests.\<close>

definition reset_warn_once :: "bool \<Rightarrow> bool" where "reset_warn_once warned = False"

fun dispatch_all :: "(auth_env \<times> string \<times> string option) list \<Rightarrow> bool \<Rightarrow> nat" where
  "dispatch_all [] warned = 0"
| "dispatch_all ((env, path, header) # rs) warned =
     (let (r, warned', n) = dispatch env path header warned in n + dispatch_all rs warned')"

lemma dispatch_warns: "dispatch env path header warned = (r, w, n) \<Longrightarrow>
    (warned \<longrightarrow> w \<and> n = 0) \<and> (n = 0 \<or> n = 1 \<and> w)"
  by (auto simp: dispatch_def Let_def split: if_splits option.splits)

lemma dispatch_all_warned: "dispatch_all rs True = 0"
proof (induction rs)
  case (Cons x rs)
  obtain env path header where x: "x = (env, path, header)" by (cases x)
  obtain r w n where d: "dispatch env path header True = (r, w, n)" by (metis prod_cases3)
  show ?case using Cons dispatch_warns [OF d] by (simp add: x d)
qed simp

lemma dispatch_all_once: "dispatch_all rs warned \<le> 1"
proof (induction rs arbitrary: warned)
  case (Cons x rs)
  obtain env path header where x: "x = (env, path, header)" by (cases x)
  obtain r w n where d: "dispatch env path header warned = (r, w, n)" by (metis prod_cases3)
  show ?case using Cons [of w] dispatch_warns [OF d] dispatch_all_warned [of rs] by (auto simp: x d)
qed simp

end
