(* ===== verification/Control_Plane_Properties.thy ===== *)
theory Control_Plane_Properties
  imports Policy_Audit Rollouts Tenants Ingest Replay Event_Api Auth Samples
begin

text \<open>
  What the control plane guarantees: distribution and the policy registry, rollouts, tenants,
  event ingestion, simulation, replay and the read-only endpoints. Each property with hypotheses
  is followed by a witness that applies it to a concrete input.
\<close>

section \<open>Distribution\<close>

lemma sample_policy_valid: "valid_policy False sample_policy"
  by (simp add: valid_policy_def sample_policy_def new_policy_config_def ALLOWED_ON_EXCEED_def good_bound_def)

definition sample_distributor :: distributor where [sample_defs]:
  "sample_distributor = \<lparr>ds_strict = False, ds_version = 0, ds_signing_key = Some ''k''\<rparr>"

text \<open>\<open>PolicyDistributor.distribute\<close> succeeds exactly on a valid policy: then the bundle has the
  policy, its hash, the converted kernel configuration with the policy's ceiling, and the next
  version number, which the distributor keeps; otherwise the distributor is unchanged.\<close>

theorem distribute_accepts_exactly_valid:
  "case distribute sha mac now p s of
     (Inl e, s') \<Rightarrow> \<not> valid_policy (ds_strict s) p \<and> s' = s
   | (Inr b, s') \<Rightarrow> valid_policy (ds_strict s) p \<and> pb_policy b = p \<and>
       pb_policy_hash b = compute_policy_hash sha p \<and> to_exec_config p = Inr (pb_exec_config b) \<and>
       ec_max_cost_usd (pb_exec_config b) = pc_ceiling_usd p \<and>
       pb_version b = ds_version s + 1 \<and> s' = s\<lparr>ds_version := ds_version s + 1\<rparr>"
proof (cases "distribute sha mac now p s")
  case (Pair r s')
  show ?thesis
  proof (cases r)
    case (Inl e)
    then show ?thesis
      using Pair distribute_ok_iff [of sha mac now p s] distribute_fail [of sha mac now p s e] by simp
  next
    case (Inr b)
    have "fst (distribute sha mac now p s) = Inr b" using Pair Inr by simp
    from distribute_ok [OF this] this show ?thesis
      using Pair Inr distribute_ok_iff [of sha mac now p s] to_exec_config_cost [of p "pb_exec_config b"] by simp
  qed
qed

text \<open>\<open>distribute_many\<close> returns a bundle for every policy, in order, all of them valid, with
  consecutive version numbers.\<close>

theorem distribute_many_consecutive:
  assumes "fst (distribute_many sha mac now ps s) = Inr bs"
  shows "map pb_policy bs = ps \<and> list_all (valid_policy (ds_strict s)) ps \<and>
    map pb_version bs = map (\<lambda>i. ds_version s + 1 + i) [0..<length ps]"
  using assms by (rule distribute_many_ok)

lemma sample_distribute_many:
  "fst (distribute_many sha mac now [sample_policy] sample_distributor) =
     Inr [projr (fst (distribute sha mac now sample_policy sample_distributor))]"
proof -
  obtain b where "fst (distribute sha mac now sample_policy sample_distributor) = Inr b"
    using distribute_ok_iff [of sha mac now sample_policy sample_distributor] sample_policy_valid
    unfolding is_ok_iff by (auto simp: sample_distributor_def)
  then obtain s' where "distribute sha mac now sample_policy sample_distributor = (Inr b, s')"
    by (cases "distribute sha mac now sample_policy sample_distributor") simp
  then show ?thesis by (simp add: distribute_many_def map_filter_simps)
qed

theorem distribute_many_consecutive_witness:
  "map pb_version [projr (fst (distribute (\<lambda>_. []) (\<lambda>_ _. []) (Fin 0) sample_policy sample_distributor))] = [1]"
  using distribute_many_consecutive [OF sample_distribute_many] by (simp add: sample_distributor_def)

text \<open>A bundle distributed under a signing key verifies under the same key.\<close>

theorem signature_verifies:
  assumes "fst (distribute sha mac now p s) = Inr b" "ds_signing_key s = Some key"
  shows "verify_signature mac b key = Inr True"
  using assms by (rule distribute_signed)

lemma sample_distribute_ok:
  "\<exists>b. fst (distribute sha mac now sample_policy sample_distributor) = Inr b"
  using distribute_ok_iff [of sha mac now sample_policy sample_distributor] sample_policy_valid
  unfolding is_ok_iff by (simp add: sample_distributor_def)

theorem signature_verifies_witness:
  "\<exists>b. fst (distribute (\<lambda>_. ''h'') (\<lambda>k m. k @ m) (Fin 0) sample_policy sample_distributor) = Inr b \<and>
     verify_signature (\<lambda>k m. k @ m) b ''k'' = Inr True"
proof -
  obtain b where b: "fst (distribute (\<lambda>_. ''h'') (\<lambda>k m. k @ m) (Fin 0) sample_policy sample_distributor) = Inr b"
    using sample_distribute_ok by blast
  moreover have "ds_signing_key sample_distributor = Some ''k''" by (simp add: sample_distributor_def)
  ultimately show ?thesis using signature_verifies [OF b] by blast
qed

text \<open>C20: the canonical form that is hashed identifies a policy: two policies have the same form exactly
  when each of their fields agrees up to the order of the entries of dictionaries at any depth, so
  that equal hashes of other policies are collisions of SHA-256, and the hash is stable.\<close>

theorem canonical_form_identifies_policies:
  assumes "list_all distinct_keys (policy_fields p)" "list_all distinct_keys (policy_fields q)"
  shows "canonical_fields str_of (policy_object p) = canonical_fields str_of (policy_object q) \<longleftrightarrow>
    map shape_of (policy_fields p) = map shape_of (policy_fields q)"
  using canonical_same_shapes [OF assms] by (simp only: canonical_object_iff)

definition flagged_policy :: "(string \<times> pyval) list \<Rightarrow> policy_config" where
  "flagged_policy kvs = sample_policy\<lparr>pc_planner_version := VDict kvs\<rparr>"

theorem canonical_form_identifies_policies_witness:
  "canonical_fields (\<lambda>_. []) (policy_object (flagged_policy [(''a'', VInt 1), (''b'', VInt 2)])) =
   canonical_fields (\<lambda>_. []) (policy_object (flagged_policy [(''b'', VInt 2), (''a'', VInt 1)]))"
  (is "canonical_fields _ (policy_object ?p) = canonical_fields _ (policy_object ?q)")
proof (rule canonical_form_identifies_policies [THEN iffD2])
  show "list_all distinct_keys (policy_fields ?p)" "list_all distinct_keys (policy_fields ?q)"
    by (simp_all add: policy_fields_def flagged_policy_def sample_policy_def new_policy_config_def)
  show "map shape_of (policy_fields ?p) = map shape_of (policy_fields ?q)"
    by (simp add: policy_fields_def flagged_policy_def fmupd_reorder_neq)
qed

section \<open>The policy registry\<close>

lemma registry_distribute_valid:
  assumes "valid_policy (ds_strict (rg_distributor s)) p"
  obtains b s' where "registry_distribute hs now p s = (Inr b, s')"
proof -
  have "is_ok (fst (registry_distribute hs now p s))"
    using assms distribute_ok_iff [of "fst hs" "snd hs" now p "rg_distributor s"]
    by (simp add: registry_distribute_def split_beta)
  then show ?thesis using that unfolding is_ok_iff by (metis prod.collapse)
qed

definition sample_hasher :: hasher where [sample_defs]:
  "sample_hasher = (\<lambda>_. [], \<lambda>_ _. [])"

definition sample_registry :: "hasher \<Rightarrow> registry" where
  "sample_registry hs = snd (register hs (Fin 0) sample_policy (new_registry sample_distributor))"

lemma new_registry_inv: "registry_inv (new_registry d)"
  by (simp add: registry_inv_def new_registry_def)

lemma sample_registry:
  obtains b where "fst (register hs (Fin 0) sample_policy (new_registry sample_distributor)) = Inr b"
    "registry_inv (sample_registry hs)" "get_policy (sample_registry hs) ''c1'' = Some b"
    "pb_policy b = sample_policy" "pb_version b = 1" "ds_strict (rg_distributor (sample_registry hs)) = False"
proof -
  obtain b s' where d: "registry_distribute hs (Fin 0) sample_policy (new_registry sample_distributor) = (Inr b, s')"
    by (rule registry_distribute_valid [of "new_registry sample_distributor" sample_policy])
      (simp add: new_registry_def sample_distributor_def sample_policy_valid)
  then have r: "fst (register hs (Fin 0) sample_policy (new_registry sample_distributor)) = Inr b"
    by (simp add: register_def)
  have "ds_strict (rg_distributor (sample_registry hs)) = False"
    using d registry_distribute_ok(5) [OF d]
    by (simp add: sample_registry_def register_def store_bundle_def new_registry_def sample_distributor_def)
  with that [OF r] register_inv [OF new_registry_inv] register_get [OF r] show ?thesis
    by (simp add: sample_registry_def sample_policy_def new_policy_config_def new_registry_def
        sample_distributor_def)
qed

lemma empty_update_version [simp]: "pu_current_version (empty_update v) = v"
  by (simp add: empty_update_def)

lemma updated_sample_valid: "valid_policy False (apply_update now (empty_update v) sample_policy)"
  by (simp add: apply_update_empty valid_policy_def sample_policy_def new_policy_config_def
      ALLOWED_ON_EXCEED_def good_bound_def)

text \<open>C17: however the sections of concurrent registrations and updates interleave, an update that
  stores its bundle replaces the very bundle it was computed from: no update is lost between the
  version check and the write.\<close>

theorem registry_updates_not_lost:
  assumes "reg_reach hs d (s, ps, seen)" "To_put (Some old) b \<in> set ps"
    and "fst (update_commit (pc_chain_id (pb_policy b)) (int (pb_version old)) b s) = Inr b'"
  shows "get_policy s (pc_chain_id (pb_policy b)) = Some old"
  using assms by (rule no_lost_update)

theorem registry_updates_not_lost_witness:
  "\<exists>s old b. reg_reach sample_hasher sample_distributor (s, [To_put (Some old) b], [b, old]) \<and>
     get_policy s (pc_chain_id (pb_policy b)) = Some old"
proof -
  let ?s0 = "new_registry sample_distributor"
  obtain old s1 where d1: "registry_distribute sample_hasher (Fin 0) sample_policy ?s0 = (Inr old, s1)"
    by (rule registry_distribute_valid [of ?s0 sample_policy])
      (simp add: new_registry_def sample_distributor_def sample_policy_valid)
  note o1 = registry_distribute_ok [OF d1]
  have v1: "pb_version old = 1" and c1: "pc_chain_id (pb_policy old) = ''c1''"
    using o1 by (simp_all add: new_registry_def sample_distributor_def sample_policy_def new_policy_config_def)
  let ?s2 = "store_bundle ''c1'' old s1" and ?p = "apply_update (Fin 0) (empty_update 1) sample_policy"
  obtain b s3 where d2: "registry_distribute sample_hasher (Fin 0) ?p ?s2 = (Inr b, s3)"
    by (rule registry_distribute_valid [of ?s2 ?p])
      (simp add: store_bundle_def o1(5) new_registry_def sample_distributor_def updated_sample_valid)
  note o2 = registry_distribute_ok [OF d2]
  have c2: "pc_chain_id (pb_policy b) = ''c1''"
    using o2(1) by (simp add: sample_policy_def new_policy_config_def)
  have st: "dget (rg_store ?s2) ''c1'' = Some old" "rg_store s3 = rg_store ?s2"
    using o2(5) by (simp_all add: store_bundle_def)
  have "reg_reach sample_hasher sample_distributor (?s0, [To_distribute None sample_policy], [])"
    by (rule reg_reach.reg_next [OF reg_reach.reg_init start_register])
  then have "reg_reach sample_hasher sample_distributor (s1, [To_put None old], [old])"
    using reg_reach.reg_next [OF _ bundle_distributed [OF _ d1, of None "[To_distribute None sample_policy]" "[]"]]
    by simp
  then have "reg_reach sample_hasher sample_distributor (?s2, [], [old])"
    using reg_reach.reg_next [OF _ put_register [of old "[To_put None old]" sample_hasher s1 "[old]"]] c1 by simp
  moreover have "update_check (Fin 0) ''c1'' (empty_update 1) ?s2 = Inr (old, ?p)"
    using st(1) v1 o1(1) by (simp add: update_check_def)
  ultimately have "reg_reach sample_hasher sample_distributor (?s2, [To_distribute (Some old) ?p], [old])"
    using reg_reach.reg_next [OF _ start_update] by blast
  then have r: "reg_reach sample_hasher sample_distributor (s3, [To_put (Some old) b], [b, old])"
    using reg_reach.reg_next [OF _ bundle_distributed [OF _ d2, of "Some old" "[To_distribute (Some old) ?p]" "[old]"]]
    by simp
  have "fst (update_commit (pc_chain_id (pb_policy b)) (int (pb_version old)) b s3) = Inr b"
    using st by (simp add: update_commit_def c2)
  from registry_updates_not_lost [OF r _ this] r show ?thesis by auto
qed

text \<open>A successful update applied to the stored policy of the version the client read, is what
  the next read returns, and has a larger version number.\<close>

theorem registry_update_takes_effect:
  assumes "registry_inv s" "fst (registry_update hs now c u s) = Inr b"
  shows "\<exists>old. get_policy s c = Some old \<and> int (pb_version old) = pu_current_version u \<and>
     get_policy (snd (registry_update hs now c u s)) c = Some b \<and>
     pb_policy b = apply_update now u (pb_policy old) \<and> pb_version old < pb_version b"
  using assms by (rule registry_update_version)

theorem registry_update_takes_effect_witness:
  "\<exists>b. get_policy (snd (registry_update sample_hasher (Fin 1) ''c1'' (empty_update 1) (sample_registry sample_hasher))) ''c1'' = Some b \<and>
     pb_policy b = sample_policy\<lparr>pc_issued_at := VFloat (Fin 1)\<rparr> \<and> 1 < pb_version b"
proof -
  obtain old where old: "registry_inv (sample_registry sample_hasher)" "get_policy (sample_registry sample_hasher) ''c1'' = Some old"
    "pb_policy old = sample_policy" "pb_version old = 1" "ds_strict (rg_distributor (sample_registry sample_hasher)) = False"
    by (rule sample_registry [of sample_hasher])
  let ?p = "apply_update (Fin 1) (empty_update 1) sample_policy"
  obtain b s' where d: "registry_distribute sample_hasher (Fin 1) ?p (sample_registry sample_hasher) = (Inr b, s')"
    by (rule registry_distribute_valid [of "sample_registry sample_hasher" ?p]) (simp add: old(5) updated_sample_valid)
  have chk: "update_check (Fin 1) ''c1'' (empty_update 1) (sample_registry sample_hasher) = Inr (old, ?p)"
    using old by (simp add: update_check_def get_policy_def)
  have st: "rg_store s' = rg_store (sample_registry sample_hasher)"
    using registry_distribute_ok(5) [OF d] by simp
  have u: "fst (registry_update sample_hasher (Fin 1) ''c1'' (empty_update 1) (sample_registry sample_hasher)) = Inr b"
    using old by (simp add: registry_update_def chk d update_commit_def st get_policy_def)
  show ?thesis
    using registry_update_takes_effect [OF old(1) u] old(2,3,4)
    by (auto simp: apply_update_empty)
qed

text \<open>Reading the pages of \<open>list_policies\<close> in turn yields the stored bundles, each once and in
  order, as far as the pages reach, and every page reports the true number of bundles.\<close>

theorem policy_pages_partition:
  "concat (map (\<lambda>page. fst (list_policies s page n)) [1..<Suc k]) = take (k * n) (dvalues (rg_store s)) \<and>
   snd (list_policies s page n) = length (rg_store s)"
  using pages_upto_take [of k n "dvalues (rg_store s)"]
  by (simp add: list_policies_def Let_def pages_upto_def dvalues_def)

section \<open>Rollouts\<close>

text \<open>C7: in every reachable rollout registry the history of a rollout is a chain of allowed
  transitions from \<open>DRAFT\<close> to its state, of at most 1000 entries, and it contains, in order, every
  stage the state requires: an active rollout was simulated, approved and promoted.\<close>

theorem rollout_history_is_valid:
  assumes "rollout_reach s" "dget s i = Some r"
  shows "valid_path Draft (ro_history r) (ro_state r) \<and> length (ro_history r) \<le> 1000 \<and>
    subseq (required_path (ro_state r)) (edges (ro_history r))"
  using reach_ok [OF assms] valid_path_required [of "ro_history r" "ro_state r"]
  by (simp add: rollout_ok_def MAX_HISTORY_LENGTH_def)

definition draft_rollouts :: rollouts where [sample_defs]:
  "draft_rollouts = snd (rollout_create ''u'' 0 sample_policy ''me'' [])"

definition active_rollouts :: rollouts where [sample_defs]:
  "active_rollouts = snd (rollout_transition ''u'' Active ''me'' 4
     (snd (rollout_transition ''u'' Promoted ''me'' 3
     (snd (rollout_transition ''u'' Approved ''me'' 2
     (snd (rollout_simulate (\<lambda>_. Some 0) ''u'' [] ''me'' 1 draft_rollouts)))))))"

lemma draft_rollouts_reach: "rollout_reach draft_rollouts"
  unfolding draft_rollouts_def by (rule rollout_reach.reach_next [OF reach_empty step_create]) simp

lemma active_rollouts_reach: "rollout_reach active_rollouts"
  unfolding active_rollouts_def
  by (rule rollout_reach.reach_next [OF _ step_transition])+
    (rule rollout_reach.reach_next [OF draft_rollouts_reach step_simulate])

lemma draft_rollouts_get: "dget draft_rollouts ''u'' = Some (new_rollout ''u'' 0 sample_policy ''me'')"
  by (simp add: draft_rollouts_def rollout_create_def Let_def new_rollout_def)

lemma active_rollouts_get:
  "\<exists>r. dget active_rollouts ''u'' = Some r \<and> ro_state r = Active"
  by (simp add: active_rollouts_def rollout_transition_def rollout_simulate_def draft_rollouts_get
      new_rollout_def check_sim_result_def record_transition_def Let_def MAX_HISTORY_LENGTH_def)

theorem rollout_history_is_valid_witness:
  "\<exists>r. dget active_rollouts ''u'' = Some r \<and>
     subseq [(Draft, Simulated), (Simulated, Approved), (Approved, Promoted), (Promoted, Active)]
       (edges (ro_history r))"
proof -
  obtain r where r: "dget active_rollouts ''u'' = Some r" "ro_state r = Active"
    using active_rollouts_get by blast
  from rollout_history_is_valid [OF active_rollouts_reach r(1)] r show ?thesis by simp
qed

text \<open>C8: \<open>REVOKED\<close> is final: no sequence of operations changes a revoked rollout in any field.\<close>

theorem revoked_is_final:
  assumes "rollout_step\<^sup>*\<^sup>* s s'" "dget s i = Some r" "ro_state r = Revoked"
  shows "dget s' i = Some r"
  using assms(1)
proof induction
  case base
  show ?case by (rule assms(2))
next
  case (step t t')
  have "rollout_evolves (dget t i) (dget t' i)" by (rule step_evolves [OF step.hyps(2)])
  then show ?case using evolves_revoked [of r "dget t' i"] step.IH assms(3) by simp
qed

theorem revoked_is_final_witness:
  "let s = snd (rollout_transition ''u'' Revoked ''me'' 1 draft_rollouts) in
   dget (snd (rollout_transition ''u'' Approved ''me'' 2 s)) ''u'' = dget s ''u''"
proof -
  let ?s = "snd (rollout_transition ''u'' Revoked ''me'' 1 draft_rollouts)"
  obtain r where r: "dget ?s ''u'' = Some r" "ro_state r = Revoked"
    by (simp add: rollout_transition_def draft_rollouts_get new_rollout_def record_transition_def Let_def
        MAX_HISTORY_LENGTH_def)
  have "rollout_step\<^sup>*\<^sup>* ?s (snd (rollout_transition ''u'' Approved ''me'' 2 ?s))"
    by (rule r_into_rtranclp) (rule step_transition)
  from revoked_is_final [OF this r] r(1) show ?thesis by (simp add: Let_def)
qed

text \<open>Over the HTTP endpoints no rollout passes the simulation stage without a stored simulation
  result.\<close>

theorem rollouts_carry_simulation_result:
  assumes "app_reach hs d app" "dget (ca_rollouts app) i = Some r"
    and "ro_state r \<in> {Simulated, Approved, Promoted, Active}"
  shows "\<exists>res. ro_simulation_result r = Some res"
  using app_reach_simulated [OF assms(1,2)] assms(3) by (auto simp: simulated_ok_def)

definition draft_app :: control_app where [sample_defs]:
  "draft_app = snd (create_rollout ''u'' 0 (Fin 0)
     [(''chain_id'', VStr ''c1''), (''ceiling_usd'', VFloat (Fin 2)), (''on_exceed'', VStr ''halt'')] ''me''
     \<lparr>ca_rollouts = [], ca_registry = new_registry sample_distributor\<rparr>)"

lemma draft_app_reach: "app_reach hs sample_distributor draft_app"
  unfolding draft_app_def by (rule app_reach.app_next [OF app_reach.app_init app_create]) simp

lemma draft_build:
  "build_policy (Fin 0) [(''chain_id'', VStr ''c1''), (''ceiling_usd'', VFloat (Fin 2)), (''on_exceed'', VStr ''halt'')]
     = Inr sample_policy"
  by (simp add: build_policy_def REQUIRED_POLICY_FIELDS_def BOOL_GUARDED_def get_none_def check_on_exceed_def
      ALLOWED_ON_EXCEED_def check_ceiling_def require_def val_lt_def optional_timestamp_def check_chain_id_def
      or_unprocessable_def new_policy_config_def sample_policy_def)

lemma draft_app_sel:
  "dget (ca_rollouts draft_app) ''u'' = Some (new_rollout ''u'' 0 sample_policy ''me'')"
  "ca_registry draft_app = new_registry sample_distributor"
  by (simp_all add: draft_app_def create_rollout_def draft_build rollout_create_def Let_def new_rollout_def)

theorem rollouts_carry_simulation_result_witness:
  "\<exists>r res. dget (ca_rollouts (snd (simulate_rollout sample_hasher (\<lambda>_. Some 0) (Fin 0) 1 ''u'' draft_app))) ''u''
     = Some r \<and> ro_state r = Simulated \<and> ro_simulation_result r = Some res"
proof -
  let ?app = "snd (simulate_rollout sample_hasher (\<lambda>_. Some 0) (Fin 0) 1 ''u'' draft_app)"
  obtain b s' where d: "registry_distribute sample_hasher (Fin 0) sample_policy (new_registry sample_distributor) = (Inr b, s')"
    by (rule registry_distribute_valid [of "new_registry sample_distributor" sample_policy])
      (simp add: new_registry_def sample_distributor_def sample_policy_valid)
  have reach: "app_reach sample_hasher sample_distributor ?app"
    by (rule app_reach.app_next [OF draft_app_reach app_simulate])
  obtain r where r: "dget (ca_rollouts ?app) ''u'' = Some r" "ro_state r = Simulated"
    by (simp add: simulate_rollout_def get_rollout_or_404_def rollout_get_def draft_app_sel new_rollout_def d
        rollout_simulate_def check_sim_result_def record_transition_def Let_def MAX_HISTORY_LENGTH_def)
  from rollouts_carry_simulation_result [OF reach r(1)] r show ?thesis by auto
qed

text \<open>C9: \<open>POST /rollouts/{id}/activate\<close> registers the policy before it checks the state: on a rollout
  that was never promoted it answers 409, the rollout is unchanged, and yet the policy is the one
  the registry serves from then on.\<close>

theorem activate_registers_before_check:
  assumes "dget (ca_rollouts app) i = Some r" "ro_state r \<noteq> Promoted"
    and "valid_policy (ds_strict (rg_distributor (ca_registry app))) (ro_policy_config r)"
  shows "\<exists>app' b. activate_rollout hs now_s now i actor app = (Inl (HTTPException 409), app') \<and>
     get_policy (ca_registry app') (pc_chain_id (ro_policy_config r)) = Some b \<and>
     pb_policy b = ro_policy_config r \<and> ca_rollouts app' = ca_rollouts app"
  using assms by (rule activate_registers_unapproved)

theorem activate_registers_before_check_witness:
  "\<exists>app' b. activate_rollout sample_hasher (Fin 0) 1 ''u'' ''me'' draft_app = (Inl (HTTPException 409), app') \<and>
     get_policy (ca_registry app') ''c1'' = Some b \<and> pb_policy b = sample_policy"
proof -
  have "valid_policy (ds_strict (rg_distributor (ca_registry draft_app)))
      (ro_policy_config (new_rollout ''u'' 0 sample_policy ''me''))"
    by (simp add: draft_app_sel new_registry_def sample_distributor_def new_rollout_def sample_policy_valid)
  from activate_registers_before_check [OF draft_app_sel(1) _ this, of sample_hasher "Fin 0" 1 "''me''"]
  show ?thesis by (auto simp: new_rollout_def sample_policy_def new_policy_config_def)
qed

section \<open>Tenants\<close>

text \<open>C18: in every reachable tenant registry the ancestors of a tenant are found (never the depth
  error), are registered tenants, distinct from it and from each other, at most 100, ordered from
  the root, and are the chain of its parent links.\<close>

theorem tenant_ancestors_form_chain:
  assumes "tenant_reach ts" "dget ts i = Some n"
  shows "\<exists>ns xs. get_ancestors ts i = Inr ns \<and> ancestry ts i xs \<and> map tn_id ns = rev xs \<and>
     length ns \<le> MAX_DEPTH \<and> distinct (i # map tn_id ns) \<and> (\<forall>m \<in> set ns. dget ts (tn_id m) = Some m)"
  using forest_get_ancestors [OF reach_forest [OF assms(1)] assms(2)] .

definition root_tenant :: tenant_node where [sample_defs]:
  "root_tenant = \<lparr>tn_id = ''org'', tn_name = ''Org'', tn_parent_id = None,
     tn_policy_overrides = [(''ceiling_usd'', VInt 5), (''priority'', VInt 7)], tn_created_at = Fin 0\<rparr>"

definition leaf_tenant :: tenant_node where [sample_defs]:
  "leaf_tenant = \<lparr>tn_id = ''team'', tn_name = ''Team'', tn_parent_id = Some ''org'',
     tn_policy_overrides = [(''ceiling_usd'', VInt 9)], tn_created_at = Fin 0\<rparr>"

definition sample_tenants :: tenants where [sample_defs]:
  "sample_tenants = snd (tenant_register leaf_tenant (snd (tenant_register root_tenant [])))"

lemma sample_tenants_eq: "sample_tenants = [(''org'', root_tenant), (''team'', leaf_tenant)]"
  by (simp add: sample_tenants_def tenant_register_def root_tenant_def leaf_tenant_def MAX_DEPTH_def
      numeral_eq_Suc)

lemma sample_tenants_reach: "tenant_reach sample_tenants"
  unfolding sample_tenants_def
  by (rule tenant_reach.tr_next [OF tenant_reach.tr_next [OF tr_empty ts_register] ts_register])

theorem tenant_ancestors_form_chain_witness:
  "\<exists>ns. get_ancestors sample_tenants ''team'' = Inr ns \<and> length ns \<le> MAX_DEPTH \<and>
     distinct (''team'' # map tn_id ns)"
proof -
  have "dget sample_tenants ''team'' = Some leaf_tenant" by (simp add: sample_tenants_eq)
  from tenant_ancestors_form_chain [OF sample_tenants_reach this] show ?thesis by blast
qed

text \<open>C19: the effective policy of a tenant takes every field from the tenant's own overrides, else
  from the nearest ancestor that overrides it, else from the base policy: a child's value
  replaces its parent's, whether it is narrower or wider.\<close>

theorem tenant_override_precedence:
  assumes "forest ts" "\<And>j n. dget ts j = Some n \<Longrightarrow> wf_dict (tn_policy_overrides n)"
    and "dget ts i = Some t" "resolve ts i base = Inr q" "key \<in> set OVERRIDABLE"
  shows "\<exists>ns. get_ancestors ts i = Inr ns \<and>
     dget (policy_dict q) key =
       (case dget (tn_policy_overrides t) key of
          Some v \<Rightarrow> Some v
        | None \<Rightarrow> (case nearest_override ns key of Some v \<Rightarrow> Some v | None \<Rightarrow> dget (policy_dict base) key))"
  using assms by (rule resolve_field)

lemma sample_resolve:
  "resolve sample_tenants ''team'' sample_policy =
     Inr (sample_policy\<lparr>pc_ceiling_usd := VInt 9, pc_priority := VInt 7\<rparr>)"
proof -
  have "get_ancestors sample_tenants ''team'' = Inr [root_tenant]"
    by (simp add: get_ancestors_def sample_tenants_eq leaf_tenant_def root_tenant_def MAX_DEPTH_def
        numeral_eq_Suc)
  then show ?thesis
    by (simp add: resolve_def tenant_get_def sample_tenants_eq)
      (simp add: root_tenant_def leaf_tenant_def POLICY_FIELDS_def validate_override_value_def
        finite_nonneg_def value_error_unless_def plain_number_def plain_int_def val_lt_def val_gt_def
        apply_overrides_def set_policy_field_def sample_policy_def new_policy_config_def float_of_int_def)
qed

theorem tenant_override_precedence_witness:
  "dget (policy_dict (sample_policy\<lparr>pc_ceiling_usd := VInt 9, pc_priority := VInt 7\<rparr>)) ''ceiling_usd'' = Some (VInt 9)"
proof -
  have "wf_dict (tn_policy_overrides n)" if "dget sample_tenants j = Some n" for j n
    using that by (auto simp: sample_tenants_eq root_tenant_def leaf_tenant_def wf_dict_def split: if_splits)
  moreover have "dget sample_tenants ''team'' = Some leaf_tenant" by (simp add: sample_tenants_eq)
  moreover have "''ceiling_usd'' \<in> set OVERRIDABLE" by (simp add: OVERRIDABLE_def)
  moreover have "forest sample_tenants" by (rule reach_forest [OF sample_tenants_reach])
  ultimately obtain ns where "dget (policy_dict (sample_policy\<lparr>pc_ceiling_usd := VInt 9, pc_priority := VInt 7\<rparr>)) ''ceiling_usd'' =
      (case dget (tn_policy_overrides leaf_tenant) ''ceiling_usd'' of
          Some v \<Rightarrow> Some v
        | None \<Rightarrow> (case nearest_override ns ''ceiling_usd'' of Some v \<Rightarrow> Some v
            | None \<Rightarrow> dget (policy_dict sample_policy) ''ceiling_usd''))"
    using tenant_override_precedence [OF _ _ _ sample_resolve, of leaf_tenant "''ceiling_usd''"] by metis
  then show ?thesis by (simp add: leaf_tenant_def)
qed

section \<open>Events and ingestion\<close>

text \<open>C21: parsing the dictionary of a valid \<open>StepOutcome\<close> gives the outcome back, and whatever
  dictionary is accepted gives a valid outcome: a known decision, finite numbers, and a token
  count that is not negative.\<close>

theorem outcome_dict_roundtrip:
  assumes "valid_outcome x" "outcome_from_dict rp now d = Inr y"
  shows "outcome_from_dict rp now (outcome_to_dict x) = Inr x \<and> valid_outcome y"
  using outcome_roundtrip [OF assms(1)] outcome_from_dict_valid [OF assms(2)] by blast

definition sample_event :: cp_outcome where [sample_defs]:
  "sample_event = \<lparr>co_step_id = ''s1'', co_chain_id = ''c1'', co_operation_name = ''op'',
     co_decision = ''allow'', co_cost_usd = Fin 1, co_tokens = 5, co_duration_ms = Fin 2,
     co_policy_hash = ''h'', co_audit_id = ''a'', co_timestamp = Fin 10, co_schema_version = ''1.0'',
     co_reason_code = None\<rparr>"

lemma sample_event_valid: "valid_outcome sample_event"
  by (simp add: valid_outcome_def sample_event_def VALID_DECISIONS_def)

theorem outcome_dict_roundtrip_witness:
  "outcome_from_dict (\<lambda>_. []) (Fin 0) (outcome_to_dict sample_event) = Inr sample_event"
  using outcome_dict_roundtrip [OF sample_event_valid outcome_roundtrip [OF sample_event_valid]] by blast


definition kernel_event :: safety_event where [sample_defs]:
  "kernel_event = \<lparr>se_event_type = ''budget'', se_decision = ''BLOCK'', se_reason = None, se_hook = ''pre'',
     se_request_id = Some ''r1'', se_ts = None, se_metadata = [(''cost_usd'', VFloat NaN)]\<rparr>"

definition sample_converter :: converter where [sample_defs]:
  "sample_converter = \<lparr>cv_repr = (\<lambda>_. []), cv_sha = (\<lambda>s. s), cv_now = Fin 3, cv_step_uuid = ''u1'',
     cv_audit_uuid = ''u2''\<rparr>"


text \<open>C15: under any interleaving of conversions, enqueues, batches taken by \<open>flush\<close> and writes with
  their retries, each outcome the ingestor counted is exactly one of: handed to a write that returned
  it as persisted, of a batch given up, still in the batch, or in a batch being written; the store
  holds the newest of what it had and of what was returned as persisted, in order, up to its
  capacity; the dead-letter buffer holds the first 1000 outcomes given up, in order; and the error
  count is the events that did not convert plus the outcomes given up.\<close>

theorem ingestor_conserves_events:
  assumes "ingest_reach s0 c" "fresh_ingestor s0"
  shows "ingested_total (ic_state c) = length (ic_enqueued c) \<and>
    mset (ic_enqueued c) = mset (ic_stored c) + mset (ic_failed c) + mset (ig_batch (ic_state c)) +
      mset (concat (ic_pending c)) \<and>
    cp_snapshot (ingestor_store (ic_state c)) =
      take_last (cps_max (ig_store s0)) (cp_snapshot (ingestor_store s0) @ ic_stored c) \<and>
    ig_dead_letter (ic_state c) = take 1000 (ic_failed c) \<and>
    error_total (ic_state c) = ic_unconverted c + length (ic_failed c)"
  using ingest_reach_inv [OF assms]
  by (simp add: ingest_inv_def Let_def DEAD_LETTER_MAX_def ingested_total_def error_total_def)

definition sample_ingestor :: ingestor where [sample_defs]:
  "sample_ingestor = new_ingestor (new_cp_store 10) 0 None"

lemma sample_ingestor_fresh: "fresh_ingestor sample_ingestor"
  by (simp add: fresh_ingestor_def sample_ingestor_def new_ingestor_def new_cp_store_def)

theorem ingestor_conserves_events_witness:
  "\<exists>x. convert_event sample_converter None kernel_event = Inr x \<and>
     cps_records (ig_store (ingest sample_converter (\<lambda>_. False) kernel_event sample_ingestor)) = [x]"
proof -
  obtain x where x: "convert_event sample_converter None kernel_event = Inr x"
    by (simp add: convert_event_def kernel_event_def sample_converter_def Let_def or_zero_def)
  let ?c0 = "ingest_init sample_ingestor"
  let ?s = "sample_ingestor\<lparr>ig_ingested_total := 1\<rparr>"
  let ?c1 = "?c0\<lparr>ic_state := ?s, ic_enqueued := [x], ic_pending := [[x]]\<rparr>"
  let ?c2 = "?c1\<lparr>ic_state := batch_stored [x] ?s, ic_pending := [], ic_stored := [x]\<rparr>"
  have op: "ig_operation_name (ic_state ?c0) = None" "ic_state ?c0 = sample_ingestor"
    by (simp_all add: ingest_init_def sample_ingestor_def new_ingestor_def)
  have enq: "enqueue x sample_ingestor = (Some [x], ?s)"
    by (simp add: enqueue_def sample_ingestor_def new_ingestor_def)
  have w: "write_batch (\<lambda>_. False) [x] ?s = (1, batch_stored [x] ?s)" by (simp add: write_batch_ok)
  have "ingest_step ?c0 ?c1"
    using is_enqueue [of sample_converter ?c0 kernel_event x "Some [x]" ?s] x enq op by (simp add: ingest_init_def)
  then have r1: "ingest_reach sample_ingestor ?c1"
    by (rule ingest_reach.ir_step [OF ingest_reach.ir_init])
  have "ingest_step ?c1 ?c2"
    using is_write [of ?c1 "[]" "[x]" "[]" "\<lambda>_. False" 1 "batch_stored [x] ?s"] w by (simp add: ingest_init_def)
  then have r2: "ingest_reach sample_ingestor ?c2" by (rule ingest_reach.ir_step [OF r1])
  have "ingest sample_converter (\<lambda>_. False) kernel_event sample_ingestor = batch_stored [x] ?s"
    using x enq w op by (simp add: ingest_def sample_ingestor_def new_ingestor_def)
  moreover have "cps_records (ig_store (batch_stored [x] ?s)) = [x]"
    using ingestor_conserves_events [OF r2 sample_ingestor_fresh]
    by (simp add: ingest_init_def sample_ingestor_def new_ingestor_def new_cp_store_def take_last_def)
  ultimately show ?thesis using x by auto
qed

section \<open>Simulation\<close>

text \<open>C16: a simulation that returns accounts for every step of the scenario as allowed or halted; the
  total cost is the sum, in order, of the costs of the allowed steps, which are a prefix; it stays
  within the policy's cost ceiling and the number of allowed steps within its step ceiling; and
  the final decision is \<open>allow\<close> exactly when no step was halted.\<close>

theorem simulation_respects_policy:
  assumes "simulate sha issued now strict body steps = Inr r"
  shows "\<exists>p. build_policy issued body = Inr p \<and> valid_policy strict p \<and>
    sp_steps_allowed r + sp_steps_halted r = length steps \<and>
    sp_total_cost_usd r = foldl fadd (Fin 0) (map st_cost_usd (take (sp_steps_allowed r) steps)) \<and>
    below (pc_ceiling_usd p) (sp_total_cost_usd r) \<and>
    (0 < sp_steps_allowed r \<longrightarrow> below (pc_ceiling_steps p) (Fin (of_nat (sp_steps_allowed r)))) \<and>
    (sp_final_decision r = ''allow'' \<longleftrightarrow> sp_steps_halted r = 0)"
proof -
  obtain p s where p: "build_policy issued body = Inr p" "valid_policy strict p" "evaluable p"
    "sim_loop now p steps 0 sim_init = Inr s"
    and r: "sp_steps_allowed r = ss_allowed s" "sp_steps_halted r = ss_halted s"
      "sp_total_cost_usd r = ss_cost s" "sp_final_decision r = ss_decision s"
    using simulate_ok [OF assms] by blast
  have init: "ss_decision sim_init = ''allow''" "ss_allowed sim_init = 0" "ss_halted sim_init = 0"
    "ss_cost sim_init = Fin 0" "ss_tokens_out sim_init = 0"
    by (simp_all add: sim_init_def)
  obtain q where q: "exact (pc_ceiling_usd p) = Some (Fin q)" "0 \<le> q"
    using p(2) by (auto simp: valid_policy_def good_ceiling_def)
  then have "below (pc_ceiling_usd p) (Fin 0)" by (auto simp: below_def)
  moreover have "below (pc_ceiling_tokens_out p) (Fin 0)"
    using p(2) by (auto simp: below_def valid_policy_def good_ceiling_def)
  ultimately have w: "below (pc_ceiling_usd p) (ss_cost s) \<and>
      (0 < ss_allowed s \<longrightarrow> below (pc_ceiling_steps p) (Fin (of_nat (ss_allowed s))))"
    using sim_loop_within [OF p(3,4)] by (simp add: init)
  from sim_loop_counts [OF p(4) init(1), unfolded init add_0] obtain n where n: "n \<le> length steps" "ss_allowed s = n"
    "ss_allowed s + ss_halted s = length steps"
    "ss_cost s = foldl fadd (Fin 0) (map st_cost_usd (take n steps))"
    "ss_decision s = ''allow'' \<longleftrightarrow> n = length steps"
    by blast
  have halted: "ss_halted s = 0 \<longleftrightarrow> n = length steps"
    using n(2,3) by linarith
  show ?thesis
  proof (intro exI [of _ p] conjI)
    show "sp_total_cost_usd r = foldl fadd (Fin 0) (map st_cost_usd (take (sp_steps_allowed r) steps))"
      unfolding r n(2) by (rule n(4))
    show "sp_final_decision r = ''allow'' \<longleftrightarrow> sp_steps_halted r = 0"
      unfolding r halted by (rule n(5))
  qed (unfold r, (use p(1,2) w n(3) in blast)+)
qed

text \<open>C35: the simulation of a body that builds a policy the distributor accepts always returns: no
  comparison of a limit raises.\<close>

theorem simulation_returns:
  assumes "build_policy issued body = Inr p" "valid_policy strict p"
  shows "\<exists>r. simulate sha issued now strict body steps = Inr r"
  using assms by (rule simulate_total)

definition sample_body :: "(string, pyval) pydict" where [sample_defs]:
  "sample_body = [(''chain_id'', VStr ''c1''), (''ceiling_usd'', VFloat (Fin 2)), (''on_exceed'', VStr ''halt'')]"

definition sample_step :: sim_step where [sample_defs]:
  "sample_step = \<lparr>st_kind = ''llm'', st_cost_usd = Fin 1, st_tokens_in = 1, st_tokens_out = 1, st_elapsed_ms = Fin 1,
     st_model = VNone, st_tool_name = VNone\<rparr>"

theorem simulation_returns_witness:
  "\<exists>r. simulate (\<lambda>_. []) (Fin 0) (\<lambda>_. Fin 0) False sample_body (replicate 3 sample_step) = Inr r"
  by (rule simulation_returns [OF draft_build [folded sample_body_def] sample_policy_valid])

lemma sample_simulate:
  obtains r where "simulate (\<lambda>_. []) (Fin 0) (\<lambda>_. Fin 0) False sample_body (replicate 3 sample_step) = Inr r"
  using simulate_total [OF draft_build [folded sample_body_def] sample_policy_valid] by blast

theorem simulation_respects_policy_witness:
  "\<exists>r. simulate (\<lambda>_. []) (Fin 0) (\<lambda>_. Fin 0) False sample_body (replicate 3 sample_step) = Inr r \<and>
     sp_steps_allowed r + sp_steps_halted r = 3 \<and> below (VFloat (Fin 2)) (sp_total_cost_usd r)"
proof -
  obtain r where r: "simulate (\<lambda>_. []) (Fin 0) (\<lambda>_. Fin 0) False sample_body (replicate 3 sample_step) = Inr r"
    by (rule sample_simulate)
  from simulation_respects_policy [OF r] r show ?thesis
    using draft_build [folded sample_body_def]
    by (intro exI [of _ r]) (auto simp: sample_policy_def new_policy_config_def)
qed

section \<open>Replay\<close>

text \<open>A replay considers the events of the chain and the time window in the order of their
  timestamps (the step identifier breaking ties) and reports one difference for each, of which it
  counts exactly those that changed; without an override policy it always returns and nothing
  changes.\<close>

theorem replay_reports_every_event:
  assumes "replay now strict snap rq = Inr r"
  shows "sorted_wrt (\<lambda>a b. \<not> event_lt b a) (replay_events rq snap) \<and>
    map df_step_id (rr_diffs r) = map co_step_id (replay_events rq snap) \<and>
    map df_original (rr_diffs r) = map co_decision (replay_events rq snap) \<and>
    rr_event_count r = length (replay_events rq snap) \<and>
    rr_changed_count r = length (filter (\<lambda>d. df_replayed d \<noteq> df_original d) (rr_diffs r))"
proof -
  obtain ov where n: "rr_event_count r = length (replay_events rq snap)" "length (rr_diffs r) = rr_event_count r"
    and c: "rr_changed_count r = length (filter df_changed (rr_diffs r))"
    and d: "\<forall>i < rr_event_count r. \<exists>d.
       replayed_decision ov (replay_events rq snap ! i) i (cost_before (Fin 0) (replay_events rq snap) i) = Inr d \<and>
       rr_diffs r ! i = diff_of (replay_events rq snap ! i) d"
    using replay_spec [OF assms] by blast
  have m: "map f (rr_diffs r) = map g (replay_events rq snap)" if "\<And>e q. f (diff_of e q) = g e"
    for f :: "decision_diff \<Rightarrow> string" and g
    using n d that by (intro nth_equalityI) auto
  have "df_changed x \<longleftrightarrow> df_replayed x \<noteq> df_original x" if "x \<in> set (rr_diffs r)" for x
    using that d n(2) by (auto simp: in_set_conv_nth diff_of_def)
  then have "filter df_changed (rr_diffs r) = filter (\<lambda>d. df_replayed d \<noteq> df_original d) (rr_diffs r)"
    by (intro filter_cong) auto
  then show ?thesis
    using n c replay_events_sorted m [of df_step_id co_step_id] m [of df_original co_decision]
    by (simp add: diff_of_def)
qed

definition sample_request :: replay_request where [sample_defs]:
  "sample_request = \<lparr>rq_chain_id = ''c1'', rq_from = Fin 0, rq_to = Fin 100, rq_override = None\<rparr>"

theorem replay_reports_every_event_witness:
  "\<exists>r. replay (Fin 0) False [sample_event] sample_request = Inr r \<and>
     rr_event_count r = length (replay_events sample_request [sample_event])"
proof -
  obtain r where "replay (Fin 0) False [sample_event] sample_request = Inr r"
    using replay_without_override [of sample_request "Fin 0" False "[sample_event]"]
    by (auto simp: sample_request_def)
  with replay_reports_every_event [OF this] show ?thesis by blast
qed

text \<open>Under an override policy an event is replayed as \<open>allow\<close> exactly when the cost accumulated
  up to and including it is within the cost ceiling, its position within the step ceiling and its
  tokens within the token ceiling, and as the policy's \<open>on_exceed\<close> otherwise.\<close>

theorem replay_decides_by_ceilings:
  assumes "build_override_policy now d = Inr p" "val_isfinite (VInt (co_tokens e)) = Inr True"
  shows "replay_decision e idx c p =
    Inr (if below (pc_ceiling_usd p) (fadd c (event_cost e)) \<and>
            below (pc_ceiling_steps p) (Fin (of_nat (Suc idx))) \<and>
            below (pc_ceiling_tokens_out p) (Fin (of_int (co_tokens e)))
         then ''allow'' else pc_on_exceed p)"
  using build_override_policy_ok [OF assms(1)] assms(2) by (rule replay_decision_spec)

lemma sample_override:
  "build_override_policy (Fin 0) sample_body = Inr sample_policy"
  by (simp add: build_override_policy_def sample_body_def get_none_def override_chain_id_def
      reject_unless_def override_on_exceed_def ALLOWED_ON_EXCEED_def nonneg_number_def override_int_def
      override_timeout_def override_priority_def sample_policy_def new_policy_config_def strip_def
      is_space_def Let_def numeric_or_value_error_def)

theorem replay_decides_by_ceilings_witness:
  "replay_decision sample_event 0 (Fin 2) sample_policy = Inr ''halt''"
proof -
  have "val_isfinite (VInt (co_tokens sample_event)) = Inr True"
    by (simp add: sample_event_def float_of_int_def)
  from replay_decides_by_ceilings [OF sample_override this, of 0 "Fin 2"] show ?thesis
    by (simp add: sample_policy_def new_policy_config_def below_def event_cost_def sample_event_def)
qed

text \<open>When no recorded cost is negative, once an event exceeds the cost ceiling so does every
  later one: the replay never allows an event again.\<close>

theorem replay_stays_over_budget:
  assumes "build_override_policy now d = Inr p"
    and "\<forall>e \<in> set es. \<not> flt (co_cost_usd e) (Fin 0) \<and> is_double (co_cost_usd e)"
    and "i \<le> j" "j \<le> length es" "\<not> below (pc_ceiling_usd p) (cost_before (Fin 0) es i)"
  shows "\<not> below (pc_ceiling_usd p) (cost_before (Fin 0) es j)"
proof -
  obtain x where x: "pc_ceiling_usd p = VFloat x" "isfinite x"
    using build_override_policy_ok [OF assms(1)] by (auto simp: override_built_def)
  have "fle (cost_before (Fin 0) es i) (cost_before (Fin 0) es j)"
    by (rule cost_before_mono [OF assms(2-4)])
  then show ?thesis using assms(5) x flt_fle_trans by (auto simp: below_def)
qed

theorem replay_stays_over_budget_witness:
  "\<not> below (pc_ceiling_usd sample_policy) (cost_before (Fin 0) (replicate 4 sample_event) 4)"
proof -
  have "\<not> below (pc_ceiling_usd sample_policy) (cost_before (Fin 0) (replicate 4 sample_event) 3)"
    by (simp add: numeral_eq_Suc cost_before_def event_cost_def sample_event_def below_def sample_policy_def
        new_policy_config_def del: One_nat_def)
  then show ?thesis
    by (intro replay_stays_over_budget [OF sample_override, of "replicate 4 sample_event" 3 4])
      (simp_all add: sample_event_def)
qed

section \<open>The read endpoints and authentication\<close>

text \<open>C36: for an acceptable query, while the store of events does not change: as many pages of
  \<open>GET /events\<close> as the total of the first response calls for, requested one after the other, are together
  exactly the selected events. These are as many of the matching events as there are, 10000 at
  most; when every stored timestamp is a number they come newest first and no matching event that
  was left out is newer than one that was selected.\<close>

theorem event_pages_partition:
  assumes "query_bounds_ok q" "query_valid q"
  shows "concat (map (event_page q es) [0..<page_count q es]) = events_selected q es \<and>
    length (events_selected q es) = min (length (filter (event_matches q) es)) 10000 \<and>
    (\<exists>rest. mset (filter (event_matches q) es) = mset (events_selected q es) + mset rest \<and>
      ((\<forall>e \<in> set es. co_timestamp e \<noteq> NaN) \<longrightarrow>
         sorted_wrt (\<lambda>a b. fle (co_timestamp b) (co_timestamp a)) (events_selected q es) \<and>
         (\<forall>a \<in> set (events_selected q es). \<forall>b \<in> set rest. fle (co_timestamp b) (co_timestamp a))))"
proof (intro conjI)
  show "concat (map (event_page q es) [0..<page_count q es]) = events_selected q es"
    using assms by (rule event_pages_all)
  show "length (events_selected q es) = min (length (filter (event_matches q) es)) 10000"
    by (simp add: events_selected_length MAX_RESULTS_CAP_def)
  show "\<exists>rest. mset (filter (event_matches q) es) = mset (events_selected q es) + mset rest \<and>
      ((\<forall>e \<in> set es. co_timestamp e \<noteq> NaN) \<longrightarrow>
         sorted_wrt (\<lambda>a b. fle (co_timestamp b) (co_timestamp a)) (events_selected q es) \<and>
         (\<forall>a \<in> set (events_selected q es). \<forall>b \<in> set rest. fle (co_timestamp b) (co_timestamp a)))"
    using events_selected_split [of q es] events_selected_newest_first by blast
qed

definition sample_query :: event_query where [sample_defs]:
  "sample_query = \<lparr>eq_chain_id = Some ''c1'', eq_decision = Some [''allow''], eq_policy_hash = None,
     eq_since = Some (Fin 0), eq_until = None, eq_offset = 0, eq_limit = 1\<rparr>"

theorem event_pages_partition_witness:
  "concat (map (event_page sample_query [sample_event]) [0..<page_count sample_query [sample_event]]) =
     events_selected sample_query [sample_event] \<and> length (events_selected sample_query [sample_event]) = 1"
proof -
  have "query_bounds_ok sample_query" "query_valid sample_query"
    by (simp_all add: query_bounds_ok_def query_valid_def sample_query_def MAX_LIMIT_def VALID_DECISIONS_def)
  moreover have "event_matches sample_query sample_event"
    by (simp add: event_matches_def sample_query_def sample_event_def)
  ultimately show ?thesis
    using event_pages_partition [of sample_query "[sample_event]"] by simp
qed

text \<open>The root cause \<open>GET /incidents\<close> reports describes an event of the chain that was halted or degraded,
  and no other such event of the chain is earlier.\<close>

theorem incident_root_cause_is_earliest:
  assumes "\<forall>e \<in> set es. co_timestamp e \<noteq> NaN" "get_incident es c s = Inr d" "in_root_cause d = Some r"
  shows "\<exists>x \<in> set es. r = root_cause_of x \<and> co_chain_id x = c \<and> co_decision x \<in> set HALT_DECISIONS \<and>
    (\<forall>e \<in> set es. co_chain_id e = c \<longrightarrow> co_decision e \<in> set HALT_DECISIONS \<longrightarrow>
       fle (co_timestamp x) (co_timestamp e))"
proof -
  obtain x where "first_bad (chain_timeline c es) = Some x" "r = root_cause_of x"
    using assms(2,3) by (auto simp: get_incident_def Let_def split: option.splits)
  then show ?thesis using first_bad_earliest [OF assms(1)] by blast
qed

theorem incident_root_cause_is_earliest_witness:
  "\<exists>d r. get_incident [sample_event, sample_event\<lparr>co_decision := ''halt'', co_timestamp := Fin 5\<rparr>] ''c1'' ''s1'' = Inr d \<and>
     in_root_cause d = Some r \<and> dget r ''decision'' = Some (VStr ''halt'')"
proof -
  let ?h = "sample_event\<lparr>co_decision := ''halt'', co_timestamp := Fin 5\<rparr>"
  obtain d where d: "get_incident [sample_event, ?h] ''c1'' ''s1'' = Inr d" "in_root_cause d = Some (root_cause_of ?h)"
    by (simp add: get_incident_def chain_timeline_def sort_by_def sample_event_def HALT_DECISIONS_def Let_def
        first_bad_def)
  have "\<forall>e \<in> set [sample_event, ?h]. co_timestamp e \<noteq> NaN" by (simp add: sample_event_def)
  from incident_root_cause_is_earliest [OF this d] d show ?thesis
    by (intro exI [of _ d] exI [of _ "root_cause_of ?h"]) (auto simp: root_cause_of_def sample_event_def)
qed

text \<open>The middleware forwards a request exactly when its path is exempt, or no key is configured
  and authentication was explicitly disabled, or a non-empty key is configured and the header is
  that key; everything else is rejected. A path is exempt when, with its trailing slashes
  removed, it is an exempt page or lies strictly below an exempt directory.\<close>

theorem auth_fails_closed:
  "(fst (dispatch env path header warned) = Forwarded \<longleftrightarrow>
     (rstrip_slash path \<in> set EXEMPT_EXACT \<or> (\<exists>p \<in> set EXEMPT_PREFIXES. strict_prefix p (rstrip_slash path))) \<or>
     (case ae_api_key env of None \<Rightarrow> is_auth_disabled env | Some key \<Rightarrow> key \<noteq> [] \<and> header = Some key))"
  unfolding dispatch_forwarded_iff is_exempt_iff ..

text \<open>The kernel is reported compatible exactly for the versions 3.4 and above of major version
  3.\<close>

theorem kernel_compat_range:
  "check_kernel_compat s = CompatOk \<longleftrightarrow>
     s \<noteq> ''unknown'' \<and> (\<exists>minor patch. parse_version_tuple s = Inr [3, minor, patch] \<and> 4 \<le> minor \<and> 0 \<le> patch)"
  by (rule check_kernel_compat_ok)

end
