(* ===== verification/Http_Schemas.thy ===== *)
theory Http_Schemas
  imports Event_Api Simulation Tenants
begin

text \<open>
  The request bodies with validators of their own (\<open>api/schemas.py\<close>), the bounds and patterns the
  route modules declare, and the response models that copy fields (\<open>EventItem\<close>, the entries of
  \<open>GET /export\<close>, \<open>TenantResponse\<close>, \<open>EffectivePolicyResponse\<close>). Pydantic collects the \<open>ValueError\<close>s
  of all fields into one 422; any other exception of a validator escapes. The framework's own
  conversion of a JSON value to an integer is the argument \<open>lax\<close>. Of the bodies only JSON objects
  with the declared keys are represented.
\<close>

section \<open>Validators\<close>

fun validate_fields :: "unit result list \<Rightarrow> unit result" where
  "validate_fields [] = Inr ()"
| "validate_fields (Inr _ # rs) = validate_fields rs"
| "validate_fields (Inl e # rs) =
     (if e = ValueError
      then (case validate_fields rs of Inr _ \<Rightarrow> Inl (HTTPException 422) | Inl e' \<Rightarrow> Inl e')
      else Inl e)"

definition forget :: "'a result \<Rightarrow> unit result" where
  "forget r = (case r of Inl e \<Rightarrow> Inl e | Inr _ \<Rightarrow> Inr ())"

definition schema_check :: "bool \<Rightarrow> unit result" where
  "schema_check b = (if b then Inr () else Inl ValueError)"

definition float_fields_finite :: "pyval \<Rightarrow> unit result" where
  "float_fields_finite v =
     (if v = VNone then Inr ()
      else if \<not> plain_number v then Inl ValueError
      else rbind (to_float v) (\<lambda>x. if \<not> isfinite x \<or> flt x (Fin 0) then Inl ValueError else Inr ()))"

definition float_finite :: "pyval \<Rightarrow> unit result" where
  "float_finite v =
     (if \<not> plain_number v then Inl ValueError
      else rbind (to_float v) (\<lambda>x. if \<not> isfinite x then Inl ValueError else Inr ()))"

definition int_no_bool :: "pyval \<Rightarrow> unit result" where
  "int_no_bool v = (if is_bool v then Inl ValueError else Inr ())"

subsection \<open>\<open>PolicyUpdateRequest\<close>\<close>

type_synonym lax_int = "pyval \<Rightarrow> int option"

definition update_float :: "pyval \<Rightarrow> pyval result" where
  \<comment> \<open>the validator, then the conversion to \<open>float | None\<close>\<close>
  "update_float v =
     rbind (float_fields_finite v) (\<lambda>_.
       if v = VNone then Inr VNone else rbind (to_float v) (\<lambda>x. Inr (VFloat x)))"

definition optional_int :: "lax_int \<Rightarrow> pyval \<Rightarrow> pyval result" where
  "optional_int lax v =
     (if v = VNone then Inr VNone
      else case lax v of None \<Rightarrow> Inl ValueError | Some n \<Rightarrow> Inr (VInt n))"

definition optional_str :: "pyval \<Rightarrow> pyval result" where
  "optional_str v = (if v = VNone \<or> is_str v then Inr v else Inl ValueError)"

definition update_fields :: "lax_int \<Rightarrow> policy_update \<Rightarrow> unit result list" where
  "update_fields lax u =
     [forget (update_float (pu_ceiling_usd u)),
      schema_check (case pu_on_exceed u of None \<Rightarrow> True | Some s \<Rightarrow> s \<in> set ALLOWED_ON_EXCEED),
      forget (optional_int lax (pu_ceiling_tokens_out u)), forget (optional_int lax (pu_ceiling_steps u)),
      forget (optional_str (pu_fallback_model u)), forget (optional_int lax (pu_timeout_ms u)),
      forget (update_float (pu_rate_window_seconds u)), forget (optional_int lax (pu_rate_ceiling_calls u)),
      forget (optional_int lax (pu_priority u)), forget (update_float (pu_deadline_ts u)),
      forget (update_float (pu_expires_at u)), forget (optional_str (pu_planner_version u))]"

definition parsed_update :: "lax_int \<Rightarrow> policy_update \<Rightarrow> policy_update" where
  "parsed_update lax u =
     u\<lparr>pu_ceiling_usd := projr (update_float (pu_ceiling_usd u)),
       pu_ceiling_tokens_out := projr (optional_int lax (pu_ceiling_tokens_out u)),
       pu_ceiling_steps := projr (optional_int lax (pu_ceiling_steps u)),
       pu_timeout_ms := projr (optional_int lax (pu_timeout_ms u)),
       pu_rate_window_seconds := projr (update_float (pu_rate_window_seconds u)),
       pu_rate_ceiling_calls := projr (optional_int lax (pu_rate_ceiling_calls u)),
       pu_priority := projr (optional_int lax (pu_priority u)),
       pu_deadline_ts := projr (update_float (pu_deadline_ts u)),
       pu_expires_at := projr (update_float (pu_expires_at u))\<rparr>"

definition parse_update :: "lax_int \<Rightarrow> policy_update \<Rightarrow> policy_update result" where
  "parse_update lax u = rbind (validate_fields (update_fields lax u)) (\<lambda>_. Inr (parsed_update lax u))"

subsection \<open>\<open>SimulationStep\<close>\<close>

record raw_step =
  rs_kind :: string
  rs_cost_usd :: pyval
  rs_tokens_in :: pyval
  rs_tokens_out :: pyval
  rs_elapsed_ms :: pyval
  rs_model :: pyval
  rs_tool_name :: pyval

definition MAX_SIM_STEPS :: nat where "MAX_SIM_STEPS = 1000"

definition step_float :: "pyval \<Rightarrow> pyfloat result" where
  "step_float v =
     rbind (float_finite v) (\<lambda>_. rbind (to_float v) (\<lambda>x. if flt x (Fin 0) then Inl ValueError else Inr x))"

definition step_int :: "lax_int \<Rightarrow> pyval \<Rightarrow> int result" where
  "step_int lax v =
     rbind (int_no_bool v) (\<lambda>_. case lax v of None \<Rightarrow> Inl ValueError | Some n \<Rightarrow> Inr n)"

definition step_tokens_out :: "lax_int \<Rightarrow> pyval \<Rightarrow> int result" where
  "step_tokens_out lax v = rbind (step_int lax v) (\<lambda>n. if n < 0 then Inl ValueError else Inr n)"

definition step_fields :: "lax_int \<Rightarrow> raw_step \<Rightarrow> unit result list" where
  "step_fields lax r =
     [schema_check (rs_kind r \<in> set [''llm'', ''tool'', ''system'']), forget (step_float (rs_cost_usd r)),
      forget (step_int lax (rs_tokens_in r)), forget (step_tokens_out lax (rs_tokens_out r)),
      forget (step_float (rs_elapsed_ms r)), forget (optional_str (rs_model r)),
      forget (optional_str (rs_tool_name r))]"

definition parsed_step :: "lax_int \<Rightarrow> raw_step \<Rightarrow> sim_step" where
  "parsed_step lax r =
     \<lparr>st_kind = rs_kind r, st_cost_usd = projr (step_float (rs_cost_usd r)),
      st_tokens_in = projr (step_int lax (rs_tokens_in r)),
      st_tokens_out = projr (step_tokens_out lax (rs_tokens_out r)),
      st_elapsed_ms = projr (step_float (rs_elapsed_ms r)), st_model = projr (optional_str (rs_model r)),
      st_tool_name = projr (optional_str (rs_tool_name r))\<rparr>"

definition parse_steps :: "lax_int \<Rightarrow> raw_step list \<Rightarrow> sim_step list result" where
  "parse_steps lax rs =
     rbind (validate_fields (concat (map (step_fields lax) (take MAX_SIM_STEPS rs)) @
              [schema_check (length rs \<le> MAX_SIM_STEPS)])) (\<lambda>_.
       Inr (map (parsed_step lax) rs))"

subsection \<open>What the validators accept\<close>

lemma validate_fields_ok: "validate_fields rs = Inr () \<longleftrightarrow> (\<forall>r \<in> set rs. is_ok r)"
  by (induction rs rule: validate_fields.induct) (auto split: sum.splits)

lemma validate_fields_error:
  "validate_fields rs = Inl e \<Longrightarrow> e = HTTPException 422 \<or> (Inl e \<in> set rs \<and> e \<noteq> ValueError)"
  by (induction rs rule: validate_fields.induct) (auto split: sum.splits if_splits)

lemma is_ok_forget [simp]: "is_ok (forget r) = is_ok r"
  by (cases r) (simp_all add: forget_def)

lemma forget_Inl [simp]: "Inl e = forget r \<longleftrightarrow> r = Inl e"
  by (cases r) (auto simp: forget_def)

lemma schema_check_ok [simp]: "is_ok (schema_check b) = b" "Inl e = schema_check b \<longleftrightarrow> \<not> b \<and> e = ValueError"
  by (auto simp: schema_check_def)

definition sane_number :: "pyval \<Rightarrow> bool" where
  "sane_number v \<longleftrightarrow> (\<exists>x. v = VFloat x \<and> isfinite x \<and> \<not> flt x (Fin 0))"

lemma update_float_ok: "update_float v = Inr w \<Longrightarrow> w = VNone \<or> sane_number w"
  by (auto simp: update_float_def float_fields_finite_def sane_number_def rbind_Inr_iff split: if_splits)

lemma step_float_ok: "step_float v = Inr x \<Longrightarrow> isfinite x \<and> \<not> flt x (Fin 0)"
  by (auto simp: step_float_def float_finite_def rbind_Inr_iff split: if_splits)

lemma parse_update_sane:
  assumes "parse_update lax u = Inr p"
  shows "\<forall>v \<in> {pu_ceiling_usd p, pu_rate_window_seconds p, pu_deadline_ts p, pu_expires_at p}.
           v = VNone \<or> sane_number v"
    and "pu_on_exceed p = None \<or> (\<exists>s \<in> set ALLOWED_ON_EXCEED. pu_on_exceed p = Some s)"
    and "pu_current_version p = pu_current_version u"
proof -
  have ok: "\<forall>r \<in> set (update_fields lax u). is_ok r" and p: "p = parsed_update lax u"
    using assms by (auto simp: parse_update_def rbind_Inr_iff validate_fields_ok)
  have "projr (update_float v) = VNone \<or> sane_number (projr (update_float v))" if "is_ok (update_float v)" for v
    using that update_float_ok by (cases "update_float v") auto
  then show "\<forall>v \<in> {pu_ceiling_usd p, pu_rate_window_seconds p, pu_deadline_ts p, pu_expires_at p}.
           v = VNone \<or> sane_number v"
    using ok by (simp add: p parsed_update_def update_fields_def)
  show "pu_on_exceed p = None \<or> (\<exists>s \<in> set ALLOWED_ON_EXCEED. pu_on_exceed p = Some s)"
    using ok by (auto simp: p parsed_update_def update_fields_def split: option.splits)
  show "pu_current_version p = pu_current_version u" by (simp add: p parsed_update_def)
qed

lemma parse_steps_sane:
  assumes "parse_steps lax rs = Inr ss" "s \<in> set ss"
  shows "isfinite (st_cost_usd s) \<and> \<not> flt (st_cost_usd s) (Fin 0) \<and> 0 \<le> st_tokens_out s \<and>
    isfinite (st_elapsed_ms s) \<and> \<not> flt (st_elapsed_ms s) (Fin 0) \<and> length ss \<le> MAX_SIM_STEPS"
proof -
  have ss: "ss = map (parsed_step lax) rs" and len: "length rs \<le> MAX_SIM_STEPS"
    and ok: "\<forall>r \<in> set (concat (map (step_fields lax) rs)). is_ok r"
    using assms(1) by (auto simp: parse_steps_def rbind_Inr_iff validate_fields_ok)
  then obtain r where r: "r \<in> set rs" "s = parsed_step lax r" using assms(2) by auto
  then have f: "is_ok (step_float (rs_cost_usd r))" "is_ok (step_tokens_out lax (rs_tokens_out r))"
      "is_ok (step_float (rs_elapsed_ms r))"
    using ok by (auto simp: step_fields_def)
  have "0 \<le> projr (step_tokens_out lax v)" if "is_ok (step_tokens_out lax v)" for v
    using that by (cases "step_tokens_out lax v") (auto simp: step_tokens_out_def rbind_Inr_iff split: if_splits)
  moreover have "isfinite (projr (step_float v)) \<and> \<not> flt (projr (step_float v)) (Fin 0)"
    if "is_ok (step_float v)" for v
    using that step_float_ok by (cases "step_float v") auto
  ultimately show ?thesis using f len by (simp add: r(2) parsed_step_def ss)
qed

text \<open>An exception other than \<open>ValueError\<close> is the \<open>OverflowError\<close> of an integer no float can hold.\<close>

lemma to_float_number_error: "plain_number v \<Longrightarrow> to_float v = Inl e \<Longrightarrow> e = OverflowError"
  by (cases v) (auto simp: plain_number_def float_of_int_def split: pyfloat.splits)

lemma pow2_le_of_int: "2 ^ k \<le> n \<Longrightarrow> pow2 (int k) \<le> of_int n"
  unfolding pow2_nat by (metis of_int_le_iff of_int_numeral of_int_power)

lemma float_of_huge:
  assumes "2 ^ 1024 \<le> n"
  shows "float_of_int n = Inl OverflowError"
proof -
  have "pow2 1024 \<le> (of_int n :: rat)" using pow2_le_of_int [OF assms] by simp
  then have "pow2 1024 \<le> rndv (of_int n)" by (rule rndv_ge_rep) (rule pow2_1024_rep)
  then show ?thesis by (simp add: float_of_int_def rnd_def)
qed

lemma update_float_error: "update_float v = Inl e \<Longrightarrow> e = ValueError \<or> e = OverflowError"
  using to_float_number_error [of v]
  by (auto simp: update_float_def float_fields_finite_def rbind_Inl_iff rbind_Inr_iff split: if_splits)

lemma update_float_huge: "2 ^ 1024 \<le> n \<Longrightarrow> update_float (VInt n) = Inl OverflowError"
  by (simp add: update_float_def float_fields_finite_def plain_number_def float_of_huge)

lemma optional_error: "optional_int lax v = Inl e \<Longrightarrow> e = ValueError" "optional_str v = Inl e \<Longrightarrow> e = ValueError"
  by (auto simp: optional_int_def optional_str_def split: if_splits option.splits)

lemma update_fields_error: "Inl e \<in> set (update_fields lax u) \<Longrightarrow> e = ValueError \<or> e = OverflowError"
  unfolding update_fields_def
  by (simp only: list.set insert_iff empty_iff forget_Inl schema_check_ok(2))
    (elim disjE; simp add: optional_error update_float_error)

lemma parse_update_error: "parse_update lax u = Inl e \<Longrightarrow> e = HTTPException 422 \<or> e = OverflowError"
  unfolding parse_update_def rbind_Inl_iff
  using validate_fields_error update_fields_error by fastforce

lemma step_float_error: "step_float v = Inl e \<Longrightarrow> e = ValueError \<or> e = OverflowError"
  using to_float_number_error [of v]
  by (auto simp: step_float_def float_finite_def rbind_Inl_iff rbind_Inr_iff split: if_splits)

lemma step_int_error: "step_int lax v = Inl e \<Longrightarrow> e = ValueError"
  by (auto simp: step_int_def int_no_bool_def split: if_splits option.splits)

lemma step_fields_error: "Inl e \<in> set (step_fields lax r) \<Longrightarrow> e = ValueError \<or> e = OverflowError"
  unfolding step_fields_def step_tokens_out_def
  by (simp only: list.set insert_iff empty_iff forget_Inl schema_check_ok(2) rbind_Inl_iff)
    (elim disjE; auto dest: step_float_error step_int_error optional_error split: if_splits)

lemma parse_steps_error: "parse_steps lax rs = Inl e \<Longrightarrow> e = HTTPException 422 \<or> e = OverflowError"
  unfolding parse_steps_def rbind_Inl_iff
  by (auto dest!: validate_fields_error dest: step_fields_error)

section \<open>Response models\<close>

text \<open>
  A response model is constructed in the handler, so a field of the wrong type raises pydantic's
  \<open>ValidationError\<close>, a \<open>ValueError\<close> that no handler catches. The framework's conversions are \<open>lax\<close>
  and \<open>lf\<close>.
\<close>

type_synonym lax_float = "pyval \<Rightarrow> pyfloat option"

definition opt_of :: "(pyval \<Rightarrow> 'a option) \<Rightarrow> pyval \<Rightarrow> bool" where
  "opt_of conv v \<longleftrightarrow> v = VNone \<or> conv v \<noteq> None"

definition policy_fields_ok :: "lax_int \<Rightarrow> lax_float \<Rightarrow> policy_config \<Rightarrow> bool" where
  \<comment> \<open>the declared types of the fields \<open>PolicyResponse\<close> and \<open>EffectivePolicyResponse\<close> share\<close>
  "policy_fields_ok lax lf p \<longleftrightarrow>
     lf (pc_ceiling_usd p) \<noteq> None \<and> lf (pc_issued_at p) \<noteq> None \<and>
     opt_of lax (pc_ceiling_tokens_out p) \<and> opt_of lax (pc_ceiling_steps p) \<and>
     (pc_fallback_model p = VNone \<or> is_str (pc_fallback_model p)) \<and> opt_of lax (pc_timeout_ms p) \<and>
     opt_of lf (pc_rate_window_seconds p) \<and> opt_of lax (pc_rate_ceiling_calls p) \<and>
     lax (pc_priority p) \<noteq> None \<and> opt_of lf (pc_deadline_ts p) \<and> opt_of lf (pc_expires_at p) \<and>
     (pc_planner_version p = VNone \<or> is_str (pc_planner_version p))"

definition policy_response_model :: "lax_int \<Rightarrow> lax_float \<Rightarrow> policy_response \<Rightarrow> policy_response result" where
  "policy_response_model lax lf r =
     (if policy_fields_ok lax lf (pr_policy r) \<and> pc_on_exceed (pr_policy r) \<in> set ALLOWED_ON_EXCEED
      then Inr r else Inl ValueError)"

definition summary_ok :: "lax_int \<Rightarrow> lax_float \<Rightarrow> policy_summary \<Rightarrow> bool" where
  "summary_ok lax lf m \<longleftrightarrow> sm_on_exceed m \<in> set ALLOWED_ON_EXCEED \<and> lf (sm_ceiling_usd m) \<noteq> None \<and>
     lax (sm_priority m) \<noteq> None \<and> lf (sm_issued_at m) \<noteq> None"

record effective_policy =
  ep_tenant_id :: string
  ep_policy :: policy_config

definition policy_to_response :: "lax_int \<Rightarrow> lax_float \<Rightarrow> string \<Rightarrow> policy_config \<Rightarrow> effective_policy result" where
  "policy_to_response lax lf tenant_id p =
     (if policy_fields_ok lax lf p then Inr \<lparr>ep_tenant_id = tenant_id, ep_policy = p\<rparr> else Inl ValueError)"

record tenant_response =
  te_id :: string
  te_name :: string
  te_parent_id :: "string option"
  te_policy_overrides :: "(string, pyval) pydict"
  te_created_at :: pyfloat

definition tenant_to_response :: "tenant_node \<Rightarrow> tenant_response" where
  "tenant_to_response t =
     \<lparr>te_id = tn_id t, te_name = tn_name t, te_parent_id = tn_parent_id t,
      te_policy_overrides = tn_policy_overrides t, te_created_at = tn_created_at t\<rparr>"

record event_item =
  ei_step_id :: string
  ei_chain_id :: string
  ei_operation_name :: string
  ei_decision :: string
  ei_cost_usd :: pyfloat
  ei_tokens :: int
  ei_duration_ms :: pyfloat
  ei_policy_hash :: string
  ei_audit_id :: string
  ei_timestamp :: pyfloat
  ei_reason_code :: "string option"

definition from_outcome :: "cp_outcome \<Rightarrow> event_item" where
  "from_outcome e =
     \<lparr>ei_step_id = co_step_id e, ei_chain_id = co_chain_id e, ei_operation_name = co_operation_name e,
      ei_decision = co_decision e, ei_cost_usd = co_cost_usd e, ei_tokens = co_tokens e,
      ei_duration_ms = co_duration_ms e, ei_policy_hash = co_policy_hash e, ei_audit_id = co_audit_id e,
      ei_timestamp = co_timestamp e, ei_reason_code = co_reason_code e\<rparr>"

definition export_policy :: "policy_bundle \<Rightarrow> (string, pyval) pydict" where
  "export_policy b = (let p = pb_policy b in
     [(''chain_id'', VStr (pc_chain_id p)), (''ceiling_usd'', pc_ceiling_usd p),
      (''on_exceed'', VStr (pc_on_exceed p)), (''issued_at'', pc_issued_at p),
      (''ceiling_tokens_out'', pc_ceiling_tokens_out p), (''ceiling_steps'', pc_ceiling_steps p),
      (''fallback_model'', pc_fallback_model p), (''timeout_ms'', pc_timeout_ms p),
      (''rate_window_seconds'', pc_rate_window_seconds p), (''rate_ceiling_calls'', pc_rate_ceiling_calls p),
      (''priority'', pc_priority p), (''deadline_ts'', pc_deadline_ts p), (''expires_at'', pc_expires_at p),
      (''planner_version'', pc_planner_version p), (''policy_hash'', VStr (pb_policy_hash b)),
      (''version'', VInt (int (pb_version b)))])"

definition export_event :: "cp_outcome \<Rightarrow> (string, pyval) pydict" where
  \<comment> \<open>without the reason code\<close>
  "export_event e =
     [(''step_id'', VStr (co_step_id e)), (''chain_id'', VStr (co_chain_id e)),
      (''operation_name'', VStr (co_operation_name e)), (''decision'', VStr (co_decision e)),
      (''cost_usd'', VFloat (co_cost_usd e)), (''tokens'', VInt (co_tokens e)),
      (''duration_ms'', VFloat (co_duration_ms e)), (''policy_hash'', VStr (co_policy_hash e)),
      (''audit_id'', VStr (co_audit_id e)), (''timestamp'', VFloat (co_timestamp e))]"

record export_payload =
  xp_exported_at :: pyfloat
  xp_version :: string
  xp_policies :: "(string, pyval) pydict list"
  xp_events :: "(string, pyval) pydict list"
  xp_warning :: bool

definition export_data ::
  "pyfloat \<Rightarrow> string \<Rightarrow> (nat \<Rightarrow> registry) \<Rightarrow> nat \<Rightarrow> cp_outcome list option \<Rightarrow> export_payload" where
  "export_data now version reg event_limit snapshot =
     (let (events, warning) = export_events event_limit snapshot in
      \<lparr>xp_exported_at = now, xp_version = version, xp_policies = map export_policy (export_policies reg),
       xp_events = map export_event events, xp_warning = warning\<rparr>)"

text \<open>What a response keeps: an item everything but the schema version, an exported policy
  everything but the signature and the time it was distributed.\<close>

lemma from_outcome_inj:
  "from_outcome e = from_outcome f \<Longrightarrow> co_schema_version e = co_schema_version f \<Longrightarrow> e = f"
  by (auto simp: from_outcome_def intro!: cp_outcome.equality)

lemma export_policy_inj:
  "export_policy a = export_policy b \<longleftrightarrow>
     pb_policy a = pb_policy b \<and> pb_policy_hash a = pb_policy_hash b \<and> pb_version a = pb_version b"
  by (auto simp: export_policy_def Let_def intro!: policy_config.equality)

lemma tenant_to_response_inj: "tenant_to_response a = tenant_to_response b \<Longrightarrow> a = b"
  by (auto simp: tenant_to_response_def intro!: tenant_node.equality)

end
