(* ===== verification/Application.thy ===== *)
theory Application
  imports Http_Schemas Rollouts Replay Ingest Auth Stores Pg_Connection
begin

text \<open>
  The HTTP application as a whole (\<open>api/app.py\<close>): its start and stop (\<open>_lifespan\<close>), the CORS
  settings, and the service of a request: the API-key middleware, the validation of its parameters,
  the handler of its route over the shared state, and the exception handlers. A request is what the
  framework's routing leaves of it: a constructor per route with its decoded parameters.
\<close>

section \<open>Start and stop\<close>

record environment =
  ev_database_url :: string
  ev_auth :: auth_env
  ev_immutable_config :: string
  ev_cors_origins :: string
  ev_signing_key :: string

datatype app_store = InMemory memory_store | InPostgres pg_store

record application =
  ap_store :: app_store
  ap_control :: control_app \<comment> \<open>the rollouts and the policy registry with its distributor\<close>
  ap_tenants :: tenants
  ap_ingestor :: ingestor
  ap_startup_valid :: bool
  ap_warned :: bool \<comment> \<open>the middleware's \<open>_warn_once_done\<close>\<close>

definition choose_store :: "environment \<Rightarrow> connection \<Rightarrow> app_store" where
  "choose_store env conn =
     (if ev_database_url env = [] then InMemory new_memory_store
      else (case conn of Connected s \<Rightarrow> InPostgres s | _ \<Rightarrow> InMemory new_memory_store))"

definition safe_dsn :: "string \<Rightarrow> string" where
  \<comment> \<open>what is logged when the connection fails\<close>
  "safe_dsn url = (if CHR ''@'' \<in> set url then last (split_on CHR ''@'' url) else url)"

definition startup_valid :: "environment \<Rightarrow> bool" where
  "startup_valid env \<longleftrightarrow>
     (let auth_disabled = is_auth_disabled (ev_auth env);
          api_key_set = (strip (case ae_api_key (ev_auth env) of None \<Rightarrow> [] | Some k \<Rightarrow> k) \<noteq> []) in
      \<not> (\<not> auth_disabled \<and> \<not> api_key_set))"

definition lifespan_start :: "environment \<Rightarrow> connection \<Rightarrow> bool \<Rightarrow> application result" where
  "lifespan_start env conn warned =
     rbind (new_distributor False (ev_signing_key env)) (\<lambda>d.
       Inr \<lparr>ap_store = choose_store env conn,
            ap_control = \<lparr>ca_rollouts = [], ca_registry = new_registry d\<rparr>, ap_tenants = [],
            ap_ingestor = new_ingestor (new_cp_store 500000) 50 None,
            ap_startup_valid = startup_valid env, ap_warned = warned\<rparr>)"

definition start_app ::
  "environment \<Rightarrow> pg_driver option \<Rightarrow> schema_run \<Rightarrow> pg_database \<Rightarrow> bool \<Rightarrow>
   application result \<times> pg_pool option \<times> pg_database" where
  \<comment> \<open>with the construction of the store: without a URL the database is not touched\<close>
  "start_app env driver answers db warned =
     (if ev_database_url env = [] then (lifespan_start env DriverMissing warned, None, db)
      else (let (r, pool, db') = pg_init driver answers (ev_database_url env) 1 5 db in
            (lifespan_start env (connection_of r) warned, pool, db')))"

definition lifespan_stop :: "application \<Rightarrow> application" where
  "lifespan_stop app =
     (case ap_store app of InPostgres s \<Rightarrow> app\<lparr>ap_store := InPostgres (pg_close s)\<rparr> | InMemory _ \<Rightarrow> app)"

definition cors_settings :: "string \<Rightarrow> string list \<times> bool" where
  \<comment> \<open>the allowed origins, and whether credentials are allowed\<close>
  "cors_settings cors_env =
     (if cors_env \<noteq> [] \<and> cors_env \<noteq> ''*''
      then (filter (\<lambda>o'. o' \<noteq> []) (map strip (split_on CHR '','' cors_env)), True)
      else ([''*''], False))"

text \<open>
  What \<open>create_app\<close> puts together: the version it shows, the middleware from the outermost (the one
  added last) to the innermost, and the routers in the order in which they are tried.
\<close>

datatype middleware = ApiKeyMiddleware | CorsMiddleware "string list" bool

record web_app =
  wa_version :: string
  wa_middleware :: "middleware list"
  wa_routers :: "string list"

definition add_middleware :: "middleware \<Rightarrow> web_app \<Rightarrow> web_app" where
  "add_middleware m a = a\<lparr>wa_middleware := m # wa_middleware a\<rparr>"

definition create_app :: "string option \<Rightarrow> environment \<Rightarrow> web_app" where
  "create_app version env =
     (let a0 = \<lparr>wa_version = get_cp_version version, wa_middleware = [], wa_routers = []\<rparr>;
          a1 = add_middleware ApiKeyMiddleware a0;
          (origins, credentials) = cors_settings (ev_cors_origins env);
          a2 = add_middleware (CorsMiddleware origins credentials) a1 in
      a2\<lparr>wa_routers := [''health'', ''events'', ''runs'', ''incidents'', ''policies'', ''simulate'', ''replay'',
        ''export'', ''tenants'', ''rollouts'', ''ui'']\<rparr>)"

text \<open>What the exception handlers tell the client: the detail of an \<open>HTTPException\<close>, and of any other
  exception only in debug mode its text.\<close>

datatype detail = HttpDetail nat | ExceptionText py_error | InternalServerError

definition error_detail :: "string option \<Rightarrow> py_error \<Rightarrow> detail" where
  "error_detail debug e =
     (case e of
        HTTPException n \<Rightarrow> HttpDetail n
      | _ \<Rightarrow> if debug = Some ''1'' then ExceptionText e else InternalServerError)"

section \<open>Requests\<close>

datatype request =
    ReqHealth
  | ReqUi string
  | ReqEvents event_query
  | ReqRun string
  | ReqIncident string string
  | ReqPolicies int int
  | ReqPolicy string
  | ReqUpdatePolicy string policy_update
  | ReqSimulate "(string, pyval) pydict" "raw_step list"
  | ReqReplay string pyfloat pyfloat "(string, pyval) pydict option"
  | ReqExport int
  | ReqTenants
  | ReqTenant string
  | ReqCreateTenant string string "string option" "(string, pyval) pydict"
  | ReqUpdateTenant string "string option" "(string, pyval) pydict option"
  | ReqDeleteTenant string
  | ReqEffectivePolicy string
  | ReqRollouts "rollout_state option" int int
  | ReqRollout string
  | ReqCreateRollout "(string, pyval) pydict" string
  | ReqSimulateRollout string
  | ReqApproveRollout string string
  | ReqPromoteRollout string string
  | ReqActivateRollout string string
  | ReqRevokeRollout string string

fun request_path :: "request \<Rightarrow> string" where
  "request_path ReqHealth = ''/health''"
| "request_path (ReqUi page) = page"
| "request_path (ReqEvents _) = ''/events''"
| "request_path (ReqRun c) = ''/runs/'' @ c"
| "request_path (ReqIncident c s) = ''/incidents/'' @ c @ ''/'' @ s"
| "request_path (ReqPolicies _ _) = ''/policies''"
| "request_path (ReqPolicy c) = ''/policies/'' @ c"
| "request_path (ReqUpdatePolicy c _) = ''/policies/'' @ c"
| "request_path (ReqSimulate _ _) = ''/simulate''"
| "request_path (ReqReplay _ _ _ _) = ''/replay''"
| "request_path (ReqExport _) = ''/export''"
| "request_path ReqTenants = ''/tenants''"
| "request_path (ReqTenant i) = ''/tenants/'' @ i"
| "request_path (ReqCreateTenant _ _ _ _) = ''/tenants''"
| "request_path (ReqUpdateTenant i _ _) = ''/tenants/'' @ i"
| "request_path (ReqDeleteTenant i) = ''/tenants/'' @ i"
| "request_path (ReqEffectivePolicy i) = ''/tenants/'' @ i @ ''/effective-policy''"
| "request_path (ReqRollouts _ _ _) = ''/rollouts''"
| "request_path (ReqRollout i) = ''/rollouts/'' @ i"
| "request_path (ReqCreateRollout _ _) = ''/rollouts''"
| "request_path (ReqSimulateRollout i) = ''/rollouts/'' @ i @ ''/simulate''"
| "request_path (ReqApproveRollout i _) = ''/rollouts/'' @ i @ ''/approve''"
| "request_path (ReqPromoteRollout i _) = ''/rollouts/'' @ i @ ''/promote''"
| "request_path (ReqActivateRollout i _) = ''/rollouts/'' @ i @ ''/activate''"
| "request_path (ReqRevokeRollout i _) = ''/rollouts/'' @ i @ ''/revoke''"

definition UI_PAGES :: "(string \<times> string) list" where
  "UI_PAGES = [(''/ui/'', ''index.html''), (''/ui/events'', ''events.html''), (''/ui/incident'', ''incident.html''),
     (''/ui/policies'', ''policies.html''), (''/ui/replay'', ''replay.html''), (''/ui/rollouts'', ''rollouts.html'')]"

text \<open>The patterns and lengths of path and body parameters; a pattern matches the whole string.\<close>

definition alnum :: "char \<Rightarrow> bool" where
  "alnum c \<longleftrightarrow> is_digit c \<or> is_upper c \<or> is_lower c"

definition tenant_id_ok :: "string \<Rightarrow> bool" where
  "tenant_id_ok s \<longleftrightarrow> s \<noteq> [] \<and> length s \<le> 128 \<and> list_all (\<lambda>c. alnum c \<or> c \<in> set ''_-'') s"

definition tenant_name_ok :: "string \<Rightarrow> bool" where
  "tenant_name_ok s \<longleftrightarrow> s \<noteq> [] \<and> length s \<le> 256"

definition actor_ok :: "string \<Rightarrow> bool" where
  "actor_ok s \<longleftrightarrow> s \<noteq> [] \<and> length s \<le> 256 \<and> list_all (\<lambda>c. alnum c \<or> c \<in> set ''@._-'') s"

definition is_uuid :: "string \<Rightarrow> bool" where
  "is_uuid s \<longleftrightarrow> map length (split_on CHR ''-'' s) = [8, 4, 4, 4, 12] \<and>
     list_all (\<lambda>c. c = CHR ''-'' \<or> is_digit c \<or> (97 \<le> code c \<and> code c \<le> 102)) s"

definition MAX_EXPORT_EVENTS :: int where "MAX_EXPORT_EVENTS = 100000"

fun params_ok :: "request \<Rightarrow> bool" where
  "params_ok (ReqRun c) = path_id_ok c"
| "params_ok (ReqIncident c s) = (path_id_ok c \<and> path_id_ok s)"
| "params_ok (ReqPolicies page per_page) = (1 \<le> page \<and> 1 \<le> per_page \<and> per_page \<le> 200)"
| "params_ok (ReqPolicy c) = path_id_ok c"
| "params_ok (ReqUpdatePolicy c _) = path_id_ok c"
| "params_ok (ReqExport limit) = (1 \<le> limit \<and> limit \<le> MAX_EXPORT_EVENTS)"
| "params_ok (ReqTenant i) = tenant_id_ok i"
| "params_ok (ReqCreateTenant i name parent _) =
     (tenant_id_ok i \<and> tenant_name_ok name \<and> (case parent of None \<Rightarrow> True | Some p \<Rightarrow> tenant_id_ok p))"
| "params_ok (ReqUpdateTenant i name _) =
     (tenant_id_ok i \<and> (case name of None \<Rightarrow> True | Some n \<Rightarrow> tenant_name_ok n))"
| "params_ok (ReqDeleteTenant i) = tenant_id_ok i"
| "params_ok (ReqEffectivePolicy i) = tenant_id_ok i"
| "params_ok (ReqRollouts _ page per_page) = (1 \<le> page \<and> 1 \<le> per_page \<and> per_page \<le> 200)"
| "params_ok (ReqRollout i) = is_uuid i"
| "params_ok (ReqCreateRollout _ by) = actor_ok by"
| "params_ok (ReqSimulateRollout i) = is_uuid i"
| "params_ok (ReqApproveRollout i actor) = (is_uuid i \<and> actor_ok actor)"
| "params_ok (ReqPromoteRollout i actor) = (is_uuid i \<and> actor_ok actor)"
| "params_ok (ReqActivateRollout i actor) = (is_uuid i \<and> actor_ok actor)"
| "params_ok (ReqRevokeRollout i actor) = (is_uuid i \<and> actor_ok actor)"
| "params_ok _ = True"

text \<open>What the service of a request takes from outside.\<close>

record world =
  wd_hasher :: hasher
  wd_json_length :: "(string, pyval) pydict \<Rightarrow> nat option"
  wd_now :: pyfloat
  wd_step_now :: "nat \<Rightarrow> pyfloat"
  wd_now_us :: int
  wd_uuid :: string
  wd_isoformat :: "int \<Rightarrow> string"
  wd_lax_int :: lax_int
  wd_lax_float :: lax_float
  wd_version :: "string option"
  wd_kernel :: "kernel_module option"
  wd_monotonic :: pyfloat
  wd_start_time :: pyfloat

section \<open>Handlers\<close>

record health =
  he_ok :: bool
  he_version :: string
  he_kernel_version :: string
  he_uptime :: pyfloat
  he_immutable_config :: bool
  he_startup_valid :: bool
  he_store_ok :: bool
  he_kernel_compat :: compat
  he_active_chains :: nat
  he_circuit_state :: "string option"

datatype body =
    HealthBody health
  | FileBody string
  | RedirectBody string
  | EventsBody "event_item list" nat nat nat bool
  | RunBody run_detail
  | IncidentBody incident_detail
  | PoliciesBody "policy_summary list" nat int int
  | PolicyBody policy_response
  | SimulateBody sim_response
  | ReplayBody replay_result
  | ExportBody export_payload
  | TenantsBody "tenant_response list"
  | TenantBody tenant_response
  | EffectiveBody effective_policy
  | RolloutsBody "rollout_response list" nat int int
  | RolloutBody rollout_response
  | NoContent

definition as_body :: "('a \<Rightarrow> body) \<Rightarrow> 'a result \<Rightarrow> body result" where
  "as_body f r = (case r of Inl e \<Rightarrow> Inl e | Inr x \<Rightarrow> Inr (f x))"

definition app_events :: "application \<Rightarrow> cp_outcome list" where
  "app_events app = cp_snapshot (ingestor_store (ap_ingestor app))"

definition app_registry :: "application \<Rightarrow> registry" where
  "app_registry app = ca_registry (ap_control app)"

definition app_strict :: "application \<Rightarrow> bool" where
  "app_strict app = ds_strict (rg_distributor (app_registry app))"

definition check_store :: "app_store option \<Rightarrow> bool" where
  \<comment> \<open>both stores have a \<open>build_history\<close>\<close>
  "check_store st \<longleftrightarrow> st \<noteq> None"

definition health_body :: "environment \<Rightarrow> world \<Rightarrow> application \<Rightarrow> health" where
  "health_body env w app =
     (let store_ok = check_store (Some (ap_store app)); kernel_version = get_kernel_version (wd_kernel w) in
      \<lparr>he_ok = health_ok store_ok kernel_version, he_version = get_cp_version (wd_version w),
       he_kernel_version = kernel_version, he_uptime = round2 (fsub (wd_monotonic w) (wd_start_time w)),
       he_immutable_config = is_immutable_config (ev_immutable_config env),
       he_startup_valid = ap_startup_valid app, he_store_ok = store_ok,
       he_kernel_compat = check_kernel_compat kernel_version,
       he_active_chains = count_active_chains (wd_now w) (Some (app_events app)),
       he_circuit_state = get_circuit_state (wd_kernel w)\<rparr>)"

definition ui_page :: "string \<Rightarrow> body result" where
  "ui_page page =
     (if page = ''/'' then Inr (RedirectBody ''/ui/'')
      else case dget UI_PAGES page of None \<Rightarrow> Inl (HTTPException 404) | Some f \<Rightarrow> Inr (FileBody f))"

definition events_to_response :: "events_response \<Rightarrow> body" where
  "events_to_response r =
     EventsBody (map from_outcome (er_items r)) (er_total r) (er_offset r) (er_limit r) (er_truncated r)"

fun json_value :: "pyval \<Rightarrow> bool" where
  \<comment> \<open>\<open>JSONResponse\<close> refuses a float that is not finite\<close>
  "json_value (VFloat x) = isfinite x"
| "json_value (VList vs) = list_all json_value vs"
| "json_value (VDict d) = list_all (\<lambda>kv. json_value (snd kv)) d"
| "json_value _ = True"

definition json_compliant :: "(string, pyval) pydict \<Rightarrow> bool" where
  "json_compliant d \<longleftrightarrow> json_value (VDict d)"

definition export_response :: "world \<Rightarrow> application \<Rightarrow> int \<Rightarrow> body result" where
  "export_response w app limit =
     (let x = export_data (wd_now w) (get_cp_version (wd_version w)) (\<lambda>_. app_registry app) (nat limit) (Some (app_events app)) in
      if list_all json_compliant (xp_policies x) \<and> list_all json_compliant (xp_events x)
      then Inr (ExportBody x) else Inl ValueError)"

definition list_policies_response :: "world \<Rightarrow> application \<Rightarrow> int \<Rightarrow> int \<Rightarrow> body result" where
  "list_policies_response w app page per_page =
     (let (items, n) = list_policies_endpoint (app_registry app) (nat page) (nat per_page) in
      if list_all (summary_ok (wd_lax_int w) (wd_lax_float w)) items
      then Inr (PoliciesBody items n page per_page) else Inl ValueError)"

definition policy_body :: "world \<Rightarrow> policy_response result \<Rightarrow> body result" where
  "policy_body w r = as_body PolicyBody (rbind r (policy_response_model (wd_lax_int w) (wd_lax_float w)))"

definition list_rollouts :: "world \<Rightarrow> application \<Rightarrow> rollout_state option \<Rightarrow> int \<Rightarrow> int \<Rightarrow> body" where
  "list_rollouts w app st page per_page =
     (let (items, n) = rollout_list_all (ca_rollouts (ap_control app)) st page per_page in
      RolloutsBody (map (rollout_to_response (wd_isoformat w)) items) n page per_page)"

definition rollout_body :: "world \<Rightarrow> rollout result \<Rightarrow> body result" where
  "rollout_body w r = as_body (\<lambda>x. RolloutBody (rollout_to_response (wd_isoformat w) x)) r"

definition tenant_body :: "tenant_node result \<Rightarrow> body result" where
  "tenant_body r = as_body (\<lambda>t. TenantBody (tenant_to_response t)) r"

definition effective_body :: "world \<Rightarrow> application \<Rightarrow> string \<Rightarrow> body result" where
  "effective_body w app i =
     as_body EffectiveBody (rbind (get_effective_policy (wd_now w) (ap_tenants app) i)
       (policy_to_response (wd_lax_int w) (wd_lax_float w) i))"

definition simulate_body :: "world \<Rightarrow> application \<Rightarrow> (string, pyval) pydict \<Rightarrow> raw_step list \<Rightarrow> body result" where
  "simulate_body w app p raws =
     as_body SimulateBody (rbind (parse_steps (wd_lax_int w) raws)
       (simulate (fst (wd_hasher w)) (wd_now w) (wd_step_now w) (app_strict app) p))"

definition with_control ::
  "(control_app \<Rightarrow> rollout result \<times> control_app) \<Rightarrow> world \<Rightarrow> application \<Rightarrow> body result \<times> application" where
  "with_control f w app = (let (r, c) = f (ap_control app) in (rollout_body w r, app\<lparr>ap_control := c\<rparr>))"

definition with_tenants ::
  "(tenants \<Rightarrow> 'a result \<times> tenants) \<Rightarrow> ('a result \<Rightarrow> body result) \<Rightarrow> application \<Rightarrow> body result \<times> application" where
  "with_tenants f g app = (let (r, ts) = f (ap_tenants app) in (g r, app\<lparr>ap_tenants := ts\<rparr>))"

definition update_policy ::
  "environment \<Rightarrow> world \<Rightarrow> string \<Rightarrow> policy_update \<Rightarrow> application \<Rightarrow> body result \<times> application" where
  \<comment> \<open>the body parsed, the registry updated, then the response model built\<close>
  "update_policy env w c u app =
     (case validate_fields (schema_check (path_id_ok c) # update_fields (wd_lax_int w) u) of
        Inl e \<Rightarrow> (Inl e, app)
      | Inr _ \<Rightarrow>
          (let (r, reg) = update_policy_endpoint (wd_hasher w) (ev_immutable_config env) (wd_now w) c
                 (parsed_update (wd_lax_int w) u) (app_registry app) in
           (policy_body w r, app\<lparr>ap_control := (ap_control app)\<lparr>ca_registry := reg\<rparr>\<rparr>)))"

fun handle :: "environment \<Rightarrow> world \<Rightarrow> request \<Rightarrow> application \<Rightarrow> body result \<times> application" where
  "handle env w ReqHealth app = (Inr (HealthBody (health_body env w app)), app)"
| "handle env w (ReqUi page) app = (ui_page page, app)"
| "handle env w (ReqEvents q) app = (as_body events_to_response (list_events q (app_events app)), app)"
| "handle env w (ReqRun c) app = (as_body RunBody (get_run (wd_now w) (app_events app) c), app)"
| "handle env w (ReqIncident c s) app = (as_body IncidentBody (get_incident (app_events app) c s), app)"
| "handle env w (ReqPolicies page per_page) app = (list_policies_response w app page per_page, app)"
| "handle env w (ReqPolicy c) app = (policy_body w (get_policy_endpoint (app_registry app) c), app)"
| "handle env w (ReqUpdatePolicy c u) app = update_policy env w c u app"
| "handle env w (ReqSimulate p raws) app = (simulate_body w app p raws, app)"
| "handle env w (ReqReplay c lo hi ov) app =
     (as_body ReplayBody (replay_endpoint (wd_now w) (app_strict app) (app_events app) c lo hi ov), app)"
| "handle env w (ReqExport limit) app = (export_response w app limit, app)"
| "handle env w ReqTenants app =
     (Inr (TenantsBody (map tenant_to_response (tenant_list_all (ap_tenants app)))), app)"
| "handle env w (ReqTenant i) app = (tenant_body (get_tenant (ap_tenants app) i), app)"
| "handle env w (ReqCreateTenant i name parent d) app =
     with_tenants (create_tenant (wd_now w) i name parent d) tenant_body app"
| "handle env w (ReqUpdateTenant i name d) app = with_tenants (update_tenant i name d) tenant_body app"
| "handle env w (ReqDeleteTenant i) app = with_tenants (delete_tenant i) (as_body (\<lambda>_. NoContent)) app"
| "handle env w (ReqEffectivePolicy i) app = (effective_body w app i, app)"
| "handle env w (ReqRollouts st page per_page) app = (Inr (list_rollouts w app st page per_page), app)"
| "handle env w (ReqRollout i) app = (rollout_body w (get_rollout_or_404 (ap_control app) i), app)"
| "handle env w (ReqCreateRollout p by) app =
     with_control (create_rollout (wd_uuid w) (wd_now_us w) (wd_now w) p by) w app"
| "handle env w (ReqSimulateRollout i) app =
     with_control (simulate_rollout (wd_hasher w) (wd_json_length w) (wd_now w) (wd_now_us w) i) w app"
| "handle env w (ReqApproveRollout i actor) app = with_control (approve_rollout i actor (wd_now_us w)) w app"
| "handle env w (ReqPromoteRollout i actor) app = with_control (promote_rollout i actor (wd_now_us w)) w app"
| "handle env w (ReqActivateRollout i actor) app =
     with_control (activate_rollout (wd_hasher w) (wd_now w) (wd_now_us w) i actor) w app"
| "handle env w (ReqRevokeRollout i actor) app = with_control (revoke_rollout i actor (wd_now_us w)) w app"

section \<open>Service\<close>

fun success_status :: "request \<Rightarrow> nat" where
  "success_status (ReqCreateTenant _ _ _ _) = 201"
| "success_status (ReqCreateRollout _ _) = 201"
| "success_status (ReqDeleteTenant _) = 204"
| "success_status (ReqUi page) = (if page = ''/'' then 307 else 200)"
| "success_status _ = 200"

definition error_status :: "py_error \<Rightarrow> nat" where
  \<comment> \<open>\<open>http_exception_handler\<close> and \<open>generic_exception_handler\<close>\<close>
  "error_status e = (case e of HTTPException n \<Rightarrow> n | _ \<Rightarrow> 500)"

definition respond :: "request \<Rightarrow> body result \<Rightarrow> nat \<times> body option" where
  "respond rq r = (case r of Inl e \<Rightarrow> (error_status e, None) | Inr b \<Rightarrow> (success_status rq, Some b))"

fun validates_itself :: "request \<Rightarrow> bool" where
  \<comment> \<open>its parameters are checked together with its body\<close>
  "validates_itself (ReqUpdatePolicy _ _) = True"
| "validates_itself _ = False"

definition serve ::
  "environment \<Rightarrow> world \<Rightarrow> string option \<Rightarrow> request \<Rightarrow> application \<Rightarrow> (nat \<times> body option) \<times> application" where
  "serve env w header rq app =
     (let (d, warned, n) = dispatch (ev_auth env) (request_path rq) header (ap_warned app);
          app1 = app\<lparr>ap_warned := warned\<rparr> in
      case d of
        Rejected status \<Rightarrow> ((status, None), app1)
      | Forwarded \<Rightarrow>
          if \<not> params_ok rq \<and> \<not> validates_itself rq then ((422, None), app1)
          else (let (r, app2) = handle env w rq app1 in (respond rq r, app2)))"

fun serve_all ::
  "environment \<Rightarrow> (world \<times> string option \<times> request) list \<Rightarrow> application \<Rightarrow> (nat \<times> body option) list \<times> application" where
  "serve_all env [] app = ([], app)"
| "serve_all env ((w, header, rq) # rs) app =
     (let (a, app1) = serve env w header rq app;
          (as, app2) = serve_all env rs app1 in (a # as, app2))"

end
