(* ===== verification/Application_Safety.thy ===== *)
theory Application_Safety
  imports Application
begin

text \<open>
  What the requests do to the shared state: which of them only read, what the middleware keeps out,
  and the invariants that hold of every component together, whatever requests were served.
\<close>

section \<open>Reads\<close>

fun reads :: "request \<Rightarrow> bool" where
  "reads (ReqUpdatePolicy _ _) = False"
| "reads (ReqCreateTenant _ _ _ _) = False"
| "reads (ReqUpdateTenant _ _ _) = False"
| "reads (ReqDeleteTenant _) = False"
| "reads (ReqCreateRollout _ _) = False"
| "reads (ReqSimulateRollout _) = False"
| "reads (ReqApproveRollout _ _) = False"
| "reads (ReqPromoteRollout _ _) = False"
| "reads (ReqActivateRollout _ _) = False"
| "reads (ReqRevokeRollout _ _) = False"
| "reads _ = True"

lemma handle_reads: "reads rq \<Longrightarrow> snd (handle env w rq app) = app"
  by (cases rq) simp_all

lemma serve_state:
  "snd (serve env w header rq app) = app\<lparr>ap_warned := ap_warned (snd (serve env w header rq app))\<rparr> \<or>
   (\<exists>warned. snd (serve env w header rq app) = snd (handle env w rq (app\<lparr>ap_warned := warned\<rparr>)) \<and>
      (params_ok rq \<or> validates_itself rq))"
  by (auto simp: serve_def Let_def case_prod_unfold split: auth_response.splits)

lemma serve_reads:
  "reads rq \<Longrightarrow> snd (serve env w header rq app) = app\<lparr>ap_warned := ap_warned (snd (serve env w header rq app))\<rparr>"
  using serve_state [of env w header rq app] by (auto simp: handle_reads)

section \<open>The middleware\<close>

definition credentials_ok :: "environment \<Rightarrow> string option \<Rightarrow> bool" where
  "credentials_ok env header \<longleftrightarrow>
     (case ae_api_key (ev_auth env) of None \<Rightarrow> is_auth_disabled (ev_auth env)
      | Some key \<Rightarrow> key \<noteq> [] \<and> header = Some key)"

lemma prefix_rstrip: "prefix (rstrip_slash path) path"
  unfolding rstrip_slash_def prefix_def
  by (metis rev_append rev_rev_ident takeWhile_dropWhile_id)

lemma exempt_prefix:
  assumes "is_exempt path"
  shows "\<exists>e \<in> set (EXEMPT_EXACT @ EXEMPT_PREFIXES). prefix e path"
proof -
  consider "rstrip_slash path \<in> set EXEMPT_EXACT"
    | p where "p \<in> set EXEMPT_PREFIXES" "strict_prefix p (rstrip_slash path)"
    using assms unfolding is_exempt_iff by blast
  then show ?thesis
  proof cases
    case 1
    then show ?thesis using prefix_rstrip by auto
  next
    case 2
    then have "prefix p path" using prefix_rstrip [of path] by (meson prefix_order.le_less_trans prefix_order.less_imp_le prefix_order.order_trans)
    then show ?thesis using 2(1) by auto
  qed
qed

fun open_route :: "request \<Rightarrow> bool" where
  "open_route ReqHealth = True"
| "open_route (ReqUi _) = True"
| "open_route _ = False"

lemma exempt_open: "is_exempt (request_path rq) \<Longrightarrow> open_route rq"
  by (drule exempt_prefix, cases rq) (auto simp: EXEMPT_EXACT_def EXEMPT_PREFIXES_def)

lemma open_reads: "open_route rq \<Longrightarrow> reads rq"
  by (cases rq) simp_all

lemma dispatch_exempt: "is_exempt path \<Longrightarrow> dispatch env path header warned = (Forwarded, warned, 0)"
  by (simp add: dispatch_def)

lemma dispatch_rejected:
  assumes "\<not> is_exempt path" "\<not> credentials_ok env header"
  shows "\<exists>status. dispatch (ev_auth env) path header warned = (Rejected status, warned, 0) \<and>
    status = (if ae_api_key (ev_auth env) = None then 503 else 401)"
  using assms by (cases header) (auto simp: dispatch_def credentials_ok_def Let_def split: option.splits)

lemma serve_unauthorised:
  assumes "\<not> credentials_ok env header"
  shows "snd (serve env w header rq app) = app \<and>
    (\<not> open_route rq \<longrightarrow>
       fst (serve env w header rq app) = (if ae_api_key (ev_auth env) = None then 503 else 401, None))"
proof (cases "is_exempt (request_path rq)")
  case True
  then have "reads rq" "open_route rq" using exempt_open open_reads by blast+
  then show ?thesis
    using True by (auto simp: serve_def dispatch_exempt handle_reads case_prod_unfold)
next
  case False
  then show ?thesis
    using dispatch_rejected [OF False assms, of "ap_warned app"] by (auto simp: serve_def)
qed

lemma serve_all_unauthorised:
  "\<forall>(w, header, rq) \<in> set rs. \<not> credentials_ok env header \<Longrightarrow>
   snd (serve_all env rs app) = app \<and>
   list_all2 (\<lambda>(w, header, rq) a. \<not> open_route rq \<longrightarrow>
       a = (if ae_api_key (ev_auth env) = None then 503 else 401, None)) rs (fst (serve_all env rs app))"
proof (induction env rs app rule: serve_all.induct)
  case (2 env w header rq rs app)
  then have un: "snd (serve env w header rq app) = app"
    "\<not> open_route rq \<longrightarrow> fst (serve env w header rq app) = (if ae_api_key (ev_auth env) = None then 503 else 401, None)"
    using serve_unauthorised [of env header] by auto
  with 2 show ?case by (cases "serve env w header rq app") (auto simp: case_prod_unfold)
qed simp

section \<open>The rollouts and the registry\<close>

text \<open>A rollout's policy never changes, and every live policy entered through a rollout.\<close>

definition keeps_policies :: "rollouts \<Rightarrow> rollouts \<Rightarrow> bool" where
  "keeps_policies s s' \<longleftrightarrow> (\<forall>x r. dget s x = Some r \<longrightarrow>
     (\<exists>r'. dget s' x = Some r' \<and> ro_policy_config r' = ro_policy_config r))"

lemma step_keeps_policies: "rollout_step s s' \<Longrightarrow> keeps_policies s s'"
  by (induction rule: rollout_step.induct)
    (auto simp: keeps_policies_def rollout_create_def new_rollout_def rollout_transition_def
      set_simulation_result_def rollout_simulate_def Let_def split: option.splits sum.splits)

lemma app_step_keeps_policies: "app_step hs c c' \<Longrightarrow> keeps_policies (ca_rollouts c) (ca_rollouts c')"
  using app_step_rollouts [of hs c c'] step_keeps_policies by (auto simp: keeps_policies_def)

definition live_from_rollouts :: "control_app \<Rightarrow> bool" where
  "live_from_rollouts c \<longleftrightarrow> (\<forall>chain b. dget (rg_store (ca_registry c)) chain = Some b \<longrightarrow>
     (\<exists>x r. dget (ca_rollouts c) x = Some r \<and> pc_chain_id (ro_policy_config r) = chain))"

lemma live_mono:
  assumes "live_from_rollouts c" "keeps_policies (ca_rollouts c) (ca_rollouts c')"
    and "\<And>chain b. dget (rg_store (ca_registry c')) chain = Some b \<Longrightarrow>
      dget (rg_store (ca_registry c)) chain \<noteq> None \<or>
      (\<exists>x r. dget (ca_rollouts c) x = Some r \<and> pc_chain_id (ro_policy_config r) = chain)"
  shows "live_from_rollouts c'"
  using assms unfolding live_from_rollouts_def keeps_policies_def by (metis not_None_eq)

lemma distribute_store: "rg_store (snd (registry_distribute hs now p s)) = rg_store s"
  by (simp add: registry_distribute_def case_prod_unfold Let_def)

lemma register_store:
  "dget (rg_store (snd (register hs now p s))) c = Some b \<Longrightarrow> c = pc_chain_id p \<or> dget (rg_store s) c = Some b"
  using distribute_store [of hs now p s]
  by (auto simp: register_def store_bundle_def split: prod.splits sum.splits if_splits)

lemma simulate_registry:
  "rg_store (ca_registry (snd (simulate_rollout hs jl now_s now rid c))) = rg_store (ca_registry c)"
  using distribute_store by (auto simp: simulate_rollout_def case_prod_unfold Let_def split: sum.splits)

lemma activate_registry:
  "ca_registry (snd (activate_rollout hs now_s now rid actor c)) =
     (case dget (ca_rollouts c) rid of None \<Rightarrow> ca_registry c
      | Some r \<Rightarrow> snd (register hs now_s (ro_policy_config r) (ca_registry c)))"
  by (auto simp: activate_rollout_def get_rollout_or_404_def rollout_get_def case_prod_unfold Let_def
      do_transition_app split: option.splits sum.splits)

lemma create_registry: "ca_registry (snd (create_rollout uuid now issued p by_whom c)) = ca_registry c"
  by (auto simp: create_rollout_def case_prod_unfold Let_def split: sum.splits)

lemma app_step_live:
  assumes "app_step hs c c'" "live_from_rollouts c"
  shows "live_from_rollouts c'"
proof (rule live_mono [OF assms(2) app_step_keeps_policies [OF assms(1)]])
  fix chain b assume "dget (rg_store (ca_registry c')) chain = Some b"
  with assms(1) show "dget (rg_store (ca_registry c)) chain \<noteq> None \<or>
      (\<exists>x r. dget (ca_rollouts c) x = Some r \<and> pc_chain_id (ro_policy_config r) = chain)"
    by (cases rule: app_step.cases)
      (auto simp: create_registry simulate_registry activate_registry approve_rollout_def
        promote_rollout_def revoke_rollout_def do_transition_app split: option.splits dest: register_store)
qed

lemma registry_distribute_inv: "registry_inv s \<Longrightarrow> registry_inv (snd (registry_distribute hs now p s))"
proof (cases "registry_distribute hs now p s")
  case (Pair r s')
  then show "registry_inv s \<Longrightarrow> registry_inv (snd (registry_distribute hs now p s))"
  proof (cases r)
    case (Inl e)
    then show "registry_inv s \<Longrightarrow> ?thesis" using Pair registry_distribute_fail [of hs now p s e s'] by simp
  next
    case (Inr b)
    note d = registry_distribute_ok [OF Pair [unfolded Inr]]
    show "registry_inv s \<Longrightarrow> ?thesis"
      unfolding Pair snd_conv d(5) by (auto simp: registry_inv_def intro: le_SucI)
  qed
qed

lemma app_step_registry:
  assumes "app_step hs c c'" "registry_inv (ca_registry c)"
  shows "registry_inv (ca_registry c')"
proof -
  have sim: "ca_registry (snd (simulate_rollout hs jl now_s now rid c)) = ca_registry c \<or>
      (\<exists>p. ca_registry (snd (simulate_rollout hs jl now_s now rid c)) =
         snd (registry_distribute hs now_s p (ca_registry c)))" for jl now_s now rid
    by (auto simp: simulate_rollout_def case_prod_unfold Let_def split: sum.splits)
  show ?thesis
    using assms
  proof (cases rule: app_step.cases)
    case (app_simulate jl now_s now rid)
    then show ?thesis using sim [of jl now_s now rid] registry_distribute_inv assms(2) by metis
  qed (auto simp: create_registry activate_registry approve_rollout_def promote_rollout_def
      revoke_rollout_def do_transition_app split: option.splits intro: register_inv)
qed

definition control_ok :: "control_app \<Rightarrow> bool" where
  "control_ok c \<longleftrightarrow> rollout_reach (ca_rollouts c) \<and>
     (\<forall>x r. dget (ca_rollouts c) x = Some r \<longrightarrow> simulated_ok r) \<and>
     registry_inv (ca_registry c) \<and> live_from_rollouts c"

lemma app_step_control:
  assumes "app_step hs c c'" "control_ok c"
  shows "control_ok c'"
proof -
  have "rollout_reach (ca_rollouts c')"
    using app_step_rollouts [OF assms(1)] assms(2) reach_next by (metis control_ok_def)
  moreover have "\<forall>x r. dget (ca_rollouts c') x = Some r \<longrightarrow> simulated_ok r"
    using app_step_simulated_ok [OF assms(1)] assms(2) by (simp add: control_ok_def)
  moreover have "registry_inv (ca_registry c')"
    using app_step_registry [OF assms(1)] assms(2) by (simp add: control_ok_def)
  moreover have "live_from_rollouts c'"
    using app_step_live [OF assms(1)] assms(2) by (simp add: control_ok_def)
  ultimately show ?thesis by (simp add: control_ok_def)
qed

text \<open>The update endpoint changes only the registry, and only a policy that is already live.\<close>

lemma update_endpoint_registry:
  assumes "registry_inv s"
  shows "registry_inv (snd (update_policy_endpoint hs e now c u s)) \<and>
    (\<forall>chain. dget (rg_store (snd (update_policy_endpoint hs e now c u s))) chain \<noteq> None \<longrightarrow>
       dget (rg_store s) chain \<noteq> None)"
proof (cases "is_immutable_config e")
  case False
  have "\<forall>chain. dget (rg_store (snd (registry_update hs now c u s))) chain \<noteq> None \<longrightarrow> dget (rg_store s) chain \<noteq> None"
  proof (rule registry_update_cases [of hs now c u s])
    fix existing b s'
    assume "dget (rg_store s) c = Some existing"
      and d: "registry_distribute hs now (apply_update now u (pb_policy existing)) s = (Inr b, s')"
      and r: "registry_update hs now c u s = (Inr b, store_bundle c b s')"
    moreover have "rg_store s' = rg_store s"
      using distribute_store [of hs now "apply_update now u (pb_policy existing)" s] d by simp
    ultimately show ?thesis by (auto simp: store_bundle_def)
  qed simp
  then show ?thesis
    using False registry_update_inv [OF assms] by (simp add: update_policy_endpoint_def case_prod_unfold Let_def)
qed (simp add: update_policy_endpoint_def assms)

section \<open>The whole state\<close>

definition app_ok :: "application \<Rightarrow> bool" where
  "app_ok app \<longleftrightarrow> forest (ap_tenants app) \<and> control_ok (ap_control app)"

lemma app_ok_sel [simp]:
  "app_ok (app\<lparr>ap_warned := b\<rparr>) = app_ok app" "app_ok (app\<lparr>ap_ingestor := g\<rparr>) = app_ok app"
  by (simp_all add: app_ok_def)

lemma update_policy_ok: "app_ok app \<Longrightarrow> app_ok (snd (update_policy env w c u app))"
  using update_endpoint_registry [of "app_registry app" "wd_hasher w" "ev_immutable_config env" "wd_now w" c]
  by (auto simp: update_policy_def app_ok_def control_ok_def app_registry_def live_from_rollouts_def
      case_prod_unfold Let_def split: sum.splits)

lemma with_control_ok:
  "app_ok app \<Longrightarrow> app_step hs (ap_control app) (snd (f (ap_control app))) \<Longrightarrow> app_ok (snd (with_control f w app))"
  using app_step_control by (auto simp: with_control_def app_ok_def case_prod_unfold Let_def)

lemma with_tenants_ok:
  "app_ok app \<Longrightarrow> forest (snd (f (ap_tenants app))) \<Longrightarrow> app_ok (snd (with_tenants f g app))"
  by (simp add: with_tenants_def app_ok_def case_prod_unfold Let_def)

lemma create_tenant_forest: "forest ts \<Longrightarrow> forest (snd (create_tenant now i name parent d ts))"
  by (auto simp: create_tenant_def Let_def case_prod_unfold forest_register split: sum.splits)

lemma delete_tenant_forest: "forest ts \<Longrightarrow> forest (snd (delete_tenant i ts))"
  by (simp add: delete_tenant_def Let_def case_prod_unfold forest_delete)

lemma app_ok_forest: "app_ok app \<Longrightarrow> forest (ap_tenants app)"
  by (simp add: app_ok_def)

lemma handle_ok:
  assumes "app_ok app" "dget (ca_rollouts (ap_control app)) (wd_uuid w) = None"
  shows "app_ok (snd (handle env w rq app))"
proof (cases "reads rq")
  case True
  then show ?thesis using handle_reads assms(1) by simp
next
  case False
  note step = with_control_ok [OF assms(1), of "wd_hasher w"]
    and tenants = with_tenants_ok [OF assms(1)] and forest = app_ok_forest [OF assms(1)]
  show ?thesis
    using False
    by (cases rq)
      (simp_all add: update_policy_ok [OF assms(1)] step tenants app_create [OF assms(2)] app_simulate
        app_approve app_promote app_activate app_revoke create_tenant_forest [OF forest]
        update_tenant_forest [OF forest] delete_tenant_forest [OF forest])
qed

lemma serve_ok:
  assumes "app_ok app" "dget (ca_rollouts (ap_control app)) (wd_uuid w) = None"
  shows "app_ok (snd (serve env w header rq app))"
proof -
  have "app_ok (snd (handle env w rq (app\<lparr>ap_warned := b\<rparr>)))" for b
    using assms by (intro handle_ok) simp_all
  moreover have "app_ok (app\<lparr>ap_warned := b\<rparr>)" for b using assms(1) by simp
  ultimately show ?thesis using serve_state [of env w header rq app] by metis
qed

text \<open>The states of a process: started, then requests served (with fresh identifiers) and kernel
  events ingested in any order.\<close>

inductive app_runs :: "environment \<Rightarrow> application \<Rightarrow> bool" for env where
  runs_start: "lifespan_start env conn warned = Inr app \<Longrightarrow> app_runs env app"
| runs_serve: "app_runs env app \<Longrightarrow> dget (ca_rollouts (ap_control app)) (wd_uuid w) = None \<Longrightarrow>
    app_runs env (snd (serve env w header rq app))"
| runs_ingest: "app_runs env app \<Longrightarrow> app_runs env (app\<lparr>ap_ingestor := g\<rparr>)"

lemma lifespan_start_ok: "lifespan_start env conn warned = Inr app \<Longrightarrow> app_ok app"
  by (auto simp: lifespan_start_def rbind_Inr_iff app_ok_def control_ok_def forest_empty reach_empty
      registry_inv_def new_registry_def live_from_rollouts_def)

lemma app_runs_ok: "app_runs env app \<Longrightarrow> app_ok app"
  by (induction rule: app_runs.induct) (simp_all add: lifespan_start_ok serve_ok)

section \<open>An authorised request\<close>

lemma serve_authorised:
  assumes "credentials_ok env header"
  shows "\<exists>warned. serve env w header rq app =
    (if \<not> params_ok rq \<and> \<not> validates_itself rq then ((422, None), app\<lparr>ap_warned := warned\<rparr>)
     else (respond rq (fst (handle env w rq (app\<lparr>ap_warned := warned\<rparr>))),
           snd (handle env w rq (app\<lparr>ap_warned := warned\<rparr>))))"
proof -
  have "fst (dispatch (ev_auth env) (request_path rq) header (ap_warned app)) = Forwarded"
    using assms by (simp add: dispatch_forwarded_iff credentials_ok_def)
  then show ?thesis by (auto simp: serve_def Let_def case_prod_unfold)
qed

lemma respond_status: "fst (respond rq r) = (case r of Inl e \<Rightarrow> error_status e | Inr _ \<Rightarrow> success_status rq)"
  by (simp add: respond_def split: sum.splits)

text \<open>The policy of a rollout is live after its activation, whatever the answer.\<close>

lemma activate_live:
  assumes "dget (ca_rollouts c) i = Some r" "valid_policy (ds_strict (rg_distributor (ca_registry c))) (ro_policy_config r)"
  shows "\<exists>b. get_policy (ca_registry (snd (activate_rollout hs now_s now i actor c))) (pc_chain_id (ro_policy_config r)) = Some b \<and>
    pb_policy b = ro_policy_config r"
proof -
  have "is_ok (fst (distribute (fst hs) (snd hs) now_s (ro_policy_config r) (rg_distributor (ca_registry c))))"
    using assms(2) distribute_ok_iff by blast
  then obtain b where "fst (register hs now_s (ro_policy_config r) (ca_registry c)) = Inr b"
    by (auto simp: register_def registry_distribute_def is_ok_iff case_prod_unfold Let_def)
  from register_get [OF this] show ?thesis by (simp add: activate_registry assms(1))
qed

lemma serve_activate:
  assumes "credentials_ok env header" "is_uuid i" "actor_ok actor"
    and "dget (ca_rollouts (ap_control app)) i = Some r" "valid_policy (app_strict app) (ro_policy_config r)"
  shows "\<exists>b. get_policy (app_registry (snd (serve env w header (ReqActivateRollout i actor) app)))
      (pc_chain_id (ro_policy_config r)) = Some b \<and> pb_policy b = ro_policy_config r"
proof -
  obtain warned where "snd (serve env w header (ReqActivateRollout i actor) app) =
      snd (handle env w (ReqActivateRollout i actor) (app\<lparr>ap_warned := warned\<rparr>))"
    using serve_authorised [OF assms(1), of w "ReqActivateRollout i actor" app] assms(2,3) by auto
  then show ?thesis
    using activate_live [of "ap_control app" i r "wd_hasher w" "wd_now w" "wd_now_us w" actor] assms(4,5)
    by (simp add: with_control_def case_prod_unfold Let_def app_registry_def app_strict_def)
qed

text \<open>How the creation of a tenant is answered.\<close>

lemma register_answer:
  assumes "forest ts"
  shows "fst (tenant_register t ts) =
    (if dget ts (tn_id t) \<noteq> None then Inl ValueError
     else case tn_parent_id t of None \<Rightarrow> Inr t
      | Some p \<Rightarrow> if dget ts p = None then Inl ValueError
                  else if \<exists>xs. ancestry ts p xs \<and> length xs < MAX_DEPTH then Inr t else Inl RuntimeError)"
proof (cases "tn_parent_id t")
  case (Some p)
  show ?thesis
  proof (cases "dget ts p")
    case (Some n)
    then obtain xs where xs: "ancestry ts p xs" using assms by (auto simp: forest_def)
    have "(\<exists>ys. ancestry ts p ys \<and> length ys < MAX_DEPTH) \<longleftrightarrow> length xs < MAX_DEPTH"
      using xs ancestry_unique [OF xs] by blast
    then show ?thesis
      using \<open>tn_parent_id t = Some p\<close> Some by (simp add: tenant_register_def walk_ancestry [OF xs])
  qed (simp add: tenant_register_def Some)
qed (simp add: tenant_register_def)

lemma create_tenant_answer:
  assumes "forest ts"
    and status_def: "status = (case fst (create_tenant now i name parent d ts) of Inl e \<Rightarrow> error_status e | Inr _ \<Rightarrow> 201)"
    and acceptable_def: "acceptable \<longleftrightarrow> validate_overrides d = Inr () \<and> dget ts i = None"
  shows "(status = 201 \<longleftrightarrow> acceptable \<and>
      (\<forall>p. parent = Some p \<longrightarrow> (\<exists>xs. ancestry ts p xs \<and> length xs < 100))) \<and>
    (status = 500 \<longleftrightarrow> acceptable \<and> (\<exists>p xs. parent = Some p \<and> ancestry ts p xs \<and> length xs = 100)) \<and>
    status \<in> {201, 422, 500}"
proof (cases "validate_overrides d")
  case (Inl e)
  then have "e = HTTPException 422" by (auto simp: validate_overrides_def split: if_splits)
  then show ?thesis using Inl by (simp add: status_def acceptable_def create_tenant_def error_status_def)
next
  case (Inr u)
  have none: "dget ts p = None \<Longrightarrow> \<not> ancestry ts p xs" for p xs using ancestry_mem by blast
  have depth: "\<exists>xs. ancestry ts p xs \<and> length xs \<le> 100" if "dget ts p = Some n" for p n
    using assms(1) that by (auto simp: forest_def MAX_DEPTH_def)
  have status: "status = (case fst (tenant_register
      \<lparr>tn_id = i, tn_name = name, tn_parent_id = parent, tn_policy_overrides = d, tn_created_at = now\<rparr> ts) of
        Inr _ \<Rightarrow> 201 | Inl e \<Rightarrow> if e = ValueError then 422 else error_status e)"
    using Inr by (auto simp: status_def create_tenant_def Let_def case_prod_unfold error_status_def split: sum.splits)
  show ?thesis
  proof (cases "dget ts i = None")
    case False
    then show ?thesis by (simp add: status register_answer [OF assms(1)] acceptable_def)
  next
    case new: True
    show ?thesis
    proof (cases parent)
      case None
      then show ?thesis using new Inr by (simp add: status register_answer [OF assms(1)] acceptable_def)
    next
      case (Some p)
      show ?thesis
      proof (cases "dget ts p")
        case None
        then show ?thesis using new Some Inr none
          by (simp add: status register_answer [OF assms(1)] acceptable_def)
      next
        case (Some n)
        then obtain xs where xs: "ancestry ts p xs" "length xs \<le> 100" using depth by blast
        then have one: "ancestry ts p ys \<longleftrightarrow> ys = xs" for ys using ancestry_unique by blast
        show ?thesis
          using Some new \<open>parent = Some p\<close> Inr xs(2)
          by (auto simp: status register_answer [OF assms(1)] acceptable_def MAX_DEPTH_def error_status_def one)
      qed
    qed
  qed
qed

section \<open>The export\<close>

lemma export_refused:
  assumes "get_policy (app_registry app) c = Some b" "pc_rate_window_seconds (pb_policy b) = VFloat x" "\<not> isfinite x"
    and "length (rg_store (app_registry app)) \<le> MAX_POLICY_PAGES * POLICY_PAGE_SIZE"
  shows "export_response w app limit = Inl ValueError"
proof -
  have "b \<in> set (dvalues (rg_store (app_registry app)))"
    using assms(1) by (force simp: get_policy_def dvalues_def dest: dget_in_set)
  moreover have "\<not> json_compliant (export_policy b)"
    using assms(2,3) by (simp add: json_compliant_def export_policy_def Let_def)
  ultimately have "\<not> list_all json_compliant (map export_policy (export_policies (\<lambda>_. app_registry app)))"
    by (auto simp: export_policies_all [OF assms(4)] list_all_iff)
  then show ?thesis by (simp add: export_response_def export_data_def case_prod_unfold Let_def)
qed

section \<open>The CORS settings\<close>

lemma split_on_no: "c \<notin> set s \<Longrightarrow> split_on c s = [s]"
  by (induction s) auto

lemma split_on_parts: "p \<in> set (split_on c s) \<Longrightarrow> c \<notin> set p"
  by (induction s arbitrary: p) (auto split: list.splits if_splits)

lemma create_app_middleware:
  "wa_middleware (create_app version env) =
     [CorsMiddleware (fst (cors_settings (ev_cors_origins env))) (snd (cors_settings (ev_cors_origins env))), ApiKeyMiddleware]"
  by (simp add: create_app_def add_middleware_def Let_def case_prod_unfold)

lemma exception_text_only_debug: "error_detail debug e = ExceptionText e' \<Longrightarrow> debug = Some ''1'' \<and> e' = e"
  by (auto simp: error_detail_def split: py_error.splits if_splits)

lemma safe_dsn_hides:
  assumes "CHR ''@'' \<in> set url"
  shows "CHR ''@'' \<notin> set (safe_dsn url)"
proof -
  have "last (split_on CHR ''@'' url) \<in> set (split_on CHR ''@'' url)" by simp
  from split_on_parts [OF this] show ?thesis using assms by (simp add: safe_dsn_def)
qed

lemma cors_wildcard_iff:
  "''*'' \<in> set (fst (cors_settings e)) \<and> snd (cors_settings e) \<longleftrightarrow>
     e \<noteq> ''*'' \<and> (\<exists>p \<in> set (split_on CHR '','' e). strip p = ''*'')"
proof -
  have "strip [] = []" by (simp add: strip_def)
  then show ?thesis by (force simp: cors_settings_def)
qed

lemma startup_valid_iff:
  "startup_valid env \<longleftrightarrow> is_auth_disabled (ev_auth env) \<or>
     (\<exists>k. ae_api_key (ev_auth env) = Some k \<and> strip k \<noteq> [])"
  by (auto simp: startup_valid_def strip_def Let_def split: option.splits)

text \<open>A key of spaces counts as no key at startup, but the middleware accepts it.\<close>

lemma startup_invalid_yet_open:
  assumes "ae_api_key (ev_auth env) = Some k" "k \<noteq> []" "strip k = []" "\<not> is_auth_disabled (ev_auth env)"
  shows "\<not> startup_valid env \<and> credentials_ok env (Some k)"
  using assms by (simp add: startup_valid_iff credentials_ok_def)

end
