(* ===== verification/Status_Codes.thy ===== *)
theory Status_Codes
  imports Application_Safety
begin

text \<open>
  With which status each request may be answered: the codes an endpoint documents, and 500 for the
  few whose code lets an exception escape. The errors of a computation are followed through the
  models of the modules it calls.
\<close>

section \<open>The status of an error\<close>

named_theorems code_intros

definition code_in :: "nat set \<Rightarrow> 'a result \<Rightarrow> bool" where
  "code_in S r \<longleftrightarrow> (\<forall>e. r = Inl e \<longrightarrow> error_status e \<in> S)"

lemma error_status_cases [simp]:
  "error_status (HTTPException n) = n" "error_status ValueError = 500" "error_status TypeError = 500"
  "error_status KeyError = 500" "error_status RuntimeError = 500" "error_status OverflowError = 500"
  "error_status AttributeError = 500" "error_status PolicyValidationError = 500"
  "error_status InvalidTransitionError = 500" "error_status unprocessable = 422"
  by (simp_all add: error_status_def unprocessable_def)

lemma code_in_Inr [simp]: "code_in S (Inr x)"
  by (simp add: code_in_def)

lemma code_in_Inl [simp]: "code_in S (Inl e) \<longleftrightarrow> error_status e \<in> S"
  by (simp add: code_in_def)

lemma code_in_mono: "code_in S r \<Longrightarrow> S \<subseteq> T \<Longrightarrow> code_in T r"
  by (auto simp: code_in_def)

lemma code_in_rbind [code_intros]:
  "code_in S r \<Longrightarrow> (\<And>x. r = Inr x \<Longrightarrow> code_in S (f x)) \<Longrightarrow> code_in S (rbind r f)"
  by (cases r) (simp_all add: code_in_def)

lemma code_in_if [code_intros]:
  "(P \<Longrightarrow> code_in S a) \<Longrightarrow> (\<not> P \<Longrightarrow> code_in S b) \<Longrightarrow> code_in S (if P then a else b)"
  by simp

lemma code_in_let [code_intros]: "code_in S (f x) \<Longrightarrow> code_in S (let y = x in f y)"
  by simp

lemma code_in_as_body [code_intros]: "code_in S r \<Longrightarrow> code_in S (as_body f r)"
  by (cases r) (simp_all add: as_body_def)

subsection \<open>Operations of the language\<close>

lemma code_in_values [code_intros]:
  assumes "500 \<in> S"
  shows "code_in S (float_of_int n)" "code_in S (val_isfinite v)" "code_in S (val_lt v x)"
    "code_in S (val_gt v x)" "code_in S (parse_float s)" "code_in S (to_float v)"
    "code_in S (ftrunc x)" "code_in S (parse_int s)" "code_in S (to_int v)"
proof -
  show f: "code_in S (float_of_int n)" for n
    using assms by (simp add: float_of_int_def split: pyfloat.split)
  show p: "code_in S (parse_float s)" for s
    using assms by (simp add: parse_float_def Let_def split: prod.split option.split list.split)
  show i: "code_in S (parse_int s)" for s
    using assms by (simp add: parse_int_def Let_def split: prod.split)
  show t: "code_in S (ftrunc x)" for x
    using assms by (cases x) simp_all
  show "code_in S (val_isfinite v)" using assms f by (cases v) (auto intro!: code_in_rbind)
  show "code_in S (val_lt v x)" "code_in S (val_gt v x)"
    using assms by (simp_all add: val_lt_def val_gt_def split: option.split)
  show "code_in S (to_float v)" using assms f p by (cases v) simp_all
  show "code_in S (to_int v)" using assms i t by (cases v) simp_all
qed

subsection \<open>Policies\<close>

lemma code_in_require [code_intros]: "422 \<in> S \<Longrightarrow> code_in S (require b)"
  by (simp add: require_def)

lemma code_in_or_unprocessable [code_intros]: "422 \<in> S \<Longrightarrow> code_in S r \<Longrightarrow> code_in S (or_unprocessable r)"
  by (cases r) (simp_all add: or_unprocessable_def)

lemma code_in_checks [code_intros]:
  assumes "422 \<in> S" "500 \<in> S"
  shows "code_in S (check_on_exceed v)" "code_in S (check_ceiling v)" "code_in S (check_timestamp v)"
    "code_in S (optional_timestamp v)" "code_in S (check_chain_id v)"
proof -
  show t: "code_in S (check_timestamp v)"
    using assms unfolding check_timestamp_def by (intro code_intros) simp_all
  show "code_in S (check_on_exceed v)" "code_in S (check_chain_id v)"
    using assms by (auto simp: check_on_exceed_def check_chain_id_def intro!: code_intros split: pyval.split)
  show "code_in S (check_ceiling v)"
    using assms unfolding check_ceiling_def by (intro code_intros) simp_all
  show "code_in S (optional_timestamp v)"
    using t unfolding optional_timestamp_def by (auto intro!: code_intros)
qed

lemma code_in_build_policy [code_intros]: "422 \<in> S \<Longrightarrow> 500 \<in> S \<Longrightarrow> code_in S (build_policy now d)"
  unfolding build_policy_def by (intro code_intros) simp_all

lemma code_in_reject_if [code_intros]: "500 \<in> S \<Longrightarrow> code_in S r \<Longrightarrow> code_in S (reject_if r)"
  unfolding reject_if_def by (intro code_intros) simp_all

lemma code_in_validate_policy [code_intros]: "500 \<in> S \<Longrightarrow> code_in S (validate_policy strict p)"
  unfolding validate_policy_def unless_none_def not_finite_def negative_def
  by (intro code_intros) simp_all

lemma code_in_to_exec_config [code_intros]: "500 \<in> S \<Longrightarrow> code_in S (to_exec_config p)"
  unfolding to_exec_config_def by (intro code_intros) simp_all

lemma code_in_distribute: "500 \<in> S \<Longrightarrow> code_in S (fst (distribute sha mac now p s))"
  using code_in_validate_policy [of S "ds_strict s" p] code_in_to_exec_config [of S p]
  by (auto simp: distribute_def Let_def case_prod_unfold split: sum.split)

lemma code_in_registry_distribute: "500 \<in> S \<Longrightarrow> code_in S (fst (registry_distribute hs now p s))"
  by (simp add: registry_distribute_def case_prod_unfold Let_def code_in_distribute)

section \<open>The endpoints\<close>

lemma code_in_update_endpoint:
  "{403, 404, 409, 422, 500} \<subseteq> S \<Longrightarrow> code_in S (fst (update_policy_endpoint hs env now c u s))"
  using code_in_registry_distribute [of S hs now _ s]
  by (auto simp: update_policy_endpoint_def registry_update_def update_check_def update_commit_def Let_def
      case_prod_unfold code_in_def split: sum.splits option.splits prod.splits if_splits)

lemma code_in_policy_body [code_intros]: "500 \<in> S \<Longrightarrow> code_in S r \<Longrightarrow> code_in S (policy_body w r)"
  unfolding policy_body_def policy_response_model_def by (intro code_intros) simp_all

lemma code_in_validate_fields:
  assumes "422 \<in> S" "500 \<in> S" "\<forall>e. Inl e \<in> set rs \<longrightarrow> e = ValueError \<or> e = OverflowError"
  shows "code_in S (validate_fields rs)"
  using validate_fields_error [of rs] assms by (fastforce simp: code_in_def)

lemma code_in_update_policy:
  assumes "{403, 404, 409, 422, 500} \<subseteq> S"
  shows "code_in S (fst (update_policy env w c u app))"
proof -
  have "code_in S (validate_fields (schema_check (path_id_ok c) # update_fields (wd_lax_int w) u))"
    using assms update_fields_error by (intro code_in_validate_fields) auto
  moreover have "code_in S (policy_body w (fst (update_policy_endpoint (wd_hasher w) (ev_immutable_config env)
      (wd_now w) c (parsed_update (wd_lax_int w) u) (app_registry app))))"
    using assms by (intro code_in_policy_body code_in_update_endpoint) auto
  ultimately show ?thesis
    by (auto simp: update_policy_def Let_def case_prod_unfold split: sum.split)
qed

lemma code_in_simulate:
  assumes "422 \<in> S" "500 \<in> S"
  shows "code_in S (simulate sha issued now strict d steps)"
proof (cases "build_policy issued d")
  case (Inr p)
  show ?thesis
  proof (cases "validate_policy strict p")
    case Inr': (Inr u)
    then show ?thesis using simulate_total [OF Inr] by (metis code_in_Inr old.unit.exhaust validate_iff)
  next
    case (Inl e)
    then have "error_status e \<in> S" using code_in_validate_policy [OF assms(2), of strict p] by simp
    then show ?thesis using Inr Inl assms by (simp add: simulate_def)
  qed
qed (simp add: simulate_def assms)

lemma code_in_simulate_body:
  assumes "422 \<in> S" "500 \<in> S"
  shows "code_in S (simulate_body w app d raws)"
proof -
  have "code_in S (parse_steps (wd_lax_int w) raws)"
    using parse_steps_error assms by (fastforce simp: code_in_def)
  then show ?thesis
    unfolding simulate_body_def using assms by (intro code_intros code_in_simulate)
qed

lemma code_in_replay_endpoint: "422 \<in> S \<Longrightarrow> 500 \<in> S \<Longrightarrow> code_in S (replay_endpoint now strict es c lo hi ov)"
  unfolding replay_endpoint_def new_replay_request_def reject_unless_def
  by (auto intro!: code_intros split: sum.split)

lemma code_in_create_tenant: "422 \<in> S \<Longrightarrow> 500 \<in> S \<Longrightarrow> code_in S (fst (create_tenant now i name parent d ts))"
proof -
  assume S: "422 \<in> S" "500 \<in> S"
  have walk: "code_in S (walk_ancestors ts n x)" for n x
    using S(2) by (induction ts n x rule: walk_ancestors.induct) (auto intro!: code_intros split: option.split)
  have "code_in S (fst (tenant_register t ts))" for t
    using S walk [of MAX_DEPTH "tn_parent_id t"]
    by (auto simp: tenant_register_def code_in_def split: sum.splits option.splits)
  then show ?thesis
    using S by (auto simp: create_tenant_def validate_overrides_def Let_def case_prod_unfold code_in_def
        split: sum.splits if_splits)
qed

lemma code_in_update_tenant: "{404, 422} \<subseteq> S \<Longrightarrow> code_in S (fst (update_tenant i name d ts))"
  by (auto simp: update_tenant_def tenant_update_def validate_overrides_def Let_def code_in_def
      split: sum.splits if_splits option.splits)

lemma code_in_delete_tenant: "{404, 409} \<subseteq> S \<Longrightarrow> code_in S (fst (delete_tenant i ts))"
  by (auto simp: delete_tenant_def tenant_delete_def Let_def code_in_def split: sum.splits if_splits)

lemma code_in_effective:
  assumes "{404, 422, 500} \<subseteq> S"
  shows "code_in S (effective_body w app i)"
proof -
  have S: "422 \<in> S" "500 \<in> S" using assms by auto
  have nodes: "code_in S (ancestor_nodes ts n x)" for ts n x
    using S by (induction ts n x rule: ancestor_nodes.induct) (auto intro!: code_intros split: option.split)
  have ancestors: "code_in S (get_ancestors ts i)" for ts
    unfolding get_ancestors_def using nodes by (auto intro!: code_intros split: option.split)
  have unless: "code_in S (value_error_unless b)" for b
    using S by (simp add: value_error_unless_def)
  have finite: "code_in S (finite_nonneg v)" for v
    unfolding finite_nonneg_def using S unless by (intro code_intros)
  have override: "code_in S (validate_override_value k v)" for k v
    unfolding validate_override_value_def using S unless finite
    by (intro code_intros) (auto split: pyval.split)
  have checked: "code_in S (checked_overrides d)" for d
    by (induction d rule: checked_overrides.induct) (auto intro!: code_intros override)
  have chain: "code_in S (resolve_chain ns p)" for ns p
    by (induction ns p rule: resolve_chain.induct) (auto intro!: code_intros checked)
  have resolved: "code_in S (resolve ts i p)" for ts p
    unfolding resolve_def using ancestors chain by (auto intro!: code_intros split: option.split)
  have "code_in S (get_effective_policy now ts i)" for now ts
    using resolved [of ts "new_policy_config i (VFloat (Fin 10)) ''halt'' (VFloat now)"] assms
    by (auto simp: get_effective_policy_def code_in_def split: option.splits sum.splits)
  then show ?thesis
    unfolding effective_body_def policy_to_response_def using S by (intro code_intros) simp_all
qed

lemma code_in_rollout_body [code_intros]: "code_in S r \<Longrightarrow> code_in S (rollout_body w r)"
  unfolding rollout_body_def by (rule code_in_as_body)

lemma code_in_with_control: "code_in S (fst (f (ap_control app))) \<Longrightarrow> code_in S (fst (with_control f w app))"
  by (simp add: with_control_def case_prod_unfold Let_def code_in_rollout_body)

lemma code_in_with_tenants:
  "(\<And>r. code_in S r \<Longrightarrow> code_in S (g r)) \<Longrightarrow> code_in S (fst (f (ap_tenants app))) \<Longrightarrow>
   code_in S (fst (with_tenants f g app))"
  by (simp add: with_tenants_def case_prod_unfold Let_def)

lemma code_in_transition: "{404, 409} \<subseteq> S \<Longrightarrow> code_in S (fst (do_transition i target actor now c))"
  by (auto simp: do_transition_def rollout_transition_def transition_error_def map_error_def Let_def
      case_prod_unfold code_in_def split: option.splits sum.splits if_splits)

lemma code_in_get_rollout: "404 \<in> S \<Longrightarrow> code_in S (get_rollout_or_404 c i)"
  by (simp add: get_rollout_or_404_def split: option.split)

lemma code_in_activate:
  assumes "{404, 409} \<subseteq> S"
  shows "code_in S (fst (activate_rollout hs now_s now i actor c))"
proof -
  have "code_in S (get_rollout_or_404 c i)" using assms by (simp add: code_in_get_rollout)
  moreover have "code_in S (fst (do_transition i Active actor now c'))" for c'
    using assms by (rule code_in_transition)
  ultimately show ?thesis
    using assms unfolding activate_rollout_def
    by (fastforce simp: code_in_def Let_def case_prod_unfold split: sum.splits py_error.splits)
qed

lemma code_in_simulate_rollout:
  assumes "{404, 409, 422, 500} \<subseteq> S"
  shows "code_in S (fst (simulate_rollout hs jl now_s now i c))"
proof -
  have "code_in S (get_rollout_or_404 c i)" using assms by (simp add: code_in_get_rollout)
  moreover have "code_in S (map_error transition_error (fst (rollout_simulate jl i res actor now s)))" for res actor s
    using assms by (auto simp: rollout_simulate_def transition_error_def map_error_def check_sim_result_def Let_def
        code_in_def split: option.splits sum.splits if_splits)
  ultimately show ?thesis
    using assms unfolding simulate_rollout_def
    by (fastforce simp: code_in_def Let_def case_prod_unfold split: sum.splits)
qed

lemma code_in_create_rollout:
  "422 \<in> S \<Longrightarrow> 500 \<in> S \<Longrightarrow> code_in S (fst (create_rollout uuid now issued d by_whom c))"
  using code_in_build_policy [of S issued d]
  by (auto simp: create_rollout_def Let_def case_prod_unfold split: sum.split)

text \<open>A dictionary of a policy whose \<open>on_exceed\<close> is a list reaches \<open>_build_policy\<close>, where the membership
  test hashes it.\<close>

lemma create_rollout_unhashable:
  assumes "list_all (\<lambda>k. dget d k \<noteq> None) REQUIRED_POLICY_FIELDS" "dget d ''on_exceed'' = Some (VList xs)"
  shows "fst (create_rollout uuid now issued d by_whom c) = Inl TypeError"
  using assms by (simp add: create_rollout_def build_policy_def require_def check_on_exceed_def hashable_def
      get_none_def)

section \<open>The requests\<close>

fun error_codes :: "request \<Rightarrow> nat list" where
  "error_codes ReqHealth = []"
| "error_codes (ReqUi _) = [404]"
| "error_codes (ReqEvents _) = [400, 422]"
| "error_codes (ReqRun _) = [404, 422]"
| "error_codes (ReqIncident _ _) = [404, 422]"
| "error_codes (ReqPolicies _ _) = [422, 500]"
| "error_codes (ReqPolicy _) = [404, 422, 500]"
| "error_codes (ReqUpdatePolicy _ _) = [403, 404, 409, 422, 500]"
| "error_codes (ReqSimulate _ _) = [422, 500]"
| "error_codes (ReqReplay _ _ _ _) = [422, 500]"
| "error_codes (ReqExport _) = [422, 500]"
| "error_codes ReqTenants = []"
| "error_codes (ReqTenant _) = [404, 422]"
| "error_codes (ReqCreateTenant _ _ _ _) = [422, 500]"
| "error_codes (ReqUpdateTenant _ _ _) = [404, 422]"
| "error_codes (ReqDeleteTenant _) = [404, 409, 422]"
| "error_codes (ReqEffectivePolicy _) = [404, 422, 500]"
| "error_codes (ReqRollouts _ _ _) = [422]"
| "error_codes (ReqRollout _) = [404, 422]"
| "error_codes (ReqCreateRollout _ _) = [422, 500]"
| "error_codes (ReqSimulateRollout _) = [404, 409, 422, 500]"
| "error_codes (ReqApproveRollout _ _) = [404, 409, 422]"
| "error_codes (ReqPromoteRollout _ _) = [404, 409, 422]"
| "error_codes (ReqActivateRollout _ _) = [404, 409, 422]"
| "error_codes (ReqRevokeRollout _ _) = [404, 409, 422]"

lemma code_in_reads:
  "404 \<in> S \<Longrightarrow> code_in S (ui_page path)"
  "{400, 422} \<subseteq> S \<Longrightarrow> code_in S (list_events q es)"
  "404 \<in> S \<Longrightarrow> code_in S (get_run now es c)"
  "404 \<in> S \<Longrightarrow> code_in S (get_incident es c s)"
  "500 \<in> S \<Longrightarrow> code_in S (list_policies_response w app page per_page)"
  "404 \<in> S \<Longrightarrow> code_in S (get_policy_endpoint reg c)"
  "500 \<in> S \<Longrightarrow> code_in S (export_response w app limit)"
  "404 \<in> S \<Longrightarrow> code_in S (get_tenant ts i)"
  by (auto simp: ui_page_def list_events_def bad_request_def get_run_def get_incident_def
      list_policies_response_def get_policy_endpoint_def export_response_def get_tenant_def Let_def case_prod_unfold
      split: option.split list.split)

lemma code_in_tenant_body [code_intros]: "code_in S r \<Longrightarrow> code_in S (tenant_body r)"
  unfolding tenant_body_def by (rule code_in_as_body)

lemma code_in_handle: "code_in (set (error_codes rq)) (fst (handle env w rq app))"
  by (cases rq)
    (simp_all add: code_in_reads code_in_as_body code_in_policy_body code_in_update_policy code_in_simulate_body
      code_in_replay_endpoint code_in_with_tenants code_in_tenant_body code_in_create_tenant code_in_update_tenant
      code_in_delete_tenant code_in_effective code_in_rollout_body code_in_get_rollout code_in_with_control
      code_in_create_rollout code_in_simulate_rollout approve_rollout_def promote_rollout_def revoke_rollout_def
      code_in_transition code_in_activate)

lemma refused_params: "\<not> params_ok rq \<Longrightarrow> 422 \<in> set (error_codes rq)"
  by (cases rq) simp_all

lemma serve_status:
  "fst (fst (serve env w header rq app)) \<in>
     insert (success_status rq) (set (error_codes rq)) \<union> (if is_exempt (request_path rq) then {} else {401, 503})"
proof (cases "fst (dispatch (ev_auth env) (request_path rq) header (ap_warned app))")
  case (Rejected status)
  then have "\<not> is_exempt (request_path rq)" using dispatch_exempt by force
  moreover have "status \<in> {401, 503}"
    using Rejected by (auto simp: dispatch_def Let_def split: option.splits if_splits)
  ultimately show ?thesis using Rejected by (auto simp: serve_def Let_def case_prod_unfold)
next
  case Forwarded
  show ?thesis
  proof (cases "\<not> params_ok rq \<and> \<not> validates_itself rq")
    case True
    then show ?thesis using Forwarded refused_params by (simp add: serve_def Let_def case_prod_unfold)
  next
    case False
    have "fst (respond rq (fst (handle env w rq app'))) \<in> insert (success_status rq) (set (error_codes rq))" for app'
      using code_in_handle [of rq env w app'] by (auto simp: respond_status code_in_def split: sum.split)
    then show ?thesis using Forwarded False by (auto simp: serve_def Let_def case_prod_unfold)
  qed
qed

end
