(* ===== verification/Rollout_Pipeline.thy ===== *)
theory Rollout_Pipeline
  imports Application_Safety
begin

text \<open>
  A rollout taken through all its stages by four requests: each is answered with 200 and the policy
  is live at the end.
\<close>

lemma transition_succeeds:
  assumes "dget s i = Some r" "t \<in> set (valid_transitions (ro_state r))" "t \<noteq> Draft"
    and "length (ro_history r) < MAX_HISTORY_LENGTH"
  shows "rollout_transition i t actor now s =
    (Inr (record_transition t actor now r), dput s i (record_transition t actor now r))"
  using assms by (simp add: rollout_transition_def Let_def)

lemma do_transition_succeeds:
  assumes "dget (ca_rollouts c) i = Some r" "t \<in> set (valid_transitions (ro_state r))" "t \<noteq> Draft"
    and "length (ro_history r) < MAX_HISTORY_LENGTH"
  shows "do_transition i t actor now c = (Inr (record_transition t actor now r),
    c\<lparr>ca_rollouts := dput (ca_rollouts c) i (record_transition t actor now r)\<rparr>)"
  by (simp add: do_transition_def transition_succeeds [OF assms] map_error_def)

lemma distribute_succeeds:
  assumes "valid_policy (ds_strict (rg_distributor s)) p"
  shows "\<exists>b n. registry_distribute hs now p s =
    (Inr b, s\<lparr>rg_distributor := (rg_distributor s)\<lparr>ds_version := n\<rparr>\<rparr>) \<and> pb_policy b = p"
proof -
  have "is_ok (fst (registry_distribute hs now p s))"
    using assms distribute_ok_iff [of "fst hs" "snd hs" now p "rg_distributor s"]
    by (simp add: registry_distribute_def split_beta)
  then obtain b s' where d: "registry_distribute hs now p s = (Inr b, s')"
    unfolding is_ok_iff by (metis prod.collapse)
  from registry_distribute_ok [OF d] show ?thesis using d by blast
qed

definition stage_of :: "control_app \<Rightarrow> string \<Rightarrow> rollout_state \<Rightarrow> nat \<Rightarrow> policy_config \<Rightarrow> bool" where
  \<comment> \<open>the rollout's stage, with room for more transitions and a policy the distributor accepts\<close>
  "stage_of c i st room p \<longleftrightarrow> (\<exists>r. dget (ca_rollouts c) i = Some r \<and> ro_state r = st \<and> ro_policy_config r = p \<and>
     length (ro_history r) + room \<le> MAX_HISTORY_LENGTH) \<and> valid_policy (ds_strict (rg_distributor (ca_registry c))) p"

lemma simulate_stage:
  assumes "stage_of c i Draft (Suc n) p"
    and "\<forall>b. fst (registry_distribute hs now_s p (ca_registry c)) = Inr b \<longrightarrow>
      (\<exists>k \<le> MAX_SIM_RESULT_SIZE. jl (sim_result_dict b) = Some k)"
  shows "\<exists>r c'. simulate_rollout hs jl now_s now i c = (Inr r, c') \<and> stage_of c' i Simulated n p"
proof -
  obtain r where r: "dget (ca_rollouts c) i = Some r" "ro_state r = Draft" "ro_policy_config r = p"
      "length (ro_history r) + Suc n \<le> MAX_HISTORY_LENGTH"
    and v: "valid_policy (ds_strict (rg_distributor (ca_registry c))) p"
    using assms(1) by (auto simp: stage_of_def)
  obtain b m where d: "registry_distribute hs now_s p (ca_registry c) =
      (Inr b, (ca_registry c)\<lparr>rg_distributor := (rg_distributor (ca_registry c))\<lparr>ds_version := m\<rparr>\<rparr>)"
    using distribute_succeeds [OF v] by blast
  have "check_sim_result (jl (sim_result_dict b)) = Inr ()"
    using assms(2) d by (auto simp: check_sim_result_def)
  then show ?thesis
    using r v d
    by (simp add: simulate_rollout_def get_rollout_or_404_def rollout_get_def rollout_simulate_def Let_def
        map_error_def stage_of_def)
qed

lemma transition_stage:
  assumes "stage_of c i st (Suc n) p" "t \<in> set (valid_transitions st)" "t \<noteq> Draft"
  shows "\<exists>r c'. do_transition i t actor now c = (Inr r, c') \<and> stage_of c' i t n p \<and> ca_registry c' = ca_registry c"
proof -
  obtain r where r: "dget (ca_rollouts c) i = Some r" "ro_state r = st" "ro_policy_config r = p"
      "length (ro_history r) + Suc n \<le> MAX_HISTORY_LENGTH"
    and v: "valid_policy (ds_strict (rg_distributor (ca_registry c))) p"
    using assms(1) by (auto simp: stage_of_def)
  show ?thesis
    using do_transition_succeeds [OF r(1), of t actor now] assms(2,3) r v by (simp add: stage_of_def)
qed

lemma activate_stage:
  assumes "stage_of c i Promoted (Suc n) p"
  shows "\<exists>r c' b. activate_rollout hs now_s now i actor c = (Inr r, c') \<and> stage_of c' i Active n p \<and>
    get_policy (ca_registry c') (pc_chain_id p) = Some b \<and> pb_policy b = p"
proof -
  obtain r where r: "dget (ca_rollouts c) i = Some r" "ro_state r = Promoted" "ro_policy_config r = p"
      "length (ro_history r) + Suc n \<le> MAX_HISTORY_LENGTH"
    and v: "valid_policy (ds_strict (rg_distributor (ca_registry c))) p"
    using assms by (auto simp: stage_of_def)
  obtain b m where d: "registry_distribute hs now_s p (ca_registry c) =
      (Inr b, (ca_registry c)\<lparr>rg_distributor := (rg_distributor (ca_registry c))\<lparr>ds_version := m\<rparr>\<rparr>)"
      "pb_policy b = p"
    using distribute_succeeds [OF v] by blast
  define c1 where "c1 = c\<lparr>ca_registry := snd (register hs now_s p (ca_registry c))\<rparr>"
  have reg: "register hs now_s p (ca_registry c) = (Inr b, ca_registry c1)"
    using d by (simp add: register_def c1_def)
  have "stage_of c1 i Promoted (Suc n) p"
    using assms d by (auto simp: stage_of_def c1_def register_def store_bundle_def)
  from transition_stage [OF this, of Active actor now] obtain r' c'
    where t: "do_transition i Active actor now c1 = (Inr r', c')" "stage_of c' i Active n p" "ca_registry c' = ca_registry c1"
    by auto
  have c1: "c\<lparr>ca_registry := ca_registry c1\<rparr> = c1" by (simp add: c1_def)
  have "activate_rollout hs now_s now i actor c = (Inr r', c')"
    using r reg t(1) c1 by (simp add: activate_rollout_def get_rollout_or_404_def rollout_get_def Let_def)
  moreover have "get_policy (ca_registry c') (pc_chain_id p) = Some b"
    unfolding t(3) using d by (simp add: c1_def register_def store_bundle_def get_policy_def)
  ultimately show ?thesis using t(2) d(2) by blast
qed

lemma serve_control:
  assumes "credentials_ok env header" "params_ok rq" "success_status rq = 200"
    and "\<And>a. handle env w rq a = with_control f w a" "f (ap_control app) = (Inr r, c)"
  shows "fst (fst (serve env w header rq app)) = 200 \<and> ap_control (snd (serve env w header rq app)) = c"
proof -
  obtain warned where "serve env w header rq app =
      (respond rq (fst (with_control f w (app\<lparr>ap_warned := warned\<rparr>))), snd (with_control f w (app\<lparr>ap_warned := warned\<rparr>)))"
    using serve_authorised [OF assms(1), of w rq app] assms(2,4) by auto
  then show ?thesis using assms(3,5) by (simp add: with_control_def rollout_body_def as_body_def respond_def)
qed

definition pipeline_requests :: "string \<Rightarrow> string \<Rightarrow> request list" where
  "pipeline_requests i actor =
     [ReqSimulateRollout i, ReqApproveRollout i actor, ReqPromoteRollout i actor, ReqActivateRollout i actor]"

lemma serve_all_Cons:
  "serve_all env ((w, header, rq) # rs) app =
     (fst (serve env w header rq app) # fst (serve_all env rs (snd (serve env w header rq app))),
      snd (serve_all env rs (snd (serve env w header rq app))))"
  by (simp add: case_prod_unfold Let_def)

lemma pipeline_goes_live:
  assumes cr: "credentials_ok env header" and i: "is_uuid i" and actor: "actor_ok actor"
    and st: "stage_of (ap_control app) i Draft 4 p"
    and jl: "\<forall>b. fst (registry_distribute (wd_hasher w) (wd_now w) p (ca_registry (ap_control app))) = Inr b \<longrightarrow>
      (\<exists>k \<le> MAX_SIM_RESULT_SIZE. wd_json_length w (sim_result_dict b) = Some k)"
  shows "\<exists>as app' b. serve_all env (map (\<lambda>rq. (w, header, rq)) (pipeline_requests i actor)) app = (as, app') \<and>
    map fst as = [200, 200, 200, 200] \<and> stage_of (ap_control app') i Active 0 p \<and>
    get_policy (app_registry app') (pc_chain_id p) = Some b \<and> pb_policy b = p"
proof -
  have s4: "stage_of (ap_control app) i Draft (Suc 3) p" using st by simp
  note serve = serve_control [OF cr]
  obtain r1 c1 where c1: "simulate_rollout (wd_hasher w) (wd_json_length w) (wd_now w) (wd_now_us w) i (ap_control app) = (Inr r1, c1)"
      "stage_of c1 i Simulated 3 p"
    using simulate_stage [OF s4 jl, of "wd_now_us w"] by (auto simp: numeral_3_eq_3)
  define a1 where "a1 = snd (serve env w header (ReqSimulateRollout i) app)"
  have a1: "fst (fst (serve env w header (ReqSimulateRollout i) app)) = 200 \<and> ap_control a1 = c1"
    unfolding a1_def
    by (rule serve [where f = "simulate_rollout (wd_hasher w) (wd_json_length w) (wd_now w) (wd_now_us w) i"])
      (simp_all add: i c1(1))
  obtain r2 c2 where c2: "approve_rollout i actor (wd_now_us w) (ap_control a1) = (Inr r2, c2)"
      "stage_of c2 i Approved (Suc (Suc 0)) p"
    using transition_stage [OF c1(2) [unfolded numeral_3_eq_3], of Approved actor "wd_now_us w"] a1
    by (auto simp: approve_rollout_def)
  define a2 where "a2 = snd (serve env w header (ReqApproveRollout i actor) a1)"
  have a2: "fst (fst (serve env w header (ReqApproveRollout i actor) a1)) = 200 \<and> ap_control a2 = c2"
    unfolding a2_def
    by (rule serve [where f = "approve_rollout i actor (wd_now_us w)"])
      (simp_all add: i actor c2(1))
  obtain r3 c3 where c3: "promote_rollout i actor (wd_now_us w) (ap_control a2) = (Inr r3, c3)"
      "stage_of c3 i Promoted (Suc 0) p"
    using transition_stage [OF c2(2), of Promoted actor "wd_now_us w"] a2
    by (auto simp: promote_rollout_def)
  define a3 where "a3 = snd (serve env w header (ReqPromoteRollout i actor) a2)"
  have a3: "fst (fst (serve env w header (ReqPromoteRollout i actor) a2)) = 200 \<and> ap_control a3 = c3"
    unfolding a3_def
    by (rule serve [where f = "promote_rollout i actor (wd_now_us w)"])
      (simp_all add: i actor c3(1))
  obtain r4 c4 b where c4: "activate_rollout (wd_hasher w) (wd_now w) (wd_now_us w) i actor (ap_control a3) = (Inr r4, c4)"
      "stage_of c4 i Active 0 p" "get_policy (ca_registry c4) (pc_chain_id p) = Some b" "pb_policy b = p"
    using activate_stage [OF c3(2), of "wd_hasher w" "wd_now w" "wd_now_us w" actor] a3 by auto
  define a4 where "a4 = snd (serve env w header (ReqActivateRollout i actor) a3)"
  have a4: "fst (fst (serve env w header (ReqActivateRollout i actor) a3)) = 200 \<and> ap_control a4 = c4"
    unfolding a4_def
    by (rule serve [where f = "activate_rollout (wd_hasher w) (wd_now w) (wd_now_us w) i actor"])
      (simp_all add: i actor c4(1))
  have "serve_all env (map (\<lambda>rq. (w, header, rq)) (pipeline_requests i actor)) app =
      ([fst (serve env w header (ReqSimulateRollout i) app), fst (serve env w header (ReqApproveRollout i actor) a1),
        fst (serve env w header (ReqPromoteRollout i actor) a2), fst (serve env w header (ReqActivateRollout i actor) a3)], a4)"
    unfolding pipeline_requests_def list.map serve_all_Cons
    by (simp add: a1_def a2_def a3_def a4_def)
  then show ?thesis using a1 a2 a3 a4 c4 by (simp add: app_registry_def)
qed

end
