(* ===== verification/Application_Properties.thy ===== *)
theory Application_Properties
  imports Status_Codes Rollout_Pipeline Samples
begin

text \<open>
  What the HTTP application guarantees as a whole: what the middleware keeps out, the invariants of
  the shared state over any run, and how requests to different components affect one another.
\<close>

section \<open>Concrete inputs\<close>

definition sample_env :: environment where [sample_defs]:
  "sample_env = \<lparr>ev_database_url = [], ev_auth = \<lparr>ae_api_key = Some ''secret'', ae_auth_disabled = None\<rparr>,
     ev_immutable_config = ''1'', ev_cors_origins = [], ev_signing_key = []\<rparr>"

definition sample_world :: world where [sample_defs]:
  "sample_world = \<lparr>wd_hasher = (\<lambda>_. [], \<lambda>_ _. []), wd_json_length = (\<lambda>_. Some 0), wd_now = Fin 1,
     wd_step_now = (\<lambda>_. Fin 1), wd_now_us = 1, wd_uuid = ''12345678-1234-1234-1234-123456789abd'',
     wd_isoformat = (\<lambda>_. []), wd_lax_int = (\<lambda>_. None), wd_lax_float = (\<lambda>_. None), wd_version = Some ''1'',
     wd_kernel = Some \<lparr>km_version = Some ''3.4.2'', km_circuit_breaker = None\<rparr>, wd_monotonic = Fin 1,
     wd_start_time = Fin 0\<rparr>"

definition sample_uuid :: string where [sample_defs]:
  "sample_uuid = ''12345678-1234-1234-1234-123456789abc''"

definition windowed_policy :: policy_config where [sample_defs]:
  "windowed_policy = sample_policy\<lparr>pc_rate_window_seconds := VFloat PInf\<rparr>"

definition drafted_app :: application where
  \<comment> \<open>started, with one rollout in draft\<close>
  "drafted_app = (projr (lifespan_start sample_env DriverMissing False))
     \<lparr>ap_control := \<lparr>ca_rollouts = [(sample_uuid, new_rollout sample_uuid 0 windowed_policy ''ops'')],
        ca_registry = new_registry \<lparr>ds_strict = False, ds_version = 0, ds_signing_key = None\<rparr>\<rparr>\<rparr>"

lemma sample_uuid_ok: "is_uuid sample_uuid"
  by (simp add: is_uuid_def sample_uuid_def is_digit_def)

lemma sample_actor_ok: "actor_ok ''ops''"
  by (simp add: actor_ok_def alnum_def is_lower_def)

lemma sample_credentials: "credentials_ok sample_env (Some ''secret'')" "\<not> credentials_ok sample_env None"
  by (simp_all add: credentials_ok_def sample_env_def)

lemma windowed_policy_valid: "valid_policy False windowed_policy"
  by (simp add: valid_policy_def windowed_policy_def sample_policy_def new_policy_config_def
      ALLOWED_ON_EXCEED_def good_bound_def)

lemma drafted_app_sel:
  "dget (ca_rollouts (ap_control drafted_app)) sample_uuid = Some (new_rollout sample_uuid 0 windowed_policy ''ops'')"
  "app_strict drafted_app = False" "rg_store (app_registry drafted_app) = []"
  by (simp_all add: drafted_app_def app_strict_def app_registry_def new_registry_def)

section \<open>The middleware\<close>

text \<open>C10: a client without the configured key (or any client, when no key is configured and auth is
  not disabled) changes nothing: whatever requests it sends, the state of the whole application
  stays as it was, and everything but the health check and the web pages is answered with 401 (503
  without a key) and no body.\<close>

theorem unauthorised_requests_change_nothing:
  assumes "\<forall>(w, header, rq) \<in> set rs. \<not> credentials_ok env header"
  shows "snd (serve_all env rs app) = app \<and>
    list_all2 (\<lambda>(w, header, rq) a. \<not> open_route rq \<longrightarrow>
       a = (if ae_api_key (ev_auth env) = None then 503 else 401, None)) rs (fst (serve_all env rs app))"
  using assms by (rule serve_all_unauthorised)

theorem unauthorised_requests_change_nothing_witness:
  "snd (serve_all sample_env [(sample_world, None, ReqActivateRollout sample_uuid ''ops''),
      (sample_world, None, ReqHealth), (sample_world, None, ReqDeleteTenant ''t'')] drafted_app) = drafted_app"
  using unauthorised_requests_change_nothing
    [of "[(sample_world, None, ReqActivateRollout sample_uuid ''ops''), (sample_world, None, ReqHealth),
          (sample_world, None, ReqDeleteTenant ''t'')]" sample_env drafted_app] sample_credentials(2)
  by (simp only: list.set ball_simps insert_iff split simp_thms)

section \<open>The answers\<close>

text \<open>C39: every request is answered with its success status or one of the codes its endpoint may answer
  with, and 401 or 503 when its path is not exempt from authentication. Only the requests that read,
  update, simulate, replay or export policies, create tenants or rollouts, resolve an effective policy or simulate
  a rollout can fail with 500.\<close>

theorem answer_statuses:
  "fst (fst (serve env w header rq app)) \<in>
     insert (success_status rq) (set (error_codes rq)) \<union> (if is_exempt (request_path rq) then {} else {401, 503})"
  by (rule serve_status)

section \<open>The start\<close>

text \<open>C40: when the application starts (its signing key is accepted), it starts on the database exactly
  when a URL is set and the driver, its pool and both tables are there; it then serves the rows the
  database had. In every other case, without a URL too, it starts on an empty store in memory, and no
  pool is left open provided closing one works; without a URL the database is not touched. Either way
  the start leaves the stored events as they were.\<close>

theorem start_all_or_nothing:
  assumes "start_app env driver answers db warned = (Inr app, pool, db')"
  shows "(if ev_database_url env \<noteq> [] \<and> pg_opens driver answers (ev_database_url env) 1 5
     then ap_store app = InPostgres (store_on db) \<and> pool \<noteq> None \<and> db_policies db' \<noteq> None \<and> db_events db' \<noteq> None
     else ap_store app = InMemory new_memory_store \<and>
       ((\<forall>d. driver = Some d \<longrightarrow> is_ok (dr_close d)) \<longrightarrow> pool = None)) \<and>
    store_on db' = store_on db \<and> (ev_database_url env = [] \<longrightarrow> pool = None \<and> db' = db)"
proof (cases "ev_database_url env = []")
  case True
  then show ?thesis using assms
    by (auto simp: start_app_def lifespan_start_def choose_store_def rbind_Inr_iff)
next
  case url: False
  obtain r where init: "pg_init driver answers (ev_database_url env) 1 5 db = (r, pool, db')"
    and start: "lifespan_start env (connection_of r) warned = Inr app"
    using assms url by (auto simp: start_app_def split: prod.splits)
  have st: "ap_store app = choose_store env (connection_of r)"
    using start by (auto simp: lifespan_start_def rbind_Inr_iff)
  show ?thesis
  proof (cases "pg_opens driver answers (ev_database_url env) 1 5")
    case True
    have "r = Inr (store_on db)" "pool \<noteq> None" "db' = create_events (create_policies db)"
      using init by (auto simp: pg_init_opens [OF True])
    then show ?thesis
      using True st url created by (simp add: choose_store_def connection_of_def store_on_created del: not_None_eq)
  next
    case False
    note refused = pg_init_refused [OF False, of db, unfolded init, simplified]
    have "ap_store app = InMemory new_memory_store"
      using refused(1) st by (cases r) (auto simp: choose_store_def connection_of_def split: py_error.split)
    then show ?thesis
      using refused(2,3) False store_on_created url by auto
  qed
qed

definition database_env :: environment where
  "database_env = sample_env\<lparr>ev_database_url := ''db''\<rparr>"

definition open_driver :: pg_driver where
  "open_driver = \<lparr>dr_open = (\<lambda>_ _ _. Inr ()), dr_close = Inr ()\<rparr>"

definition schema_created :: schema_run where
  "schema_created = \<lparr>sr_connection = True, sr_policies = True, sr_events = True, sr_commit = True, sr_applied = True\<rparr>"

theorem start_all_or_nothing_witness:
  "ap_store (projr (fst (start_app database_env (Some open_driver) schema_created empty_database False))) =
     InPostgres (store_on empty_database) \<and>
   ap_store (projr (fst (start_app sample_env (Some open_driver) schema_created empty_database False))) =
     InMemory new_memory_store"
proof -
  have opens: "pg_opens (Some open_driver) schema_created url mn mx" for url mn mx
    by (simp add: pg_opens_def open_driver_def schema_created_def)
  obtain app pool db' where app: "start_app database_env (Some open_driver) schema_created empty_database False = (Inr app, pool, db')"
    by (simp add: start_app_def pg_init_opens [OF opens] lifespan_start_def new_distributor_def database_env_def sample_env_def)
  obtain app2 pool2 db2 where app2: "start_app sample_env (Some open_driver) schema_created empty_database False = (Inr app2, pool2, db2)"
    by (simp add: start_app_def lifespan_start_def new_distributor_def sample_env_def)
  have "ap_store app = InPostgres (store_on empty_database)"
    using start_all_or_nothing [OF app] opens by (simp add: database_env_def)
  moreover have "ap_store app2 = InMemory new_memory_store"
    using start_all_or_nothing [OF app2] by (simp add: sample_env_def)
  ultimately show ?thesis by (simp add: app app2)
qed

section \<open>Invariants of the running application\<close>

text \<open>C11: in every state an application reaches from its start, whatever requests were served in
  whatever order and whatever the kernel reported, the tenants form a forest, every live policy is
  valid and stored under its own chain, every rollout has a valid history and, once past the draft,
  a simulation result, and every live policy's chain is that of some rollout: no policy goes live
  that was not submitted as one.\<close>

theorem application_invariant:
  assumes "app_runs env app"
  shows "forest (ap_tenants app) \<and> registry_inv (app_registry app) \<and>
    (\<forall>x r. dget (ca_rollouts (ap_control app)) x = Some r \<longrightarrow> rollout_ok r \<and> simulated_ok r) \<and>
    (\<forall>chain b. get_policy (app_registry app) chain = Some b \<longrightarrow>
       (\<exists>x r. dget (ca_rollouts (ap_control app)) x = Some r \<and> pc_chain_id (ro_policy_config r) = chain))"
  using app_runs_ok [OF assms] reach_ok
  by (auto simp: app_ok_def control_ok_def live_from_rollouts_def app_registry_def get_policy_def)

theorem application_invariant_witness:
  "forest (ap_tenants (snd (serve sample_env sample_world (Some ''secret'')
     (ReqCreateTenant ''t'' ''T'' None []) (projr (lifespan_start sample_env DriverMissing False)))))"
proof -
  have "lifespan_start sample_env DriverMissing False =
      Inr (projr (lifespan_start sample_env DriverMissing False))"
    by (simp add: lifespan_start_def sample_env_def new_distributor_def)
  note start = runs_start [OF this]
  have "dget (ca_rollouts (ap_control (projr (lifespan_start sample_env DriverMissing False)))) (wd_uuid sample_world) = None"
    by (simp add: lifespan_start_def sample_env_def new_distributor_def)
  from application_invariant [OF runs_serve [OF start this]] show ?thesis by blast
qed

section \<open>A rollout goes live\<close>

text \<open>C12: a rollout in draft whose policy the distributor accepts, with room for four more entries in
  its history, goes live by four requests (the simulation result being small enough to store): simulate, approve, promote and activate are each
  answered with 200, the rollout is then active with its policy unchanged, and that policy is the
  one the registry serves for its chain.\<close>

theorem rollout_goes_live:
  assumes "credentials_ok env header" "is_uuid i" "actor_ok actor"
    and "dget (ca_rollouts (ap_control app)) i = Some r" "ro_state r = Draft"
    and "length (ro_history r) + 4 \<le> MAX_HISTORY_LENGTH" "valid_policy (app_strict app) (ro_policy_config r)"
    and "\<forall>b. fst (registry_distribute (wd_hasher w) (wd_now w) (ro_policy_config r) (app_registry app)) = Inr b \<longrightarrow>
      (\<exists>k \<le> MAX_SIM_RESULT_SIZE. wd_json_length w (sim_result_dict b) = Some k)"
  shows "\<exists>as app' r' b.
    serve_all env (map (\<lambda>rq. (w, header, rq)) (pipeline_requests i actor)) app = (as, app') \<and>
    map fst as = [200, 200, 200, 200] \<and>
    dget (ca_rollouts (ap_control app')) i = Some r' \<and> ro_state r' = Active \<and>
    ro_policy_config r' = ro_policy_config r \<and>
    get_policy (app_registry app') (pc_chain_id (ro_policy_config r)) = Some b \<and> pb_policy b = ro_policy_config r"
proof -
  have "stage_of (ap_control app) i Draft 4 (ro_policy_config r)"
    using assms(4-7) by (simp add: stage_of_def app_strict_def app_registry_def)
  from pipeline_goes_live [OF assms(1-3) this assms(8) [unfolded app_registry_def]] show ?thesis
    unfolding stage_of_def by (elim exE conjE) (intro exI conjI, assumption+)
qed

theorem rollout_goes_live_witness:
  "\<exists>as app' b.
    serve_all sample_env (map (\<lambda>rq. (sample_world, Some ''secret'', rq)) (pipeline_requests sample_uuid ''ops''))
      drafted_app = (as, app') \<and> map fst as = [200, 200, 200, 200] \<and>
    get_policy (app_registry app') ''c1'' = Some b \<and> pb_policy b = windowed_policy"
proof -
  let ?r = "new_rollout sample_uuid 0 windowed_policy ''ops''"
  have r: "ro_state ?r = Draft" "ro_policy_config ?r = windowed_policy" "ro_history ?r = []"
    and c: "pc_chain_id windowed_policy = ''c1''"
    by (simp_all add: new_rollout_def windowed_policy_def sample_policy_def new_policy_config_def)
  have room: "length (ro_history ?r) + 4 \<le> MAX_HISTORY_LENGTH" by (simp add: r MAX_HISTORY_LENGTH_def)
  have v: "valid_policy (app_strict drafted_app) (ro_policy_config ?r)"
    by (simp only: r drafted_app_sel windowed_policy_valid)
  have jl: "\<forall>b. fst (registry_distribute (wd_hasher sample_world) (wd_now sample_world) (ro_policy_config ?r)
      (app_registry drafted_app)) = Inr b \<longrightarrow>
    (\<exists>k \<le> MAX_SIM_RESULT_SIZE. wd_json_length sample_world (sim_result_dict b) = Some k)"
    by (simp add: sample_world_def)
  from rollout_goes_live [OF sample_credentials(1) sample_uuid_ok sample_actor_ok drafted_app_sel(1) r(1) room v jl]
  show ?thesis unfolding r c by (elim exE conjE) (intro exI conjI, assumption+)
qed

section \<open>Immutable mode\<close>

text \<open>C37: in immutable mode every \<open>PUT\<close> of a policy is refused and leaves the whole state alone, but the
  mode does not stop a rollout: activating one with a valid policy, even a draft nobody approved,
  replaces the live policy of its chain.\<close>

theorem immutable_mode_leaves_activation:
  assumes "is_immutable_config (ev_immutable_config env)" "credentials_ok env header"
    and "is_uuid i" "actor_ok actor" "dget (ca_rollouts (ap_control app)) i = Some r"
    and "valid_policy (app_strict app) (ro_policy_config r)"
  shows "(let (a, app') = serve env w header (ReqUpdatePolicy c u) app in
       fst a \<in> {403, 422, 500} \<and> app' = app\<lparr>ap_warned := ap_warned app'\<rparr>) \<and>
    (\<exists>b. get_policy (app_registry (snd (serve env w header (ReqActivateRollout i actor) app)))
        (pc_chain_id (ro_policy_config r)) = Some b \<and> pb_policy b = ro_policy_config r)"
proof -
  obtain warned where sv: "serve env w header (ReqUpdatePolicy c u) app =
      (respond (ReqUpdatePolicy c u) (fst (update_policy env w c u (app\<lparr>ap_warned := warned\<rparr>))),
       snd (update_policy env w c u (app\<lparr>ap_warned := warned\<rparr>)))"
    using serve_authorised [OF assms(2), of w "ReqUpdatePolicy c u" app] by auto
  have err: "e = HTTPException 422 \<or> e = OverflowError"
    if "validate_fields (schema_check (path_id_ok c) # update_fields (wd_lax_int w) u) = Inl e" for e
    using validate_fields_error [OF that] by (auto dest: update_fields_error)
  have "fst (respond (ReqUpdatePolicy c u) (fst (update_policy env w c u (app\<lparr>ap_warned := warned\<rparr>)))) \<in> {403, 422, 500} \<and>
      snd (update_policy env w c u (app\<lparr>ap_warned := warned\<rparr>)) = app\<lparr>ap_warned := warned\<rparr>"
    using assms(1)
    by (auto simp: update_policy_def update_policy_endpoint_def respond_status error_status_def policy_body_def
        as_body_def app_registry_def split: sum.splits dest: err)
  then show ?thesis using sv serve_activate [OF assms(2-6)] by simp
qed

theorem immutable_mode_leaves_activation_witness:
  "\<exists>b. get_policy (app_registry (snd (serve sample_env sample_world (Some ''secret'')
      (ReqActivateRollout sample_uuid ''ops'') drafted_app))) ''c1'' = Some b \<and> pb_policy b = windowed_policy"
proof -
  have imm: "is_immutable_config (ev_immutable_config sample_env)"
    by (simp add: is_immutable_config_def sample_env_def casefold_def casefold_char_def is_upper_def)
  have r: "ro_policy_config (new_rollout sample_uuid 0 windowed_policy ''ops'') = windowed_policy"
    and c: "pc_chain_id windowed_policy = ''c1''"
    by (simp_all add: new_rollout_def windowed_policy_def sample_policy_def new_policy_config_def)
  have v: "valid_policy (app_strict drafted_app) (ro_policy_config (new_rollout sample_uuid 0 windowed_policy ''ops''))"
    by (simp only: r drafted_app_sel windowed_policy_valid)
  from immutable_mode_leaves_activation [OF imm sample_credentials(1) sample_uuid_ok sample_actor_ok
      drafted_app_sel(1) v, of sample_world "''c1''" "empty_update 1"]
  show ?thesis unfolding r c by blast
qed

section \<open>Requests that end in 500\<close>

text \<open>A policy whose rate window is infinite passes the validation of a rollout and of its
  distribution; once its rollout was activated (or only tried to be), every export is answered
  with 500, because the response cannot be written as JSON.\<close>

theorem infinite_window_breaks_export:
  assumes "credentials_ok env header" "is_uuid i" "actor_ok actor"
    and "dget (ca_rollouts (ap_control app)) i = Some r" "valid_policy (app_strict app) (ro_policy_config r)"
    and "pc_rate_window_seconds (ro_policy_config r) = VFloat PInf"
    and "app' = snd (serve env w header (ReqActivateRollout i actor) app)"
    and "length (rg_store (app_registry app')) \<le> MAX_POLICY_PAGES * POLICY_PAGE_SIZE"
    and "1 \<le> limit" "limit \<le> MAX_EXPORT_EVENTS"
  shows "fst (serve env w' header (ReqExport limit) app') = (500, None)"
proof -
  obtain b where b: "get_policy (app_registry app') (pc_chain_id (ro_policy_config r)) = Some b"
      "pb_policy b = ro_policy_config r"
    using serve_activate [OF assms(1-5), of w] assms(7) by auto
  have "export_response w' (app'\<lparr>ap_warned := warned\<rparr>) limit = Inl ValueError" for warned
    by (rule export_refused [of _ "pc_chain_id (ro_policy_config r)" b PInf])
      (use b assms(6,8) in \<open>simp_all add: app_registry_def\<close>)
  moreover obtain warned where "serve env w' header (ReqExport limit) app' =
      (respond (ReqExport limit) (export_response w' (app'\<lparr>ap_warned := warned\<rparr>) limit), app'\<lparr>ap_warned := warned\<rparr>)"
    using serve_authorised [OF assms(1), of w' "ReqExport limit" app'] assms(9,10) by auto
  ultimately show ?thesis by (simp add: respond_def error_status_def)
qed

lemma serve_activate_size:
  "length (rg_store (app_registry (snd (serve env w header (ReqActivateRollout i actor) app)))) \<le>
     length (rg_store (app_registry app)) + 1"
proof -
  have put: "length (dput d k v) \<le> length d + 1" for d :: "(string, policy_bundle) pydict" and k v
    by (induction d) auto
  have "length (rg_store (snd (register hs now p s))) \<le> length (rg_store s) + 1" for hs now p s
    using distribute_store [of hs now p s] put
    by (auto simp: register_def store_bundle_def split: prod.splits sum.splits)
  then have "length (rg_store (app_registry (snd (handle env w (ReqActivateRollout i actor) a)))) \<le>
      length (rg_store (app_registry a)) + 1" for a
    by (auto simp: with_control_def case_prod_unfold Let_def app_registry_def activate_registry split: option.splits)
  then show ?thesis
    using serve_state [of env w header "ReqActivateRollout i actor" app]
    by (metis application.select_convs(2) application.surjective application.update_convs(6) app_registry_def le_add1)
qed

theorem infinite_window_breaks_export_witness:
  "fst (serve sample_env sample_world (Some ''secret'') (ReqExport 10)
     (snd (serve sample_env sample_world (Some ''secret'') (ReqActivateRollout sample_uuid ''ops'') drafted_app))) = (500, None)"
  using serve_activate_size [of sample_env sample_world "Some ''secret''" sample_uuid "''ops''" drafted_app]
  by (intro infinite_window_breaks_export [of _ _ sample_uuid "''ops''" drafted_app
        "new_rollout sample_uuid 0 windowed_policy ''ops''" _ sample_world])
    (simp_all add: sample_credentials sample_uuid_ok sample_actor_ok drafted_app_sel windowed_policy_valid
      new_rollout_def MAX_POLICY_PAGES_def POLICY_PAGE_SIZE_def MAX_EXPORT_EVENTS_def windowed_policy_valid [unfolded windowed_policy_def] windowed_policy_def)

text \<open>A \<open>PUT\<close> of a policy with an integer ceiling no float can hold is answered with 500, not 422,
  and changes nothing: the validator's \<open>float()\<close> raises \<open>OverflowError\<close>.\<close>

theorem huge_integer_answers_500:
  assumes "credentials_ok env header" "pu_ceiling_usd u = VInt n" "2 ^ 1024 \<le> n"
  shows "fst (serve env w header (ReqUpdatePolicy c u) app) = (500, None) \<and>
    snd (serve env w header (ReqUpdatePolicy c u) app) =
      app\<lparr>ap_warned := ap_warned (snd (serve env w header (ReqUpdatePolicy c u) app))\<rparr>"
proof -
  have "validate_fields (schema_check (path_id_ok c) # update_fields (wd_lax_int w) u) = Inl OverflowError"
    by (cases "path_id_ok c") (simp_all add: schema_check_def update_fields_def assms(2) update_float_huge [OF assms(3)] forget_def)
  then have "update_policy env w c u a = (Inl OverflowError, a)" for a
    by (simp add: update_policy_def)
  moreover obtain warned where "serve env w header (ReqUpdatePolicy c u) app =
      (respond (ReqUpdatePolicy c u) (fst (update_policy env w c u (app\<lparr>ap_warned := warned\<rparr>))),
       snd (update_policy env w c u (app\<lparr>ap_warned := warned\<rparr>)))"
    using serve_authorised [OF assms(1), of w "ReqUpdatePolicy c u" app] by auto
  ultimately show ?thesis by (simp add: respond_def error_status_def)
qed

theorem huge_integer_answers_500_witness:
  "fst (serve sample_env sample_world (Some ''secret'')
     (ReqUpdatePolicy ''c1'' ((empty_update 1)\<lparr>pu_ceiling_usd := VInt (2 ^ 1024)\<rparr>)) drafted_app) = (500, None)"
proof -
  have "pu_ceiling_usd ((empty_update 1)\<lparr>pu_ceiling_usd := VInt (2 ^ 1024)\<rparr>) = VInt (2 ^ 1024)"
    by (simp only: policy_update.select_convs policy_update.update_convs policy_update.simps empty_update_def)
  from huge_integer_answers_500 [OF sample_credentials(1) this order_refl] show ?thesis by blast
qed

text \<open>C38: in a running application a well-formed request to create a tenant is answered with 201 exactly
  when its overrides are known, its identifier is new and its parent, if any, is registered and has
  fewer than 100 ancestors; when the parent has 100, and all else is right, the answer is 500 and
  not a client error; otherwise it is 422.\<close>

theorem create_tenant_status:
  assumes "app_runs env app" "credentials_ok env header" "params_ok (ReqCreateTenant i name parent d)"
    and "status = fst (fst (serve env w header (ReqCreateTenant i name parent d) app))"
    and "acceptable \<longleftrightarrow> validate_overrides d = Inr () \<and> dget (ap_tenants app) i = None"
  shows "(status = 201 \<longleftrightarrow> acceptable \<and>
      (\<forall>p. parent = Some p \<longrightarrow> (\<exists>xs. ancestry (ap_tenants app) p xs \<and> length xs < 100))) \<and>
    (status = 500 \<longleftrightarrow> acceptable \<and>
      (\<exists>p xs. parent = Some p \<and> ancestry (ap_tenants app) p xs \<and> length xs = 100)) \<and>
    status \<in> {201, 422, 500}"
proof -
  let ?rq = "ReqCreateTenant i name parent d" and ?ts = "ap_tenants app"
  obtain warned where "serve env w header ?rq app =
      (respond ?rq (fst (handle env w ?rq (app\<lparr>ap_warned := warned\<rparr>))), snd (handle env w ?rq (app\<lparr>ap_warned := warned\<rparr>)))"
    using serve_authorised [OF assms(2), of w ?rq app] assms(3) by auto
  then have st: "status = (case fst (create_tenant (wd_now w) i name parent d ?ts) of Inl e \<Rightarrow> error_status e | Inr _ \<Rightarrow> 201)"
    by (simp add: assms(4) respond_status with_tenants_def tenant_body_def as_body_def case_prod_unfold Let_def
        split: sum.splits)
  have "forest ?ts" using app_runs_ok [OF assms(1)] by (rule app_ok_forest)
  from create_tenant_answer [OF this st assms(5)] show ?thesis .
qed

theorem create_tenant_status_witness:
  "fst (fst (serve sample_env sample_world (Some ''secret'') (ReqCreateTenant ''t'' ''T'' None [])
     (projr (lifespan_start sample_env DriverMissing False)))) = 201"
proof -
  let ?app = "projr (lifespan_start sample_env DriverMissing False)" and ?rq = "ReqCreateTenant ''t'' ''T'' None []"
  have "lifespan_start sample_env DriverMissing False = Inr ?app" and ts: "ap_tenants ?app = []"
    by (simp_all add: lifespan_start_def sample_env_def new_distributor_def)
  note run = runs_start [OF this(1)]
  have "params_ok ?rq" by (simp add: tenant_id_ok_def alnum_def is_lower_def tenant_name_ok_def)
  from create_tenant_status [OF run sample_credentials(1) this refl refl, of sample_world]
  show ?thesis by (simp add: ts validate_overrides_def)
qed

section \<open>CORS\<close>

text \<open>Credentials are allowed together with the wildcard origin exactly when the variable is not
  the bare wildcard but contains one after splitting at commas and stripping spaces.\<close>

theorem cors_wildcard_with_credentials:
  "''*'' \<in> set (fst (cors_settings e)) \<and> snd (cors_settings e) \<longleftrightarrow>
     e \<noteq> ''*'' \<and> (\<exists>p \<in> set (split_on CHR '','' e). strip p = ''*'')"
  by (rule cors_wildcard_iff)

end
