(* ===== verification/Servers.thy ===== *)
theory Servers
  imports Py_Value Prelude
begin

text \<open>
  The command line (\<open>cli.py\<close>) and the start of the metrics server
  (\<open>metrics_exporter.py\<close>), with its module-level flag as the state. Whether the Prometheus client is
  installed, the environment variable and the outcome of starting the server are arguments.
\<close>

section \<open>The port\<close>

datatype argument_error = ArgumentTypeError

definition valid_port :: "string \<Rightarrow> argument_error + int" where
  "valid_port v =
     (case parse_int v of
        Inl _ \<Rightarrow> Inl ArgumentTypeError
      | Inr port \<Rightarrow> if \<not> (1 \<le> port \<and> port \<le> 65535) then Inl ArgumentTypeError else Inr port)"

lemma valid_port_bounds: "valid_port v = Inr p \<Longrightarrow> 1 \<le> p \<and> p \<le> 65535"
  by (auto simp: valid_port_def split: sum.splits if_splits)

subsection \<open>Parsing what was printed\<close>

lemma show_digit_digit: "d < 10 \<Longrightarrow> is_digit (show_digit d) \<and> code (show_digit d) = 48 + d"
  by (simp add: is_digit_def show_digit_def)

lemma show_nat_digits: "list_all is_digit (show_nat n)"
  by (induction n rule: show_nat.induct) (subst show_nat.simps, simp add: show_digit_digit)

lemma show_nat_nonempty: "show_nat n \<noteq> []"
  by (subst show_nat.simps) simp

lemma digits_val_snoc: "digits_val (ds @ [c]) = 10 * digits_val ds + (code c - 48)"
  by (simp add: digits_val_def)

lemma digits_val_show: "digits_val (show_nat n) = n"
proof (induction n rule: show_nat.induct)
  case (1 n)
  show ?case
  proof (cases "n < 10")
    case True
    then show ?thesis by (subst show_nat.simps) (simp add: digits_val_def show_digit_digit)
  next
    case False
    then show ?thesis
      using 1 by (subst show_nat.simps) (simp add: digits_val_snoc show_digit_digit)
  qed
qed

lemma take_digits_Cons:
  assumes "is_digit c" "s \<noteq> [] \<longrightarrow> hd s \<noteq> CHR ''_''"
  shows "take_digits (c # s) = (c # fst (take_digits s), snd (take_digits s))"
proof (cases s)
  case (Cons d cs)
  then show ?thesis using assms by (cases cs) (simp_all add: case_prod_beta Let_def)
qed (simp add: assms)

lemma take_digits_all: "list_all is_digit s \<Longrightarrow> take_digits s = (s, [])"
proof (induction s)
  case (Cons c s)
  have "s \<noteq> [] \<longrightarrow> hd s \<noteq> CHR ''_''"
    using Cons.prems by (cases s) (auto simp: is_digit_def)
  then show ?case using Cons by (simp add: take_digits_Cons)
qed simp

lemma strip_digits:
  assumes "list_all is_digit s"
  shows "strip s = s"
proof -
  have no: "\<not> is_space c" if "c \<in> set s" for c
    using that assms by (auto simp: list_all_iff is_digit_def is_space_def)
  have front: "dropWhile is_space s = s" using no by (cases s) auto
  have "dropWhile is_space (rev s) = rev s"
  proof (cases "rev s")
    case (Cons c cs)
    then have "c \<in> set s" by (metis list.set_intros(1) set_rev)
    then show ?thesis using no Cons by simp
  qed simp
  then show ?thesis by (simp add: strip_def front)
qed

lemma parse_show_nat: "parse_int (show_nat n) = Inr (int n)"
proof -
  obtain c cs where s: "show_nat n = c # cs" using show_nat_nonempty by (cases "show_nat n") auto
  have "is_digit c" using show_nat_digits [of n] s by simp
  then have "take_sign (show_nat n) = (False, show_nat n)" by (auto simp: take_sign_def s is_digit_def)
  then show ?thesis
    using show_nat_digits [of n] show_nat_nonempty [of n]
    by (simp add: parse_int_def strip_digits take_digits_all digits_val_show)
qed

lemma valid_port_show: "valid_port (show_nat n) = (if 1 \<le> n \<and> n \<le> 65535 then Inr (int n) else Inl ArgumentTypeError)"
  by (auto simp: valid_port_def parse_show_nat)

section \<open>The command\<close>

text \<open>
  \<open>main\<close> and \<open>_serve\<close>, from the strings \<open>argparse\<close> finds for the options (\<open>None\<close>: not given). A missing
  command or a rejected value makes the parser exit with 2.
\<close>

record serve_args =
  sv_host :: "string option"
  sv_port :: "string option"
  sv_reload :: bool

datatype cli_command = NoCommand | ServeCommand serve_args

datatype cli_outcome = Exits nat | RunsUvicorn string int bool

definition serve_uvicorn :: "bool \<Rightarrow> string \<Rightarrow> int \<Rightarrow> bool \<Rightarrow> cli_outcome" where
  "serve_uvicorn installed host port reload = (if \<not> installed then Exits 1 else RunsUvicorn host port reload)"

definition cli_main :: "bool \<Rightarrow> cli_command \<Rightarrow> cli_outcome" where
  "cli_main installed command =
     (case command of
        NoCommand \<Rightarrow> Exits 2
      | ServeCommand args \<Rightarrow>
          (case (case sv_port args of None \<Rightarrow> Inr 8000 | Some v \<Rightarrow> valid_port v) of
             Inl _ \<Rightarrow> Exits 2
           | Inr port \<Rightarrow>
               serve_uvicorn installed (case sv_host args of None \<Rightarrow> ''127.0.0.1'' | Some h \<Rightarrow> h) port
                 (sv_reload args)))"

lemma cli_main_port: "cli_main installed command = RunsUvicorn host port reload \<Longrightarrow> installed \<and> 1 \<le> port \<and> port \<le> 65535"
  by (auto simp: cli_main_def serve_uvicorn_def dest: valid_port_bounds
      split: cli_command.splits sum.splits option.splits if_splits)

lemma cli_main_given:
  "cli_main True (ServeCommand \<lparr>sv_host = Some h, sv_port = Some (show_nat n), sv_reload = r\<rparr>) =
     (if 1 \<le> n \<and> n \<le> 65535 then RunsUvicorn h (int n) r else Exits 2)"
  by (simp add: cli_main_def serve_uvicorn_def valid_port_show)

section \<open>The metrics server\<close>

definition METRICS_PORT :: int where "METRICS_PORT = 9464"

definition metrics_port :: "int option \<Rightarrow> string option \<Rightarrow> int result" where
  \<comment> \<open>the argument, else the variable, else the default\<close>
  "metrics_port port env =
     (case port of Some p \<Rightarrow> Inr p
      | None \<Rightarrow> (case env of None \<Rightarrow> Inr METRICS_PORT | Some v \<Rightarrow> parse_int v))"

definition start_metrics_server ::
  "bool \<Rightarrow> (int \<Rightarrow> bool) \<Rightarrow> int option \<Rightarrow> string option \<Rightarrow> bool \<Rightarrow> bool result \<times> bool" where
  \<comment> \<open>the state is \<open>_started\<close>; \<open>binds p\<close>: the server could be started on port \<open>p\<close>\<close>
  "start_metrics_server installed binds port env started =
     (if started then (Inr True, started)
      else if \<not> installed then (Inr False, started)
      else (case metrics_port port env of
              Inl e \<Rightarrow> (Inl e, started)
            | Inr p \<Rightarrow> if binds p then (Inr True, True) else (Inl OSError, started)))"

text \<open>Once started it stays so, and every later call returns \<open>True\<close> whatever its arguments, also
  when it asks for another port.\<close>

lemma started_stays:
  "fst (start_metrics_server installed binds port env started) = Inr True \<Longrightarrow>
   start_metrics_server installed' binds' port' env' (snd (start_metrics_server installed binds port env started)) = (Inr True, True)"
  by (auto simp: start_metrics_server_def split: if_splits sum.splits)

lemma started_iff:
  "snd (start_metrics_server installed binds port env started) \<longleftrightarrow>
     started \<or> (installed \<and> (\<exists>p. metrics_port port env = Inr p \<and> binds p))"
  by (auto simp: start_metrics_server_def split: sum.splits)

end
