(* ===== verification/Spec2Isabelle.thy ===== *)
theory Spec2Isabelle
  imports Pipeline_Properties Store_Properties Control_Plane_Properties Application_Properties
    Servers Status_Codes Budget_Run
begin

text \<open>
  A verification library for VERONICA (\<open>src/src/veronica/\<close>), a governance control plane for
  LLM agents. The program has two halves. The \<^emph>\<open>step pipeline\<close> (\<open>os.py\<close> and the components it
  is assembled from) decides, before a step of an agent, a policy with a cost ceiling, lets the
  kernel run the step under that policy, and afterwards records what the step cost and what to
  do about it. The \<^emph>\<open>control plane\<close> (\<open>api/\<close>, \<open>distribution/\<close>, \<open>rollouts/\<close>, \<open>tenants/\<close>, \<open>ingest/\<close>,
  \<open>replay/\<close>) is an HTTP service that stores versioned policies, moves them through an approval
  pipeline, resolves them along a tenant tree, and keeps, pages, simulates and replays the events
  the kernel reports.

  \<^bold>\<open>How the program is represented.\<close> A class is a record of its attributes, a method a function
  that takes the record and returns its result and the new record; a dataclass is a record, a
  literal type a datatype (or a string where the code never restricts it). A Python exception is
  the left side of the sum \<open>result\<close> (\<open>Prelude\<close>), so that every \<open>raise\<close> is a branch; the text of a
  message is left out. A \<open>dict\<close> is an association list in insertion order (\<open>dget\<close>, \<open>dput\<close>, \<open>ddel\<close>).
  A \<open>float\<close> is \<open>pyfloat\<close> (\<open>Py_Float\<close>): the two infinities, NaN and the rationals, with the arithmetic
  of binary64 rounded to nearest even written out, the comparisons false on NaN, and overflow to
  infinity; the sign of zero is not represented, so that two policies that differ in it only, which
  \<open>json\<close> writes differently, are one policy here. \<open>sum\<close> over floats adds from left to right, as
  Python 3.10 and 3.11 do (later versions compensate). An \<open>int\<close> is \<open>int\<close>, and converting one that
  is too large to a float raises, as in Python. A value of unknown type, read from a request body
  or an event, is a \<open>pyval\<close> (\<open>Py_Value\<close>), with Python's truth value, comparison, \<open>float()\<close> and \<open>int()\<close>
  written out. Strings are ASCII. A section under a lock is one atomic step; where a method takes
  its lock several times each section is a definition of its own, and the properties about
  concurrency are invariants of inductive step relations that interleave the sections freely.

  \<^bold>\<open>Parameters.\<close> What is not in the repository is an argument: the clock (\<open>clock\<close>, and \<open>now\<close>), fresh
  identifiers, SHA-256 and HMAC (\<open>hasher\<close>), \<open>json\<close> and \<open>repr\<close> of a value, the pricing table of
  \<open>veronica-core\<close>, its \<open>ExecutionContext\<close> (\<open>kernel\<close>), its \<open>SafetyEvent\<close> values, the outcome of a call
  to Redis, to the file system, to the database or to a store (\<open>redis_io\<close>, \<open>file_io\<close>, \<open>pg_write\<close>, the
  \<open>raises\<close> of the ingestor), the database driver and the success of a statement (\<open>pg_driver\<close>,
  \<open>schema_run\<close>), the constructors and calls of the Prometheus client (\<open>collector_factory\<close>, \<open>client\<close>),
  which optional modules are installed, and the callbacks of the subscribers. A theorem that assumes
  anything of them says so in its hypotheses (that the stored simulation result is short, that file
  operations succeed, that the kernel charges at most its ceiling and a bounded overrun).

  \<^bold>\<open>Theories.\<close>

  \<^item> \<open>Prelude\<close>, \<open>Py_Float\<close>, \<open>Py_Value\<close>, \<open>Py_Sort\<close>: results, dictionaries, slices; floats and the laws
    used of them (rounding is monotone, exact on representable numbers, and so on); dynamic
    values; stable sorting and \<open>heapq.nlargest\<close>, with the locale \<open>sort_order\<close>.
  \<^item> \<open>Policy_Types\<close> (\<open>types.py\<close>): intents, outcomes, policies, the organization policy with its
    \<open>validate\<close> and \<open>clamp\<close>.
  \<^item> \<open>Analyzers\<close> (\<open>analyzer.py\<close>, \<open>history_analyzer.py\<close>), \<open>Cost_Models\<close> (\<open>cost_model.py\<close>,
    \<open>regression_cost_model.py\<close>), \<open>Planners\<close> (\<open>planner.py\<close>, \<open>adaptive_planner.py\<close>), \<open>Collector\<close>
    (\<open>collector.py\<close>, \<open>_timeguard.py\<close>), \<open>Stores\<close> (\<open>store.py\<close>), \<open>File_Store\<close> and \<open>File_Statistics\<close>
    (\<open>file_store.py\<close>), \<open>Pg_Store\<close> and \<open>Pg_Connection\<close> (\<open>pg_store.py\<close>: the queries; the driver, the pool,
    the two tables and the database that outlives the store), \<open>Arbiters\<close> (\<open>arbiter.py\<close>,
    \<open>proportional_arbiter.py\<close>), \<open>Redis_Arbiter\<close> (\<open>redis_arbiter.py\<close>, \<open>_redis_scripts.py\<close>), \<open>Emitter\<close>
    (\<open>buffered_emitter.py\<close>, \<open>emitter.py\<close>, \<open>structured_log_subscriber.py\<close>), \<open>Metrics\<close> and
    \<open>Metric_Registration\<close> (\<open>metrics/prometheus_subscriber.py\<close>, \<open>metrics_subscriber.py\<close>: the handlers;
    the lookup or creation of their collectors in a registry): one stage of the pipeline each. The
    methods of the protocols of \<open>protocols.py\<close> are the fields of \<open>pipeline\<close>, and their promises the locales \<open>analyzer_contract\<close>, \<open>cost_model_contract\<close>,
    \<open>planner_contract\<close>, \<open>arbiter_contract\<close> and \<open>store_contract\<close>, each interpreted on every
    implementation of the code: \<open>store_contract\<close> says that the view of a chain is its most recent
    accepted outcomes up to what a store keeps of them, for the memory, file and database stores
    (\<open>memory\<close>, \<open>jsonl\<close>, \<open>pg\<close>). A data file is a list of lines, a table a list of rows, and the
    directory and the table are part of the state of their store.
  \<^item> \<open>Orchestrator\<close> (\<open>os.py\<close>): the pipeline itself, over a record of stages; \<open>step\<close> and \<open>run_step\<close>
    compose \<open>before_step\<close>, the kernel and \<open>after_step\<close> with their error paths. \<open>Budget_Run\<close>: many steps,
    the rounding of what is left of a budget, and the invariant that bounds what a chain spends.
  \<^item> \<open>Policy_Audit\<close> (\<open>policy_audit.py\<close>: the canonical form of any object, and when two policies have
    the same), \<open>Distribution\<close> (\<open>distribution/policy_distributor.py\<close>), \<open>Policy_Registry\<close>
    (\<open>api/policy_registry.py\<close>, \<open>api/routes/policies.py\<close>), \<open>Simulation\<close> (\<open>api/routes/simulate.py\<close>),
    \<open>Rollouts\<close> (\<open>rollouts/\<close>), \<open>Tenants\<close> (\<open>tenants/\<close>, \<open>api/routes/tenants.py\<close>), \<open>Cp_Events\<close>
    (\<open>schemas/events.py\<close>), \<open>Ingest\<close> (\<open>ingest/event_ingestor.py\<close>), \<open>Replay\<close> (\<open>replay/\<close>,
    \<open>api/routes/replay.py\<close>), \<open>Event_Api\<close> (\<open>api/routes/events.py\<close>, \<open>export.py\<close>, \<open>incidents.py\<close>,
    \<open>runs.py\<close>, \<open>health.py\<close>), \<open>Auth\<close> (\<open>api/auth.py\<close>): the control plane.
  \<^item> \<open>Http_Schemas\<close> (\<open>api/schemas.py\<close>, the response models of the route modules) and \<open>Application\<close>
    (\<open>api/app.py\<close>, \<open>ui/router.py\<close>): the HTTP application as a whole. A request is a constructor per
    route; \<open>serve\<close> composes the middleware, the validation of the parameters, the handler over the
    one shared state (\<open>application\<close>) and the exception handlers. \<open>Application_Safety\<close> and
    \<open>Rollout_Pipeline\<close> hold what follows for it from the lemmas of the components: reads, the
    middleware, the invariants of every reachable state (\<open>app_runs\<close>), a rollout's way to production;
    \<open>Status_Codes\<close> the statuses a route can answer with.
  \<^item> \<open>Servers\<close> (\<open>cli.py\<close>, \<open>metrics_exporter.py\<close>): the port validator, what the command line starts and
    how it exits, the metrics server's flag.
  \<^item> \<open>Samples\<close>: concrete inputs of the witnesses. \<open>Pipeline_Properties\<close>, \<open>Store_Properties\<close>,
    \<open>Control_Plane_Properties\<close> and \<open>Application_Properties\<close>: the properties, each with a witness at a
    concrete input, over the lemmas of the component theories.

  \<^bold>\<open>Bounds.\<close> Recursion is structural throughout except for three loops that the code bounds, and whose
  fuel is the code's own bound: the walk to the root of the tenant tree (\<open>MAX_DEPTH\<close>, reaching it is
  the code's \<open>RuntimeError\<close>), the pages of the export (\<open>MAX_POLICY_PAGES\<close>) and the write attempts of
  the ingestor (\<open>WRITE_ATTEMPTS\<close>).

  \<^bold>\<open>Not modelled.\<close> The framework: routing and decoding of a request, pydantic's conversion of a JSON
  value to a number (the arguments \<open>lax\<close> and \<open>lf\<close>), the CORS middleware behind its settings, the
  serialization of responses (except the check for infinite numbers where the code builds the
  response itself, in the export), the description of the API. The grammar of \<open>argparse\<close>: the command line
  starts from the option strings. The path the middleware reads is the path the request is routed by, and
  CORS preflights and the framework's own pages (\<open>/docs\<close>, \<open>/openapi.json\<close>) are not requests. The re-exports
  of the \<open>__init__\<close> files; log lines. Callbacks of the emitter that call it back or raise what
  \<open>except Exception\<close> lets through. Failures of the surroundings beyond those named above: a data file that
  exists but cannot be read, an append that leaves part of a line, a database commit that was applied and
  reported as failed. Redis is one scope of keys with integer amounts, of either sign, below the 14 digits to
  which Lua prints a number. The counters read from
  a statistics file are natural numbers.
\<close>

end
